(* ===== verification/Prelude.thy ===== *)
theory Prelude
  imports Main "HOL-Library.Word"
begin

text \<open>
  Shared vocabulary of the development: object identifiers, the errors that
  \<^verbatim>\<open>ereport(ERROR, ...)\<close> raises, the C character and string functions the sources
  call (\<open>isspace\<close>, \<open>isdigit\<close>, \<open>strtol\<close>, case-insensitive comparison, reads of a
  NUL-terminated string inside a buffer, \<open>memcpy\<close> into a buffer), and the generic
  lemmas the component theories rest on.

  A \<^verbatim>\<open>char*\<close> that the code treats as a C string is a \<^typ>\<open>string\<close> without the NUL
  byte; a pointer that may be NULL is an \<open>option\<close>; a raw buffer is a \<^typ>\<open>string\<close>
  whose NUL bytes are explicit.
\<close>

named_theorems cstr_simps \<open>equations for C strings inside buffers\<close>
named_theorems inv_intros \<open>introduction rules for component invariants\<close>
named_theorems opt_defs \<open>definitions unfolded when options are evaluated\<close>

section \<open>Identifiers and errors\<close>

type_synonym Oid = "32 word"

abbreviation InvalidOid :: Oid where
  "InvalidOid \<equiv> 0"

definition OidIsValid :: "Oid \<Rightarrow> bool" where
  "OidIsValid oid \<longleftrightarrow> oid \<noteq> InvalidOid"

datatype sqlstate =
    ERRCODE_FDW_ERROR
  | ERRCODE_FDW_OUT_OF_MEMORY
  | ERRCODE_OUT_OF_MEMORY
  | ERRCODE_SYNTAX_ERROR
  | ERRCODE_FDW_INVALID_OPTION_NAME
  | ERRCODE_FDW_INVALID_STRING_FORMAT
  | ERRCODE_FDW_INVALID_ATTRIBUTE_VALUE
  | ERRCODE_FDW_INVALID_STRING_LENGTH_OR_BUFFER_LENGTH
  | ERRCODE_FDW_INVALID_DATA_TYPE
  | ERRCODE_FDW_UNABLE_TO_ESTABLISH_CONNECTION
  | ERRCODE_SQLCLIENT_UNABLE_TO_ESTABLISH_SQLCONNECTION
  | ERRCODE_SQL_ROUTINE_EXCEPTION
  | ERRCODE_CONNECTION_FAILURE
  | ERRCODE_DATATYPE_MISMATCH
  | ERRCODE_INTERNAL_ERROR
  | ERRCODE_QUERY_CANCELED
  | ERRCODE_FEATURE_NOT_SUPPORTED
  | ERRCODE_INVALID_REGULAR_EXPRESSION

text \<open>
  One raised error: its SQLSTATE, its primary message, and its hint, detail and
  context lines in the order the source gives them.
\<close>

datatype pg_error = Ereport (errcode: sqlstate) (errmsg: string) (errlines: "string list")

type_synonym 'a pg = "pg_error + 'a"

text \<open>Sequencing of code that may raise: an error stops the rest of the function.\<close>

definition rbind :: "'e + 'a \<Rightarrow> ('a \<Rightarrow> 'e + 'b) \<Rightarrow> 'e + 'b" where
  "rbind m f = (case m of Inl e \<Rightarrow> Inl e | Inr x \<Rightarrow> f x)"

lemma rbind_simps [simp]:
  "rbind (Inl e) f = Inl e"
  "rbind (Inr x) f = f x"
  by (simp_all add: rbind_def)

lemma rbind_Inr_iff: "rbind m f = Inr y \<longleftrightarrow> (\<exists>x. m = Inr x \<and> f x = Inr y)"
  by (cases m) auto

lemma rbind_Inl_iff:
  "rbind m f = Inl e \<longleftrightarrow> m = Inl e \<or> (\<exists>x. m = Inr x \<and> f x = Inl e)"
  by (cases m) auto

lemma rbind_cong [fundef_cong]:
  "m = m' \<Longrightarrow> (\<And>x. m' = Inr x \<Longrightarrow> f x = f' x) \<Longrightarrow> rbind m f = rbind m' f'"
  by (cases m') auto

lemma rbind_assoc: "rbind (rbind m f) g = rbind m (\<lambda>x. rbind (f x) g)"
  by (cases m) auto

section \<open>C characters\<close>

abbreviation NUL :: char where "NUL \<equiv> CHR 0x00"
abbreviation SQUOTE :: char where "SQUOTE \<equiv> CHR 0x27"
abbreviation BSLASH :: char where "BSLASH \<equiv> CHR 0x5C"

text \<open>\<open>isspace\<close> and \<open>isdigit\<close> of the C locale.\<close>

definition isspace :: "char \<Rightarrow> bool" where
  "isspace c \<longleftrightarrow> c = CHR 0x20 \<or> c = CHR 0x09 \<or> c = CHR 0x0A \<or> c = CHR 0x0B
     \<or> c = CHR 0x0C \<or> c = CHR 0x0D"

definition isdigit :: "char \<Rightarrow> bool" where
  "isdigit c \<longleftrightarrow> 48 \<le> (of_char c :: nat) \<and> (of_char c :: nat) \<le> 57"

lemma isspace_not_special [simp]:
  "\<not> isspace SQUOTE" "\<not> isspace BSLASH" "\<not> isspace (CHR '','')"
  by (simp_all add: isspace_def)

text \<open>ASCII case folding, which is all that comparisons with ASCII literals depend on.\<close>

definition pg_tolower :: "char \<Rightarrow> char" where
  "pg_tolower c = (let n = (of_char c :: nat) in if 65 \<le> n \<and> n \<le> 90 then char_of (n + 32) else c)"

definition strcaseeq :: "string \<Rightarrow> string \<Rightarrow> bool" where
  "strcaseeq s t \<longleftrightarrow> map pg_tolower s = map pg_tolower t"

lemma strcaseeq_refl [simp]: "strcaseeq s s"
  by (simp add: strcaseeq_def)

lemma strcaseeq_sym: "strcaseeq s t \<Longrightarrow> strcaseeq t s"
  by (simp add: strcaseeq_def)

lemma strcaseeq_trans: "strcaseeq s t \<Longrightarrow> strcaseeq t u \<Longrightarrow> strcaseeq s u"
  by (simp add: strcaseeq_def)

section \<open>C strings inside buffers\<close>

text \<open>
  \<open>cstr_at buf i\<close> is the C string that starts at offset \<open>i\<close>, and \<open>None\<close> when the
  read would run past the end of the buffer: \<open>i\<close> is outside it, or no NUL follows.
\<close>

definition cstr_at :: "string \<Rightarrow> nat \<Rightarrow> string option" where
  "cstr_at buf i = (if NUL \<in> set (drop i buf) then Some (takeWhile (\<lambda>c. c \<noteq> NUL) (drop i buf)) else None)"

text \<open>\<open>memcpy(buf + i, bytes, length bytes)\<close>, \<open>None\<close> when it would write outside the buffer.\<close>

definition memcpy_at :: "string \<Rightarrow> nat \<Rightarrow> string \<Rightarrow> string option" where
  "memcpy_at buf i bytes =
     (if i + length bytes \<le> length buf
      then Some (take i buf @ bytes @ drop (i + length bytes) buf) else None)"

lemma cstr_at_append [cstr_simps]:
  assumes "NUL \<notin> set s" and "i = length pre"
  shows "cstr_at (pre @ s @ NUL # rest) i = Some s"
proof -
  have "takeWhile (\<lambda>c. c \<noteq> NUL) (s @ NUL # rest) = s"
    using assms(1) by (induction s) auto
  then show ?thesis using assms(2) by (simp add: cstr_at_def)
qed

lemma memcpy_at_append [cstr_simps]:
  assumes "i = length pre" and "length bytes \<le> length rest"
  shows "memcpy_at (pre @ rest) i bytes = Some (pre @ bytes @ drop (length bytes) rest)"
  using assms by (simp add: memcpy_at_def)

lemma memcpy_at_length: "memcpy_at buf i bytes = Some buf' \<Longrightarrow> length buf' = length buf"
  by (auto simp: memcpy_at_def split: if_splits)

section \<open>Decimal integers: \<open>strtol(s, &end, 10)\<close>\<close>

abbreviation INT_MAX :: int where "INT_MAX \<equiv> 2147483647"
abbreviation INT_MIN :: int where "INT_MIN \<equiv> -2147483648"
abbreviation LONG_MAX :: int where "LONG_MAX \<equiv> 9223372036854775807"
abbreviation LONG_MIN :: int where "LONG_MIN \<equiv> -9223372036854775808"

definition digit_val :: "char \<Rightarrow> int" where
  "digit_val c = int (of_char c) - 48"

definition dec_val :: "string \<Rightarrow> int" where
  "dec_val ds = foldl (\<lambda>v c. 10 * v + digit_val c) 0 ds"

definition clamp_long :: "int \<Rightarrow> int" where
  "clamp_long v = max LONG_MIN (min LONG_MAX v)"

text \<open>
  The value and the unread rest (\<open>end\<close>). Without any digit nothing is consumed and
  the value is 0; values outside a 64-bit \<open>long\<close> saturate.
\<close>

definition strtol10 :: "string \<Rightarrow> int \<times> string" where
  "strtol10 s =
     (let t = dropWhile isspace s;
          neg = (t \<noteq> [] \<and> hd t = CHR ''-'');
          u = (if t \<noteq> [] \<and> (hd t = CHR ''-'' \<or> hd t = CHR ''+'') then tl t else t);
          ds = takeWhile isdigit u
      in if ds = [] then (0, s)
         else (clamp_long (if neg then - dec_val ds else dec_val ds), dropWhile isdigit u))"

lemma clamp_long_bounds: "LONG_MIN \<le> clamp_long v \<and> clamp_long v \<le> LONG_MAX"
  by (auto simp: clamp_long_def)

section \<open>Lists\<close>

text \<open>The first index whose element satisfies a test, as the sources' \<open>foreach\<close> with \<open>break\<close> finds it.\<close>

fun find_index :: "('a \<Rightarrow> bool) \<Rightarrow> 'a list \<Rightarrow> nat option" where
  "find_index P [] = None"
| "find_index P (x # xs) = (if P x then Some 0 else map_option Suc (find_index P xs))"

lemma find_index_None: "find_index P xs = None \<longleftrightarrow> (\<forall>x \<in> set xs. \<not> P x)"
  by (induction xs) auto

lemma find_index_SomeD:
  "find_index P xs = Some i \<Longrightarrow> i < length xs \<and> P (xs ! i) \<and> (\<forall>j < i. \<not> P (xs ! j))"
proof (induction xs arbitrary: i)
  case Nil
  then show ?case by simp
next
  case (Cons x xs)
  show ?case
  proof (cases "P x")
    case True
    with Cons.prems show ?thesis by auto
  next
    case False
    with Cons.prems obtain k where k: "find_index P xs = Some k" "i = Suc k"
      by auto
    with Cons.IH [OF k(1)] False show ?thesis
      by (auto simp: nth_Cons split: nat.splits)
  qed
qed

section \<open>State machines\<close>

text \<open>
  The states a component can reach from its initial ones, and the interface every
  invariant of the development goes through: it holds initially and every step keeps it.
\<close>

inductive reach :: "('s \<Rightarrow> bool) \<Rightarrow> ('s \<Rightarrow> 's \<Rightarrow> bool) \<Rightarrow> 's \<Rightarrow> bool"
  for init :: "'s \<Rightarrow> bool" and stp :: "'s \<Rightarrow> 's \<Rightarrow> bool" where
  reach_init: "init s \<Longrightarrow> reach init stp s"
| reach_step: "reach init stp s \<Longrightarrow> stp s s' \<Longrightarrow> reach init stp s'"

locale inductive_invariant =
  fixes init :: "'s \<Rightarrow> bool" and stp :: "'s \<Rightarrow> 's \<Rightarrow> bool" and inv :: "'s \<Rightarrow> bool"
  assumes init_inv: "init s \<Longrightarrow> inv s"
    and step_inv: "inv s \<Longrightarrow> stp s s' \<Longrightarrow> inv s'"
begin

lemma reach_inv: "reach init stp s \<Longrightarrow> inv s"
  by (induction rule: reach.induct) (auto intro: init_inv step_inv)

lemma steps_inv: "inv s \<Longrightarrow> stp\<^sup>*\<^sup>* s s' \<Longrightarrow> inv s'"
  by (rotate_tac) (induction rule: rtranclp_induct, auto intro: step_inv)

end

section \<open>Searching strings\<close>

text \<open>\<open>strstr\<close> and \<open>memmem\<close>: the rest of the string from the first occurrence of the pattern.\<close>

definition starts_with :: "string \<Rightarrow> string \<Rightarrow> bool" where
  "starts_with pat s \<longleftrightarrow> take (length pat) s = pat"

fun find_sub :: "string \<Rightarrow> string \<Rightarrow> string option" where
  "find_sub pat [] = (if pat = [] then Some [] else None)"
| "find_sub pat (c # s) = (if starts_with pat (c # s) then Some (c # s) else find_sub pat s)"

lemma starts_with_append: "starts_with pat s \<longleftrightarrow> (\<exists>r. s = pat @ r)"
  by (metis append_eq_conv_conj append_take_drop_id starts_with_def)

lemma find_sub_SomeD:
  "find_sub pat s = Some r \<Longrightarrow> starts_with pat r \<and> (\<exists>pre. s = pre @ r)"
proof (induction s)
  case (Cons c s)
  show ?case
  proof (cases "starts_with pat (c # s)")
    case False
    with Cons obtain pre where "starts_with pat r" "s = pre @ r" by auto
    then show ?thesis by (intro conjI exI [of _ "c # pre"]) simp_all
  qed (use Cons.prems in simp)
qed (auto simp: starts_with_def split: if_splits)

lemma find_sub_NoneD: "find_sub pat s = None \<Longrightarrow> s = pre @ r \<Longrightarrow> \<not> starts_with pat r"
proof (induction s arbitrary: pre)
  case (Cons c s)
  then show ?case by (cases pre) (auto split: if_splits)
qed (auto simp: starts_with_def split: if_splits)

lemma find_sub_first:
  "find_sub pat s = Some r \<Longrightarrow> s = pre @ r' \<Longrightarrow> starts_with pat r' \<Longrightarrow> length r' \<le> length r"
proof (induction s arbitrary: pre)
  case (Cons c s)
  then show ?case by (cases pre) (auto split: if_splits)
qed (auto split: if_splits)

section \<open>Decimal numbers: \<open>%d\<close>\<close>

definition digit_char :: "nat \<Rightarrow> char" where
  "digit_char d = char_of (48 + d)"

fun show_nat :: "nat \<Rightarrow> string" where
  "show_nat n = (if n < 10 then [digit_char n] else show_nat (n div 10) @ [digit_char (n mod 10)])"

declare show_nat.simps [simp del]

lemma digit_char: "d < 10 \<Longrightarrow> isdigit (digit_char d) \<and> digit_val (digit_char d) = int d"
  by (simp add: isdigit_def digit_char_def digit_val_def)

lemma dec_val_snoc: "dec_val (ds @ [c]) = 10 * dec_val ds + digit_val c"
  by (simp add: dec_val_def)

lemma show_nat_digits: "show_nat n \<noteq> [] \<and> (\<forall>c \<in> set (show_nat n). isdigit c)"
proof (induction n rule: show_nat.induct)
  case (1 n)
  show ?case
  proof (cases "n < 10")
    case True
    then show ?thesis by (subst (1 2) show_nat.simps) (simp add: digit_char)
  next
    case False
    with 1 show ?thesis by (subst (1 2) show_nat.simps) (simp add: digit_char)
  qed
qed

lemma dec_val_show_nat: "dec_val (show_nat n) = int n"
proof (induction n rule: show_nat.induct)
  case (1 n)
  show ?case
  proof (cases "n < 10")
    case True
    then show ?thesis by (subst show_nat.simps) (simp add: digit_char dec_val_def)
  next
    case False
    with 1 show ?thesis by (subst show_nat.simps) (simp add: digit_char dec_val_snoc zmod_int zdiv_int)
  qed
qed

lemma span_digits:
  assumes "\<forall>c \<in> set ds. isdigit c" and "rest = [] \<or> \<not> isdigit (hd rest)"
  shows "takeWhile isdigit (ds @ rest) = ds" "dropWhile isdigit (ds @ rest) = rest"
  using assms by (cases rest; simp add: takeWhile_append2)+

lemma append_suffix_total: "p @ x = q @ y \<Longrightarrow> length x \<le> length y \<Longrightarrow> \<exists>a. y = a @ x"
  by (auto simp: append_eq_append_conv2)

lemma takeWhile_prefix: "\<exists>y. takeWhile P xs @ y = takeWhile P (xs @ zs)"
  by (induction xs) auto

end
