(* ===== verification/KvList.thy ===== *)
theory KvList
  imports Prelude
begin

text \<open>
  The packed list of key/value strings of \<open>src/kv_list.c\<close> (\<open>kv_list\<close>, \<open>kv_iter\<close>):
  a pair count followed by the names and values, each NUL terminated, in one
  allocation. Reads and writes go through \<^const>\<open>cstr_at\<close> and \<^const>\<open>memcpy_at\<close>, so
  an access outside the allocation is the value \<open>None\<close>, and the lemmas that show
  \<open>Some\<close> are memory-safety statements.
\<close>

section \<open>Data\<close>

record DefElem =
  defname :: string
  arg :: "string option"

text \<open>\<open>kv_list\<close>: \<open>data\<close> is the flexible array member, of the size that was allocated.\<close>

record kv_list =
  kv_len :: nat
  kv_data :: string

text \<open>\<open>kv_iter\<close>: the pointers are offsets into \<open>data\<close>, \<open>None\<close> for NULL.\<close>

record kv_iter =
  it_togo :: nat
  it_next :: "nat option"
  it_name :: "nat option"
  it_value :: "nat option"

datatype allocator = GucMalloc | Malloc | Palloc

text \<open>
  What an allocator does with a size: raise (\<open>Inl\<close>), return NULL, or return a buffer
  of that size with arbitrary contents.
\<close>

type_synonym alloc_fun = "allocator \<Rightarrow> nat \<Rightarrow> string option pg"

section \<open>Operations\<close>

text \<open>
  \<open>allocate_list\<close>: the \<open>switch\<close> on \<open>allocate\<close> (0, 1 and 2 are the members of
  \<open>enum kv_pair_alloc\<close>), with the fall-through of \<open>kv_pair_guc_malloc\<close> before
  PostgreSQL 16.
\<close>

definition allocate_list :: "nat \<Rightarrow> alloc_fun \<Rightarrow> nat \<Rightarrow> int \<Rightarrow> string pg" where
  "allocate_list pg_version_num alloc sz allocate =
     rbind
       (if allocate = 0 then alloc (if pg_version_num \<ge> 160000 then GucMalloc else Malloc) sz
        else if allocate = 1 then alloc Malloc sz
        else if allocate = 2 then alloc Palloc sz
        else Inl (Ereport ERRCODE_FDW_ERROR ''unknown kv_pair_alloc'' []))
       (\<lambda>pairs. case pairs of
            None \<Rightarrow> Inl (Ereport ERRCODE_FDW_OUT_OF_MEMORY ''out of memory'' [])
          | Some buf \<Rightarrow> Inr buf)"

abbreviation strVal :: "DefElem \<Rightarrow> string" where
  "strVal e \<equiv> the (arg e)"

text \<open>The first loop of \<open>new_kv_list_from_pg_list\<close>: the space the pairs take.\<close>

definition kv_size :: "DefElem list \<Rightarrow> nat" where
  "kv_size l = foldl (\<lambda>n e. n + (2 + length (defname e) + length (strVal e))) 0 l"

text \<open>The second loop: copy each name and value with its terminator, \<open>ck_size\<close> bytes so far.\<close>

fun kv_fill :: "string \<Rightarrow> nat \<Rightarrow> DefElem list \<Rightarrow> (string \<times> nat) option" where
  "kv_fill buf ck_size [] = Some (buf, ck_size)"
| "kv_fill buf ck_size (e # es) =
     (case memcpy_at buf ck_size (defname e @ [NUL]) of
        None \<Rightarrow> None
      | Some buf1 \<Rightarrow>
          (let ck1 = ck_size + (length (defname e) + 1)
           in case memcpy_at buf1 ck1 (strVal e @ [NUL]) of
                None \<Rightarrow> None
              | Some buf2 \<Rightarrow> kv_fill buf2 (ck1 + (length (strVal e) + 1)) es))"

text \<open>
  \<open>new_kv_list_from_pg_list\<close>. The outer \<open>option\<close> is \<open>None\<close> for a write outside the
  allocation or a failed \<open>Assert(kv_size == ck_size)\<close>. Like the C code it takes
  \<open>strVal\<close> of every element, so callers pass elements whose argument is set.
\<close>

definition new_kv_list_from_pg_list ::
    "nat \<Rightarrow> alloc_fun \<Rightarrow> DefElem list \<Rightarrow> int \<Rightarrow> kv_list option pg" where
  "new_kv_list_from_pg_list pg_version_num alloc l allocate =
     rbind (allocate_list pg_version_num alloc (kv_size l) allocate)
       (\<lambda>buf. Inr (case kv_fill buf 0 l of
            None \<Rightarrow> None
          | Some (buf', ck_size) \<Rightarrow>
              if kv_size l = ck_size then Some \<lparr>kv_len = length l, kv_data = buf'\<rparr> else None))"

definition new_kv_iter :: "kv_list option \<Rightarrow> kv_iter" where
  "new_kv_iter ns = (case ns of
       None \<Rightarrow> \<lparr>it_togo = 0, it_next = None, it_name = None, it_value = None\<rparr>
     | Some l \<Rightarrow> \<lparr>it_togo = kv_len l, it_next = Some 0, it_name = None, it_value = None\<rparr>)"

text \<open>
  \<open>kv_iter_next\<close>: the returned Boolean and the updated iterator; \<open>None\<close> when one of
  the two \<open>strlen\<close> calls would read outside \<open>data\<close> (or through NULL).
\<close>

definition kv_iter_next :: "string \<Rightarrow> kv_iter \<Rightarrow> (bool \<times> kv_iter) option" where
  "kv_iter_next buf it =
     (if it_togo it = 0 then Some (False, it)
      else case it_next it of
        None \<Rightarrow> None
      | Some nm \<Rightarrow>
          (case cstr_at buf nm of
             None \<Rightarrow> None
           | Some nstr \<Rightarrow>
               (let vl = nm + length nstr + 1
                in case cstr_at buf vl of
                     None \<Rightarrow> None
                   | Some vstr \<Rightarrow>
                       Some (True, it\<lparr>it_togo := it_togo it - 1, it_name := Some nm, it_value := Some vl,
                                      it_next := Some (vl + length vstr + 1)\<rparr>))))"

text \<open>
  The loop every client writes, \<open>while (kv_iter_next(&it)) use(it.name, it.value)\<close>:
  the pairs it sees, read through the iterator's pointers.
\<close>

function kv_iterate :: "string \<Rightarrow> kv_iter \<Rightarrow> (string \<times> string) list option" where
  "kv_iterate buf it =
     (case kv_iter_next buf it of
        None \<Rightarrow> None
      | Some (got, it') \<Rightarrow>
          if \<not> got then Some []
          else (case (it_name it', it_value it') of
                  (Some n, Some v) \<Rightarrow>
                    (case (cstr_at buf n, cstr_at buf v) of
                       (Some nstr, Some vstr) \<Rightarrow> map_option ((#) (nstr, vstr)) (kv_iterate buf it')
                     | _ \<Rightarrow> None)
                | _ \<Rightarrow> None))"
  by pat_completeness auto
termination
  by (relation "measure (\<lambda>(buf, it). it_togo it)")
     (auto simp: kv_iter_next_def Let_def split: if_splits option.splits)

declare kv_iterate.simps [simp del]

definition kv_pairs :: "kv_list option \<Rightarrow> (string \<times> string) list option" where
  "kv_pairs ns = kv_iterate (case ns of None \<Rightarrow> [] | Some l \<Rightarrow> kv_data l) (new_kv_iter ns)"

section \<open>The packed layout\<close>

definition pack_pair :: "string \<times> string \<Rightarrow> string" where
  "pack_pair p = fst p @ [NUL] @ snd p @ [NUL]"

definition defelem_pair :: "DefElem \<Rightarrow> string \<times> string" where
  "defelem_pair e = (defname e, strVal e)"

text \<open>A C string holds no NUL: what every name and value the code is given satisfies.\<close>

definition cstring :: "string \<Rightarrow> bool" where
  "cstring s \<longleftrightarrow> NUL \<notin> set s"

definition cpair :: "string \<times> string \<Rightarrow> bool" where
  "cpair p \<longleftrightarrow> cstring (fst p) \<and> cstring (snd p)"

lemma defelem_pair_sel [simp]:
  "fst (defelem_pair e) = defname e"
  "snd (defelem_pair e) = strVal e"
  by (simp_all add: defelem_pair_def)

definition packed :: "(string \<times> string) list \<Rightarrow> string" where
  "packed ps = concat (map pack_pair ps)"

lemma packed_simps [simp]:
  "packed [] = []"
  "packed (p # ps) = fst p @ NUL # snd p @ NUL # packed ps"
  by (simp_all add: packed_def pack_pair_def)

lemma kv_size_pack: "kv_size l = length (packed (map defelem_pair l))"
proof -
  have "foldl (\<lambda>n e. n + (2 + length (defname e) + length (strVal e))) k l
      = k + length (packed (map defelem_pair l))" for k
    by (induction l arbitrary: k) simp_all
  then show ?thesis by (simp add: kv_size_def)
qed

lemma kv_fill_pack:
  assumes "length rest = length (packed (map defelem_pair l))"
  shows "kv_fill (pre @ rest) (length pre) l
    = Some (pre @ packed (map defelem_pair l), length pre + length rest)"
  using assms
proof (induction l arbitrary: pre rest)
  case Nil
  then show ?case by simp
next
  case (Cons e es)
  let ?n = "defname e @ [NUL]" and ?v = "strVal e @ [NUL]"
  let ?r1 = "drop (length ?n) rest"
  let ?r2 = "drop (length ?v) ?r1"
  have len: "length rest = length ?n + length ?v + length (packed (map defelem_pair es))"
    using Cons.prems by simp
  have m1: "memcpy_at (pre @ rest) (length pre) ?n = Some (pre @ ?n @ ?r1)"
    using len by (intro memcpy_at_append) auto
  have m2: "memcpy_at (pre @ ?n @ ?r1) (length pre + (length (defname e) + 1)) ?v
      = Some (pre @ ?n @ ?v @ ?r2)"
    using len memcpy_at_append [of "length pre + (length (defname e) + 1)" "pre @ ?n" ?v ?r1]
    by simp
  have "kv_fill ((pre @ ?n @ ?v) @ ?r2) (length (pre @ ?n @ ?v)) es
      = Some ((pre @ ?n @ ?v) @ packed (map defelem_pair es), length (pre @ ?n @ ?v) + length ?r2)"
    using len by (intro Cons.IH) simp
  then have "kv_fill (pre @ ?n @ ?v @ ?r2)
        (length pre + (length (defname e) + 1) + (length (strVal e) + 1)) es
      = Some (pre @ ?n @ ?v @ packed (map defelem_pair es), length pre + length rest)"
    using len by (simp add: add.assoc)
  with m1 m2 show ?case
    by (simp add: Let_def)
qed

lemma kv_iterate_pack:
  assumes "\<forall>p \<in> set ps. cpair p"
  shows "kv_iterate (pre @ packed ps)
     \<lparr>it_togo = length ps, it_next = Some (length pre), it_name = nm, it_value = vl\<rparr> = Some ps"
  using assms
proof (induction ps arbitrary: pre nm vl)
  case Nil
  then show ?case by (subst kv_iterate.simps) (simp add: kv_iter_next_def)
next
  case (Cons p ps)
  obtain n v where p: "p = (n, v)" by (cases p)
  have nv: "NUL \<notin> set n" "NUL \<notin> set v"
    using Cons.prems p by (auto simp: cpair_def cstring_def)
  have cn: "cstr_at (pre @ n @ NUL # v @ NUL # packed ps) (length pre) = Some n"
    by (rule cstr_at_append [OF nv(1)]) simp
  have cv: "cstr_at (pre @ n @ NUL # v @ NUL # packed ps) (Suc (length pre + length n)) = Some v"
    using cstr_at_append [OF nv(2), of "Suc (length pre + length n)" "pre @ n @ [NUL]" "packed ps"]
    by simp
  have "kv_iterate ((pre @ n @ NUL # v @ [NUL]) @ packed ps)
     \<lparr>it_togo = length ps, it_next = Some (length (pre @ n @ NUL # v @ [NUL])),
      it_name = Some (length pre), it_value = Some (Suc (length pre + length n))\<rparr> = Some ps"
    using Cons.prems by (intro Cons.IH) simp
  with cn cv show ?case
    by (subst kv_iterate.simps) (simp add: kv_iter_next_def p add.assoc)
qed

section \<open>The list as an interface\<close>

text \<open>
  What the clients of a packed list rely on: building it from a list of pairs and
  iterating over it gives those pairs back, in order, and iterating over no list
  gives none.
\<close>

locale pair_store =
  fixes build :: "(string \<times> string) list \<Rightarrow> 'l option"
    and iterate :: "'l option \<Rightarrow> (string \<times> string) list option"
  assumes iterate_none: "iterate None = Some []"
    and iterate_build: "(\<forall>p \<in> set ps. cpair p) \<Longrightarrow> iterate (build ps) = Some ps"
begin

lemma build_inj:
  assumes "\<forall>p \<in> set ps. cpair p" and "\<forall>p \<in> set qs. cpair p" and "build ps = build qs"
  shows "ps = qs"
  using iterate_build [OF assms(1)] iterate_build [OF assms(2)] assms(3) by (metis option.inject)

lemma iterate_build_lookup:
  assumes "\<forall>p \<in> set ps. cpair p"
  shows "map_option (\<lambda>l. map_of l k) (iterate (build ps)) = Some (map_of ps k)"
  using iterate_build [OF assms] by simp

end

text \<open>The store built without allocation failure: the packed bytes themselves.\<close>

definition kv_pack :: "(string \<times> string) list \<Rightarrow> kv_list" where
  "kv_pack ps = \<lparr>kv_len = length ps, kv_data = packed ps\<rparr>"

interpretation kv: pair_store "\<lambda>ps. Some (kv_pack ps)" kv_pairs
proof (unfold_locales, goal_cases)
  case 1
  show ?case
    by (simp add: kv_pairs_def new_kv_iter_def kv_iterate.simps kv_iter_next_def)
next
  case (2 ps)
  then show ?case
    using kv_iterate_pack [of ps "[]"]
    by (simp add: kv_pairs_def new_kv_iter_def kv_pack_def)
qed

lemma new_kv_list_packs:
  assumes "allocate_list pgv alloc (kv_size l) allocate = Inr buf" and "length buf = kv_size l"
  shows "new_kv_list_from_pg_list pgv alloc l allocate
    = Inr (Some (kv_pack (map defelem_pair l)))"
proof -
  have "length buf = length (packed (map defelem_pair l))"
    using assms(2) by (simp add: kv_size_pack)
  from kv_fill_pack [OF this, of "[]"] assms show ?thesis
    by (simp add: new_kv_list_from_pg_list_def kv_pack_def)
qed

section \<open>Properties\<close>

text \<open>
  C21: Round trip and memory safety of the packed list. When the allocator returns a
  buffer of the size asked for, \<open>new_kv_list_from_pg_list\<close> writes only inside it, its
  two size computations agree, and iterating over the result reads only inside it and
  returns every name and value, in order.
\<close>

theorem kv_list_roundtrip:
  assumes "allocate_list pgv alloc (kv_size l) allocate = Inr buf" and "length buf = kv_size l"
    and "\<forall>e \<in> set l. cpair (defelem_pair e)"
  shows "\<exists>kv. new_kv_list_from_pg_list pgv alloc l allocate = Inr (Some kv)
     \<and> kv_len kv = length l
     \<and> kv_pairs (Some kv) = Some (map (\<lambda>e. (defname e, strVal e)) l)"
proof -
  have "kv_pairs (Some (kv_pack (map defelem_pair l))) = Some (map defelem_pair l)"
    using assms(3) by (intro kv.iterate_build) simp
  with new_kv_list_packs [OF assms(1,2)] show ?thesis
    by (simp add: kv_pack_def defelem_pair_def)
qed

definition zero_alloc :: alloc_fun where
  "zero_alloc a n = Inr (Some (replicate n NUL))"

lemma kv_list_roundtrip_witness:
  "\<exists>kv. new_kv_list_from_pg_list 160000 zero_alloc
         [\<lparr>defname = ''final'', arg = Some ''1''\<rparr>, \<lparr>defname = ''x'', arg = Some ''''\<rparr>] 2 = Inr (Some kv)
     \<and> kv_len kv = 2 \<and> kv_pairs (Some kv) = Some [(''final'', ''1''), (''x'', '''')]"
  using kv_list_roundtrip
    [of 160000 zero_alloc "[\<lparr>defname = ''final'', arg = Some ''1''\<rparr>, \<lparr>defname = ''x'', arg = Some ''''\<rparr>]" 2
        "[NUL, NUL, NUL, NUL, NUL, NUL, NUL, NUL, NUL, NUL, NUL]"]
  by (simp add: allocate_list_def zero_alloc_def kv_size_def cpair_def cstring_def
      numeral_2_eq_2)

end
