(* ===== verification/Endpoint.thy ===== *)
theory Endpoint
  imports Prelude
begin

text \<open>
  Connection details (\<open>src/include/engine.h\<close>), the server version type
  (\<open>src/include/server_version.h\<close>) and the choice of port and TLS mode for a server
  (\<open>src/endpoint.c\<close>).
\<close>

section \<open>Data\<close>

datatype tls_mode = CH_TLS_AUTO | CH_TLS_ON | CH_TLS_OFF

datatype tls_version = CH_TLS_DEFAULT | CH_TLS_V1_0 | CH_TLS_V1_1 | CH_TLS_V1_2 | CH_TLS_V1_3

text \<open>
  \<open>ch_connection_details\<close>; the encoding check is an enumeration of the decoder
  library, hence a type parameter.
\<close>

record 'enc ch_connection_details =
  driver :: string
  host :: "string option"
  port :: int
  username :: "string option"
  password :: "string option"
  dbname :: "string option"
  compression :: "string option"
  tls :: tls_mode
  min_tls_version :: tls_version
  encoding_check :: 'enc

datatype ch_port_set = CH_PORTS_HTTP | CH_PORTS_NATIVE

record ch_server_version =
  major :: int
  minor :: int
  patch :: int

definition chfdw_version_ge :: "ch_server_version \<Rightarrow> int \<Rightarrow> int \<Rightarrow> bool" where
  "chfdw_version_ge v maj mnr \<longleftrightarrow> major v > maj \<or> (major v = maj \<and> minor v \<ge> mnr)"

section \<open>Operations\<close>

abbreviation CH_HTTP_PORT :: int where "CH_HTTP_PORT \<equiv> 8123"
abbreviation CH_HTTP_TLS_PORT :: int where "CH_HTTP_TLS_PORT \<equiv> 8443"
abbreviation CH_HTTPS_PORT :: int where "CH_HTTPS_PORT \<equiv> 443"
abbreviation CH_NATIVE_PORT :: int where "CH_NATIVE_PORT \<equiv> 9000"
abbreviation CH_NATIVE_TLS_PORT :: int where "CH_NATIVE_TLS_PORT \<equiv> 9440"

definition ends_with :: "string \<Rightarrow> string \<Rightarrow> bool" where
  "ends_with s suffix \<longleftrightarrow>
     length suffix \<le> length s \<and> drop (length s - length suffix) s = suffix"

definition ch_is_cloud_host :: "string option \<Rightarrow> bool" where
  "ch_is_cloud_host h = (case h of
       None \<Rightarrow> False
     | Some h \<Rightarrow> ends_with h ''.clickhouse.cloud'' \<or> ends_with h ''.clickhouse-staging.com''
                \<or> ends_with h ''.clickhouse-dev.com'')"

text \<open>\<open>ch_resolve_endpoint\<close>: the pair \<open>(*out_port, *out_tls)\<close>.\<close>

definition ch_resolve_endpoint :: "'enc ch_connection_details \<Rightarrow> ch_port_set \<Rightarrow> int \<times> bool" where
  "ch_resolve_endpoint details ports =
     (let http = (ports = CH_PORTS_HTTP);
          plain = (if http then CH_HTTP_PORT else CH_NATIVE_PORT);
          secure = (if http then CH_HTTP_TLS_PORT else CH_NATIVE_TLS_PORT);
          p = port details
      in case tls details of
           CH_TLS_ON \<Rightarrow> (if p \<noteq> 0 then p else secure, True)
         | CH_TLS_OFF \<Rightarrow> (if p \<noteq> 0 then p else plain, False)
         | CH_TLS_AUTO \<Rightarrow>
             (let p' = (if p = 0 then (if ch_is_cloud_host (host details) then secure else plain) else p)
              in (p', p' = secure \<or> (http \<and> p' = CH_HTTPS_PORT))))"

section \<open>Lemmas\<close>

lemma ends_with_iff: "ends_with s suf \<longleftrightarrow> (\<exists>pre. s = pre @ suf)"
proof
  assume "ends_with s suf"
  then have "s = take (length s - length suf) s @ suf"
    by (metis append_take_drop_id ends_with_def)
  then show "\<exists>pre. s = pre @ suf" by blast
next
  assume "\<exists>pre. s = pre @ suf"
  then show "ends_with s suf" by (auto simp: ends_with_def)
qed

lemma chfdw_version_ge_mono:
  "chfdw_version_ge v maj mnr \<Longrightarrow> maj' < maj \<or> maj' = maj \<and> mnr' \<le> mnr \<Longrightarrow> chfdw_version_ge v maj' mnr'"
  by (auto simp: chfdw_version_ge_def)

lemmas endpoint_unfold = ch_resolve_endpoint_def Let_def

section \<open>Properties\<close>

text \<open>
  Endpoint resolution. An explicit \<open>secure\<close> option always decides TLS; without one,
  a ClickHouse Cloud host (any host that ends in one of the three cloud suffixes) with no
  port option is reached over TLS on the protocol family's TLS port, and any other host
  with no port in plaintext on the family's plain port; a port option is never changed.
\<close>

theorem resolve_endpoint_policy:
  fixes details :: "'enc ch_connection_details"
  assumes "ch_resolve_endpoint details ports = (p, t)"
  shows "(tls details = CH_TLS_ON \<longrightarrow> t) \<and> (tls details = CH_TLS_OFF \<longrightarrow> \<not> t)
    \<and> (port details \<noteq> 0 \<longrightarrow> p = port details)
    \<and> (tls details = CH_TLS_AUTO \<and> port details = 0 \<longrightarrow>
         (if \<exists>pre suf. host details = Some (pre @ suf)
               \<and> suf \<in> {''.clickhouse.cloud'', ''.clickhouse-staging.com'', ''.clickhouse-dev.com''}
          then t \<and> p = (if ports = CH_PORTS_HTTP then 8443 else 9440)
          else \<not> t \<and> p = (if ports = CH_PORTS_HTTP then 8123 else 9000)))"
proof -
  have cloud: "ch_is_cloud_host h \<longleftrightarrow> (\<exists>pre suf. h = Some (pre @ suf)
      \<and> suf \<in> {''.clickhouse.cloud'', ''.clickhouse-staging.com'', ''.clickhouse-dev.com''})" for h
    by (cases h) (auto simp: ch_is_cloud_host_def ends_with_iff)
  show ?thesis
    using assms unfolding cloud [symmetric]
    by (cases "tls details"; cases ports) (auto simp: endpoint_unfold)
qed

definition cloud_details :: "unit ch_connection_details" where
  "cloud_details = \<lparr>driver = ''http'', host = Some ''a.clickhouse.cloud'', port = 0, username = None,
     password = None, dbname = None, compression = None, tls = CH_TLS_AUTO,
     min_tls_version = CH_TLS_DEFAULT, encoding_check = ()\<rparr>"

lemma resolve_endpoint_policy_witness:
  "\<exists>p t. ch_resolve_endpoint cloud_details CH_PORTS_HTTP = (p, t) \<and> t \<and> p = 8443"
proof -
  obtain p t where e: "ch_resolve_endpoint cloud_details CH_PORTS_HTTP = (p, t)" by (cases "ch_resolve_endpoint cloud_details CH_PORTS_HTTP")
  have "host cloud_details = Some (''a'' @ ''.clickhouse.cloud'')" by (simp add: cloud_details_def)
  then have c: "\<exists>pre suf. host cloud_details = Some (pre @ suf)
      \<and> suf \<in> {''.clickhouse.cloud'', ''.clickhouse-staging.com'', ''.clickhouse-dev.com''}" by blast
  have "tls cloud_details = CH_TLS_AUTO \<and> port cloud_details = 0" by (simp add: cloud_details_def)
  with resolve_endpoint_policy [OF e] c have "t \<and> p = 8443" by simp
  with e show ?thesis by blast
qed

end
