(* ===== verification/Options.thy ===== *)
theory Options
  imports KvList Endpoint
begin

text \<open>
  FDW options and the settings parser of \<open>src/option.c\<close>: the table of valid options
  and the validator, the extraction of connection details, \<open>chfdw_parse_options\<close>, and
  the check and assign hooks of the \<open>pg_clickhouse.session_settings\<close> parameter.
  Parsing \<open>encoding_check\<close> values belongs to the decoder library and is the parameter
  \<open>parse_enc\<close>: the value a string names, or \<open>None\<close> for a string it rejects (the
  caller's variable then keeps its value).
\<close>

section \<open>The option table\<close>

text \<open>The catalogs an option may appear in.\<close>

datatype catalog =
    ForeignTableRelationId
  | ForeignServerRelationId
  | UserMappingRelationId
  | AttributeRelationId
  | ForeignDataWrapperRelationId
  | InvalidRelationId

record ChFdwOption =
  keyword :: string
  optcontext :: catalog
  is_ch_opt :: bool
  dispchar :: string

definition ch_options :: "ChFdwOption list" where
  "ch_options = map (\<lambda>k. \<lparr>keyword = k, optcontext = InvalidRelationId, is_ch_opt = False, dispchar = ''''\<rparr>)
     [''host'', ''secure'', ''min_tls_version'', ''port'', ''dbname'', ''user'', ''password'', ''compression'']"

definition non_ch_options :: "ChFdwOption list" where
  "non_ch_options = map (\<lambda>(k, c, b). \<lparr>keyword = k, optcontext = c, is_ch_opt = b, dispchar = ''''\<rparr>)
     [(''database'', ForeignTableRelationId, False),
      (''table_name'', ForeignTableRelationId, False),
      (''engine'', ForeignTableRelationId, False),
      (''driver'', ForeignServerRelationId, False),
      (''encoding_check'', ForeignServerRelationId, True),
      (''settings'', ForeignServerRelationId, False),
      (''settings'', ForeignTableRelationId, False),
      (''aggregatefunction'', AttributeRelationId, False),
      (''simpleaggregatefunction'', AttributeRelationId, False),
      (''column_name'', AttributeRelationId, False)]"

text \<open>
  The table \<open>InitChFdwOptions\<close> fills in: the client options with their catalog, then the
  other options. The assignment after the \<open>memcpy\<close> sets \<open>is_ch_opt\<close> of the first of
  them.
\<close>

definition fdw_options_table :: "ChFdwOption list" where
  "fdw_options_table =
     map (\<lambda>lopt. lopt\<lparr>
            optcontext := (if keyword lopt = ''user'' \<or> keyword lopt = ''password''
                              \<or> CHR ''*'' \<in> set (dispchar lopt)
                           then UserMappingRelationId else ForeignServerRelationId),
            is_ch_opt := True\<rparr>) ch_options
     @ non_ch_options[0 := (non_ch_options ! 0)\<lparr>is_ch_opt := True\<rparr>]"

text \<open>
  \<open>InitChFdwOptions\<close> on the static \<open>clickhouse_fdw_options\<close>: nothing once it is set,
  an error when \<open>malloc\<close> fails.
\<close>

definition InitChFdwOptions :: "bool \<Rightarrow> ChFdwOption list option \<Rightarrow> ChFdwOption list pg" where
  "InitChFdwOptions malloc_ok st = (case st of
       Some tbl \<Rightarrow> Inr tbl
     | None \<Rightarrow> if malloc_ok then Inr fdw_options_table
               else Inl (Ereport ERRCODE_FDW_OUT_OF_MEMORY ''out of memory'' []))"

definition is_valid_option :: "ChFdwOption list \<Rightarrow> string \<Rightarrow> catalog \<Rightarrow> bool" where
  "is_valid_option tbl kw ctxt \<longleftrightarrow> list_ex (\<lambda>opt. ctxt = optcontext opt \<and> keyword opt = kw) tbl"

definition is_ch_option :: "ChFdwOption list \<Rightarrow> string \<Rightarrow> bool" where
  "is_ch_option tbl kw \<longleftrightarrow> list_ex (\<lambda>opt. is_ch_opt opt \<and> keyword opt = kw) tbl"

definition parse_min_tls_version :: "string \<Rightarrow> tls_version option" where
  "parse_min_tls_version val =
     (if strcaseeq val ''TLSv1'' then Some CH_TLS_V1_0
      else if strcaseeq val ''TLSv1.1'' then Some CH_TLS_V1_1
      else if strcaseeq val ''TLSv1.2'' then Some CH_TLS_V1_2
      else if strcaseeq val ''TLSv1.3'' then Some CH_TLS_V1_3
      else None)"

section \<open>The settings parser\<close>

definition missing_comma :: "string \<Rightarrow> pg_error" where
  "missing_comma pname = Ereport ERRCODE_SYNTAX_ERROR
     (''pg_clickhouse: missing comma after \"'' @ pname @ ''\" value in options string'') []"

definition missing_value :: "string \<Rightarrow> pg_error" where
  "missing_value pname = Ereport ERRCODE_SYNTAX_ERROR
     (''pg_clickhouse: missing value for parameter \"'' @ pname @ ''\" in options string'') []"

definition unterminated_quote :: pg_error where
  "unterminated_quote = Ereport ERRCODE_SYNTAX_ERROR
     ''pg_clickhouse: unterminated quoted string in options string'' []"

text \<open>
  The loop over an unquoted value: the value read so far and the unread input. The
  copy back to \<open>cp2\<close> never passes \<open>cp\<close>, so the buffer behaves like these two strings.
\<close>

fun unquoted_value :: "string \<Rightarrow> string \<Rightarrow> string \<Rightarrow> (string \<times> string) pg" where
  "unquoted_value pname acc [] = Inr (acc, [])"
| "unquoted_value pname acc (c # cs) =
     (if isspace c then
        (let r = dropWhile isspace (c # cs)
         in if r \<noteq> [] \<and> hd r \<noteq> CHR '','' then Inl (missing_comma pname) else Inr (acc, r))
      else if c = CHR '','' then Inr (acc, cs)
      else if c = BSLASH then
        (case cs of [] \<Rightarrow> Inr (acc, []) | d # ds \<Rightarrow> unquoted_value pname (acc @ [d]) ds)
      else unquoted_value pname (acc @ [c]) cs)"

text \<open>The loop over a quoted value, from the character after the opening quote.\<close>

fun quoted_value :: "string \<Rightarrow> string \<Rightarrow> (string \<times> string) pg" where
  "quoted_value acc [] = Inl unterminated_quote"
| "quoted_value acc (c # cs) =
     (if c = BSLASH then
        (case cs of [] \<Rightarrow> Inl unterminated_quote | d # ds \<Rightarrow> quoted_value (acc @ [d]) ds)
      else if c = SQUOTE then Inr (acc, cs)
      else quoted_value (acc @ [c]) cs)"

definition parse_option_value :: "string \<Rightarrow> string \<Rightarrow> (string \<times> string) pg" where
  "parse_option_value pname cp =
     (if cp \<noteq> [] \<and> hd cp = SQUOTE then
        rbind (quoted_value [] (tl cp))
          (\<lambda>(v, r). let r' = dropWhile isspace r
                    in if r' \<noteq> [] \<and> hd r' = CHR '','' then Inr (v, tl r')
                       else if r' \<noteq> [] then Inl (missing_comma pname)
                       else Inr (v, r'))
      else
        rbind (unquoted_value pname [] cp)
          (\<lambda>(v, r). if v = [] then Inl (missing_value pname) else Inr (v, r)))"

lemma length_dropWhile_lt: "length ys < n \<Longrightarrow> length (dropWhile P ys) < n"
  using length_dropWhile_le [of P ys] by linarith

lemma unquoted_value_length:
  "unquoted_value pname acc cs = Inr (v, r) \<Longrightarrow> length r \<le> length cs"
proof (induction pname acc cs rule: unquoted_value.induct)
  case (2 pname acc c cs)
  then show ?case
    by (auto simp: Let_def split: if_splits list.splits
          intro: le_SucI length_dropWhile_le order_trans [OF length_dropWhile_le])
qed simp

lemma quoted_value_length:
  "quoted_value acc cs = Inr (v, r) \<Longrightarrow> length r \<le> length cs"
  by (induction acc cs rule: quoted_value.induct) (auto split: if_splits list.splits)

lemma parse_option_value_length:
  assumes "parse_option_value pname cp = Inr (v, r)"
  shows "length r \<le> length cp"
proof (cases "cp \<noteq> [] \<and> hd cp = SQUOTE")
  case True
  with assms obtain r0 where q: "quoted_value [] (tl cp) = Inr (v, r0)"
      and r: "r = dropWhile isspace r0 \<or> r = tl (dropWhile isspace r0)"
    by (auto simp: parse_option_value_def rbind_Inr_iff Let_def split: if_splits)
  have "length r \<le> length r0"
    using r length_dropWhile_le [of isspace r0] by auto
  with quoted_value_length [OF q] show ?thesis by simp
next
  case False
  with assms show ?thesis
    by (auto simp: parse_option_value_def rbind_Inr_iff split: if_splits dest: unquoted_value_length)
qed

text \<open>
  \<open>chfdw_parse_options\<close>: skip blanks; a name up to the next blank; skip blanks; a value.
\<close>

function chfdw_parse_options :: "string \<Rightarrow> DefElem list pg" where
  "chfdw_parse_options cp =
     (if cp = [] then Inr []
      else if isspace (hd cp) then chfdw_parse_options (tl cp)
      else (let pname = takeWhile (\<lambda>c. \<not> isspace c) cp;
                rest = dropWhile isspace (dropWhile (\<lambda>c. \<not> isspace c) cp)
            in rbind (parse_option_value pname rest)
                 (\<lambda>(v, r). rbind (chfdw_parse_options r)
                    (\<lambda>l. Inr (\<lparr>defname = pname, arg = Some v\<rparr> # l)))))"
  by pat_completeness auto
termination
proof (relation "measure length", goal_cases)
  case (3 cp pname rest x v r)
  have "length (dropWhile (\<lambda>c. \<not> isspace c) cp) < length cp"
    using 3(1,2) length_dropWhile_le [of "\<lambda>c. \<not> isspace c" "tl cp"]
    by (cases cp) (auto intro: le_imp_less_Suc)
  then have "length rest < length cp"
    unfolding 3(4) by (rule length_dropWhile_lt)
  with 3 show ?case
    using parse_option_value_length [of pname rest v r] by simp
qed simp_all

declare chfdw_parse_options.simps [simp del]

section \<open>The validator\<close>

definition secure_values :: "string list" where
  "secure_values = [''on'', ''true'', ''yes'', ''1'', ''off'', ''false'', ''no'', ''0'', ''auto'']"

text \<open>The names of the valid options, joined with commas, for the hint.\<close>

fun join_comma :: "string list \<Rightarrow> string" where
  "join_comma [] = []"
| "join_comma [x] = x"
| "join_comma (x # y # zs) = x @ '', '' @ join_comma (y # zs)"

definition option_hint :: "ChFdwOption list \<Rightarrow> catalog \<Rightarrow> string" where
  "option_hint tbl cat = ''Valid options in this context are: ''
     @ join_comma (map keyword (filter (\<lambda>opt. cat = optcontext opt) tbl))"

definition invalid_value :: "string \<Rightarrow> string \<Rightarrow> string \<Rightarrow> pg_error" where
  "invalid_value opt val hint = Ereport ERRCODE_FDW_INVALID_STRING_FORMAT
     (''invalid value for option \"'' @ opt @ ''\": \"'' @ val @ ''\"'') [hint]"

text \<open>One round of the validator's loop.\<close>

definition validate_option ::
    "(string \<Rightarrow> 'enc option) \<Rightarrow> ChFdwOption list \<Rightarrow> catalog \<Rightarrow> DefElem \<Rightarrow> unit pg" where
  "validate_option parse_enc tbl cat def =
     (if \<not> is_valid_option tbl (defname def) cat then
        Inl (Ereport ERRCODE_FDW_INVALID_OPTION_NAME
               (''invalid option \"'' @ defname def @ ''\"'') [option_hint tbl cat])
      else if defname def = ''secure'' \<and> strVal def \<notin> set secure_values then
        Inl (invalid_value ''secure'' (strVal def) ''Valid values are: on, off, auto.'')
      else if defname def = ''min_tls_version'' \<and> parse_min_tls_version (strVal def) = None then
        Inl (invalid_value ''min_tls_version'' (strVal def)
               ''Valid values are: TLSv1, TLSv1.1, TLSv1.2, TLSv1.3.'')
      else
        rbind (if defname def = ''settings'' then chfdw_parse_options (strVal def) else Inr [])
          (\<lambda>_. if defname def = ''encoding_check'' \<and> parse_enc (strVal def) = None then
                 Inl (invalid_value ''encoding_check'' (strVal def)
                        ''Valid values are: fail, truncate, remove, replace'')
               else Inr ()))"

fun validate_options ::
    "(string \<Rightarrow> 'enc option) \<Rightarrow> ChFdwOption list \<Rightarrow> catalog \<Rightarrow> DefElem list \<Rightarrow> unit pg" where
  "validate_options parse_enc tbl cat [] = Inr ()"
| "validate_options parse_enc tbl cat (d # ds) =
     rbind (validate_option parse_enc tbl cat d) (\<lambda>_. validate_options parse_enc tbl cat ds)"

definition clickhouse_fdw_validator ::
    "(string \<Rightarrow> 'enc option) \<Rightarrow> bool \<Rightarrow> ChFdwOption list option \<Rightarrow> catalog \<Rightarrow> DefElem list \<Rightarrow> unit pg" where
  "clickhouse_fdw_validator parse_enc malloc_ok st cat options_list =
     rbind (InitChFdwOptions malloc_ok st) (\<lambda>tbl. validate_options parse_enc tbl cat options_list)"

section \<open>Extraction\<close>

text \<open>The \<open>port\<close> option: \<open>strtol\<close> with the range and trailing-character tests.\<close>

definition extract_port :: "string \<Rightarrow> int \<Rightarrow> int" where
  "extract_port s old = (case strtol10 s of (val, endptr) \<Rightarrow>
     if val \<le> INT_MAX \<and> val > 0 \<and> endptr = [] then val else old)"

definition extract_tls :: "string \<Rightarrow> tls_mode \<Rightarrow> tls_mode" where
  "extract_tls val old =
     (if val = ''on'' \<or> val = ''true'' \<or> val = ''yes'' \<or> val = ''1'' then CH_TLS_ON
      else if val = ''off'' \<or> val = ''false'' \<or> val = ''no'' \<or> val = ''0'' then CH_TLS_OFF
      else old)"

text \<open>
  One round of \<open>chfdw_extract_options\<close>; \<open>want kw\<close> says that the caller passed an
  output pointer for the option \<open>kw\<close>.
\<close>

definition extract_option ::
    "(string \<Rightarrow> 'enc option) \<Rightarrow> ChFdwOption list \<Rightarrow> (string \<Rightarrow> bool) \<Rightarrow> DefElem
      \<Rightarrow> 'enc ch_connection_details \<Rightarrow> 'enc ch_connection_details" where
  "extract_option parse_enc tbl want def d =
     (let k = defname def; v = strVal def;
          d1 = (if want ''driver'' \<and> k = ''driver'' then d\<lparr>driver := v\<rparr>
                else if want ''encoding_check'' \<and> k = ''encoding_check'' then
                  (case parse_enc v of None \<Rightarrow> d | Some e \<Rightarrow> d\<lparr>encoding_check := e\<rparr>)
                else d)
      in if \<not> is_ch_option tbl k then d1
         else if want ''host'' \<and> k = ''host'' then d1\<lparr>host := Some v\<rparr>
         else if want ''port'' \<and> k = ''port'' then d1\<lparr>port := extract_port v (port d1)\<rparr>
         else if want ''user'' \<and> k = ''user'' then d1\<lparr>username := Some v\<rparr>
         else if want ''password'' \<and> k = ''password'' then d1\<lparr>password := Some v\<rparr>
         else if want ''compression'' \<and> k = ''compression'' then d1\<lparr>compression := Some v\<rparr>
         else if want ''dbname'' \<and> k = ''dbname'' then
           d1\<lparr>dbname := Some (if v = [] then ''default'' else v)\<rparr>
         else if want ''secure'' \<and> k = ''secure'' then d1\<lparr>tls := extract_tls v (tls d1)\<rparr>
         else if want ''min_tls_version'' \<and> k = ''min_tls_version'' then
           (case parse_min_tls_version v of None \<Rightarrow> d1 | Some m \<Rightarrow> d1\<lparr>min_tls_version := m\<rparr>)
         else d1)"

definition chfdw_extract_options ::
    "(string \<Rightarrow> 'enc option) \<Rightarrow> bool \<Rightarrow> ChFdwOption list option \<Rightarrow> (string \<Rightarrow> bool) \<Rightarrow> DefElem list
      \<Rightarrow> 'enc ch_connection_details \<Rightarrow> 'enc ch_connection_details pg" where
  "chfdw_extract_options parse_enc malloc_ok st want defelems d =
     rbind (InitChFdwOptions malloc_ok st)
       (\<lambda>tbl. Inr (foldl (\<lambda>d def. extract_option parse_enc tbl want def d) d defelems))"

section \<open>The session settings parameter\<close>

text \<open>The module's GUC variables.\<close>

record guc_state =
  ch_session_settings_list :: "kv_list option"
  ch_pushdown_regex :: bool
  ch_vector_planner_warnings :: bool
  ch_vector_metadata_ttl :: int

text \<open>
  \<open>chfdw_check_settings_guc\<close>: whether the value is accepted, and the \<open>extra\<close> it leaves
  for the assign hook. \<open>None\<close> inside is a write outside the allocation.
\<close>

definition chfdw_check_settings_guc ::
    "nat \<Rightarrow> alloc_fun \<Rightarrow> string option \<Rightarrow> (bool \<times> kv_list option) option pg" where
  "chfdw_check_settings_guc pgv alloc newval =
     (if newval = None \<or> newval = Some [] then Inr (Some (True, None))
      else rbind (chfdw_parse_options (the newval))
        (\<lambda>l. if l = [] then Inr (Some (False, None))
             else rbind (new_kv_list_from_pg_list pgv alloc l 0)
                    (\<lambda>settings. Inr (map_option (\<lambda>s. (True, Some s)) settings))))"

definition chfdw_settings_assign_hook :: "kv_list option \<Rightarrow> guc_state \<Rightarrow> guc_state" where
  "chfdw_settings_assign_hook extra g = g\<lparr>ch_session_settings_list := extra\<rparr>"


section \<open>The parser: what it returns\<close>

lemma unquoted_value_set:
  assumes "unquoted_value pname acc cs = Inr (v, r)"
  shows "x \<in> set v \<Longrightarrow> x \<in> set acc \<or> x \<in> set cs" and "x \<in> set r \<Longrightarrow> x \<in> set cs"
proof -
  have "(x \<in> set v \<longrightarrow> x \<in> set acc \<or> x \<in> set cs) \<and> (x \<in> set r \<longrightarrow> x \<in> set cs)"
    using assms
  proof (induction pname acc cs rule: unquoted_value.induct)
    case (1 pname acc)
    then show ?case by simp
  next
    case (2 pname acc c cs)
    consider "isspace c" | "c = CHR '',''" | "c = BSLASH" | "\<not> isspace c" "c \<noteq> CHR '',''" "c \<noteq> BSLASH"
      by blast
    then show ?case
    proof cases
      case 1
      with "2.prems" show ?thesis
        by (auto simp: Let_def split: if_splits dest: set_dropWhileD)
    next
      case 3
      with "2.IH"(1) "2.prems" show ?thesis by (cases cs) auto
    qed (use "2.IH"(2) "2.prems" in auto)
  qed
  then show "x \<in> set v \<Longrightarrow> x \<in> set acc \<or> x \<in> set cs" and "x \<in> set r \<Longrightarrow> x \<in> set cs"
    by blast+
qed

lemma quoted_value_set:
  assumes "quoted_value acc cs = Inr (v, r)"
  shows "x \<in> set v \<Longrightarrow> x \<in> set acc \<or> x \<in> set cs" and "x \<in> set r \<Longrightarrow> x \<in> set cs"
proof -
  have "(x \<in> set v \<longrightarrow> x \<in> set acc \<or> x \<in> set cs) \<and> (x \<in> set r \<longrightarrow> x \<in> set cs)"
    using assms
  proof (induction acc cs rule: quoted_value.induct)
    case (1 acc)
    then show ?case by simp
  next
    case (2 acc c cs)
    consider "c = BSLASH" | "c = SQUOTE" | "c \<noteq> BSLASH" "c \<noteq> SQUOTE" by blast
    then show ?case
    proof cases
      case 1
      with "2.IH"(1) "2.prems" show ?thesis by (cases cs) auto
    qed (use "2.IH"(2) "2.prems" in auto)
  qed
  then show "x \<in> set v \<Longrightarrow> x \<in> set acc \<or> x \<in> set cs" and "x \<in> set r \<Longrightarrow> x \<in> set cs"
    by blast+
qed

lemma parse_option_value_set:
  assumes "parse_option_value pname cp = Inr (v, r)"
  shows "set v \<subseteq> set cp \<and> set r \<subseteq> set cp"
proof (cases "cp \<noteq> [] \<and> hd cp = SQUOTE")
  case True
  with assms obtain r0 where q: "quoted_value [] (tl cp) = Inr (v, r0)"
      and r: "r = dropWhile isspace r0 \<or> r = tl (dropWhile isspace r0)"
    by (auto simp: parse_option_value_def rbind_Inr_iff Let_def split: if_splits)
  have "set r \<subseteq> set r0"
    using r by (metis list.sel(2) list.set_sel(2) set_dropWhileD subsetI)
  moreover have "set (tl cp) \<subseteq> set cp" using True by (cases cp) auto
  ultimately show ?thesis
    using quoted_value_set [OF q] by (metis empty_iff empty_set subset_iff)
next
  case False
  with assms have u: "unquoted_value pname [] cp = Inr (v, r)"
    by (auto simp: parse_option_value_def rbind_Inr_iff split: if_splits)
  show ?thesis
    using unquoted_value_set [OF u] by (metis empty_iff empty_set subsetI)
qed

text \<open>What a parsed option looks like: a name that is not empty and has no blank, and a value.\<close>

definition parsed_defelem :: "string \<Rightarrow> DefElem \<Rightarrow> bool" where
  "parsed_defelem s e \<longleftrightarrow> defname e \<noteq> [] \<and> (\<forall>c \<in> set (defname e). \<not> isspace c) \<and> arg e \<noteq> None
     \<and> set (defname e) \<subseteq> set s \<and> set (strVal e) \<subseteq> set s"

lemma parsed_defelem_mono: "parsed_defelem s e \<Longrightarrow> set s \<subseteq> set t \<Longrightarrow> parsed_defelem t e"
  by (auto simp: parsed_defelem_def)

lemma parse_options_wf:
  "chfdw_parse_options cp = Inr l \<Longrightarrow> e \<in> set l \<Longrightarrow> parsed_defelem cp e"
proof (induction cp arbitrary: l rule: chfdw_parse_options.induct)
  case (1 cp)
  consider "cp = []" | "cp \<noteq> []" "isspace (hd cp)" | "cp \<noteq> []" "\<not> isspace (hd cp)" by blast
  then show ?case
  proof cases
    case 1
    with "1.prems" show ?thesis by (simp add: chfdw_parse_options.simps)
  next
    case 2
    with "1.prems" "1.IH"(1) [OF 2, of l] have "parsed_defelem (tl cp) e"
      by (simp add: chfdw_parse_options.simps [of cp])
    then show ?thesis by (rule parsed_defelem_mono) (use 2 in \<open>cases cp; auto\<close>)
  next
    case 3
    define pname where "pname = takeWhile (\<lambda>c. \<not> isspace c) cp"
    define rest where "rest = dropWhile isspace (dropWhile (\<lambda>c. \<not> isspace c) cp)"
    from 3 "1.prems"(1) obtain v r l' where pv: "parse_option_value pname rest = Inr (v, r)"
        and rec: "chfdw_parse_options r = Inr l'" and l: "l = \<lparr>defname = pname, arg = Some v\<rparr> # l'"
      by (auto simp: chfdw_parse_options.simps [of cp] rbind_Inr_iff pname_def rest_def Let_def)
    have sub: "set rest \<subseteq> set cp" "set pname \<subseteq> set cp"
      by (auto simp: rest_def pname_def dest: set_dropWhileD set_takeWhileD)
    note pvs = parse_option_value_set [OF pv]
    show ?thesis
    proof (cases "e = \<lparr>defname = pname, arg = Some v\<rparr>")
      case True
      have "pname \<noteq> []" using 3 by (cases cp) (auto simp: pname_def)
      with True pvs sub show ?thesis
        by (auto simp: parsed_defelem_def pname_def dest: set_takeWhileD)
    next
      case False
      with l "1.prems"(2) have "e \<in> set l'" by simp
      then have "parsed_defelem r e"
        using "1.IH"(2) [OF 3 pname_def rest_def pv refl rec] by simp
      with pvs sub show ?thesis by (blast intro: parsed_defelem_mono)
    qed
  qed
qed

text \<open>The errors of the parser.\<close>

lemma unquoted_value_error: "unquoted_value pname acc cs = Inl err \<Longrightarrow> err = missing_comma pname"
proof (induction pname acc cs rule: unquoted_value.induct)
  case (2 pname acc c cs)
  consider "isspace c" | "\<not> isspace c" "c = CHR '',''" | "\<not> isspace c" "c \<noteq> CHR '',''" "c = BSLASH"
    | "\<not> isspace c" "c \<noteq> CHR '',''" "c \<noteq> BSLASH"
    by blast
  then show ?case
  proof cases
    case 1
    with "2.prems" show ?thesis by (simp add: Let_def split: if_split_asm)
  next
    case 2
    with "2.prems" show ?thesis by simp
  next
    case 3
    with "2.prems" "2.IH"(1) [OF 3] show ?thesis by (cases cs) simp_all
  next
    case 4
    with "2.prems" "2.IH"(2) [OF 4] show ?thesis by simp
  qed
qed simp

lemma quoted_value_error: "quoted_value acc cs = Inl err \<Longrightarrow> err = unterminated_quote"
  by (induction acc cs rule: quoted_value.induct) (auto split: if_splits list.splits)

lemma parse_option_value_error:
  "parse_option_value pname cp = Inl err \<Longrightarrow>
    err = unterminated_quote \<or> err = missing_comma pname \<or> err = missing_value pname"
  by (auto simp: parse_option_value_def rbind_Inl_iff Let_def split: if_splits
      dest: unquoted_value_error quoted_value_error)

lemma parse_options_errors:
  "chfdw_parse_options cp = Inl err \<Longrightarrow> err = unterminated_quote
     \<or> (\<exists>n. n \<noteq> [] \<and> (\<forall>c \<in> set n. \<not> isspace c) \<and> set n \<subseteq> set cp \<and> (err = missing_comma n \<or> err = missing_value n))"
proof (induction cp rule: chfdw_parse_options.induct)
  case (1 cp)
  consider "cp = []" | "cp \<noteq> []" "isspace (hd cp)" | "cp \<noteq> []" "\<not> isspace (hd cp)" by blast
  then show ?case
  proof cases
    case 1
    with "1.prems" show ?thesis by (simp add: chfdw_parse_options.simps)
  next
    case 2
    with "1.prems" "1.IH"(1) [OF 2] have "err = unterminated_quote
        \<or> (\<exists>n. n \<noteq> [] \<and> (\<forall>c \<in> set n. \<not> isspace c) \<and> set n \<subseteq> set (tl cp) \<and> (err = missing_comma n \<or> err = missing_value n))"
      by (simp add: chfdw_parse_options.simps [of cp])
    moreover have "set (tl cp) \<subseteq> set cp" using 2 by (cases cp) auto
    ultimately show ?thesis by blast
  next
    case 3
    define pname where "pname = takeWhile (\<lambda>c. \<not> isspace c) cp"
    define rest where "rest = dropWhile isspace (dropWhile (\<lambda>c. \<not> isspace c) cp)"
    have sub: "set rest \<subseteq> set cp" "set pname \<subseteq> set cp" "\<forall>c \<in> set pname. \<not> isspace c"
      by (auto simp: rest_def pname_def dest: set_dropWhileD set_takeWhileD)
    have ne: "pname \<noteq> []" using 3 by (cases cp) (auto simp: pname_def)
    from 3 "1.prems" consider "parse_option_value pname rest = Inl err"
      | v r where "parse_option_value pname rest = Inr (v, r)" "chfdw_parse_options r = Inl err"
      by (auto simp: chfdw_parse_options.simps [of cp] rbind_Inl_iff pname_def rest_def Let_def)
    then show ?thesis
    proof cases
      case 1
      with parse_option_value_error [OF 1] sub ne show ?thesis by blast
    next
      case 2
      from "1.IH"(2) [OF 3 pname_def rest_def 2(1) refl 2(2)] parse_option_value_set [OF 2(1)] sub(1)
      show ?thesis by blast
    qed
  qed
qed

lemma parse_options_blank:
  "chfdw_parse_options cp = Inr l \<Longrightarrow> l = [] \<longleftrightarrow> (\<forall>c \<in> set cp. isspace c)"
proof (induction cp arbitrary: l)
  case (Cons c cp)
  show ?case
  proof (cases "isspace c")
    case True
    with Cons show ?thesis by (simp add: chfdw_parse_options.simps [of "c # cp"])
  next
    case False
    with Cons.prems show ?thesis
      by (auto simp: chfdw_parse_options.simps [of "c # cp"] rbind_Inr_iff Let_def)
  qed
qed (simp add: chfdw_parse_options.simps)

text \<open>Everything the parser returns can be packed into a \<open>kv_list\<close>.\<close>

lemma parse_options_cpair:
  assumes "chfdw_parse_options s = Inr l" and "cstring s" and "e \<in> set l"
  shows "cpair (defelem_pair e)"
  using parse_options_wf [OF assms(1,3)] assms(2)
  by (auto simp: parsed_defelem_def cpair_def cstring_def)

section \<open>The parser: round trip\<close>

text \<open>
  The documented syntax written out: a quoted value, with backslashes and quotes
  escaped, after the name and one blank; the pairs separated by a comma and a blank.
\<close>

fun escape_value :: "string \<Rightarrow> string" where
  "escape_value [] = []"
| "escape_value (c # cs) =
     (if c = BSLASH \<or> c = SQUOTE then BSLASH # c # escape_value cs else c # escape_value cs)"

fun print_settings :: "(string \<times> string) list \<Rightarrow> string" where
  "print_settings [] = []"
| "print_settings [p] = fst p @ '' '' @ SQUOTE # escape_value (snd p) @ [SQUOTE]"
| "print_settings (p # q # ps) =
     fst p @ '' '' @ SQUOTE # escape_value (snd p) @ [SQUOTE] @ '', '' @ print_settings (q # ps)"

definition setting_name :: "string \<Rightarrow> bool" where
  "setting_name n \<longleftrightarrow> n \<noteq> [] \<and> (\<forall>c \<in> set n. \<not> isspace c)"

lemma quoted_value_escape:
  "quoted_value acc (escape_value v @ SQUOTE # r) = Inr (acc @ v, r)"
  by (induction v arbitrary: acc) auto

lemma isspace_blank [simp]: "isspace (CHR '' '')"
  by (simp add: isspace_def)

lemma span_setting_name:
  assumes "\<forall>c \<in> set n. \<not> isspace c"
  shows "takeWhile (\<lambda>c. \<not> isspace c) (n @ CHR '' '' # t) = n"
    "dropWhile (\<lambda>c. \<not> isspace c) (n @ CHR '' '' # t) = CHR '' '' # t"
  using assms by (induction n) auto

lemma parse_options_quoted:
  assumes "setting_name n"
  shows "chfdw_parse_options (n @ '' '' @ SQUOTE # escape_value v @ [SQUOTE] @ r)
    = rbind (let r' = dropWhile isspace r
             in if r' \<noteq> [] \<and> hd r' = CHR '','' then Inr (tl r')
                else if r' \<noteq> [] then Inl (missing_comma n) else Inr r')
        (\<lambda>t. rbind (chfdw_parse_options t) (\<lambda>l. Inr (\<lparr>defname = n, arg = Some v\<rparr> # l)))"
proof -
  have n: "n \<noteq> []" "\<not> isspace (hd n)" "\<forall>c \<in> set n. \<not> isspace c"
    using assms by (auto simp: setting_name_def)
  show ?thesis
    using n span_setting_name [OF n(3)] quoted_value_escape [of "[]" v r]
    by (subst chfdw_parse_options.simps) (simp add: parse_option_value_def Let_def)
qed

lemma parse_print_settings:
  "\<forall>p \<in> set ps. setting_name (fst p) \<Longrightarrow> chfdw_parse_options (print_settings ps)
     = Inr (map (\<lambda>p. \<lparr>defname = fst p, arg = Some (snd p)\<rparr>) ps)"
proof (induction ps rule: print_settings.induct)
  case 1
  show ?case by (simp add: chfdw_parse_options.simps)
next
  case (2 p)
  then show ?case
    using parse_options_quoted [of "fst p" "snd p" "[]"]
    by (simp add: chfdw_parse_options.simps [of "[]"])
next
  case (3 p q ps)
  then have ih: "chfdw_parse_options (print_settings (q # ps))
      = Inr (map (\<lambda>p. \<lparr>defname = fst p, arg = Some (snd p)\<rparr>) (q # ps))" by simp
  have "chfdw_parse_options (CHR '' '' # print_settings (q # ps))
      = chfdw_parse_options (print_settings (q # ps))"
    by (subst chfdw_parse_options.simps) simp
  with ih 3 show ?case
    using parse_options_quoted [of "fst p" "snd p" "'', '' @ print_settings (q # ps)"]
    by simp
qed

section \<open>The option table by catalog\<close>

lemma fdw_options_table_eq:
  "fdw_options_table =
     map (\<lambda>(k, c, b). \<lparr>keyword = k, optcontext = c, is_ch_opt = b, dispchar = ''''\<rparr>)
     [(''host'', ForeignServerRelationId, True), (''secure'', ForeignServerRelationId, True),
      (''min_tls_version'', ForeignServerRelationId, True), (''port'', ForeignServerRelationId, True),
      (''dbname'', ForeignServerRelationId, True), (''user'', UserMappingRelationId, True),
      (''password'', UserMappingRelationId, True), (''compression'', ForeignServerRelationId, True),
      (''database'', ForeignTableRelationId, True),
      (''table_name'', ForeignTableRelationId, False), (''engine'', ForeignTableRelationId, False),
      (''driver'', ForeignServerRelationId, False), (''encoding_check'', ForeignServerRelationId, True),
      (''settings'', ForeignServerRelationId, False), (''settings'', ForeignTableRelationId, False),
      (''aggregatefunction'', AttributeRelationId, False),
      (''simpleaggregatefunction'', AttributeRelationId, False),
      (''column_name'', AttributeRelationId, False)]"
  by (simp add: fdw_options_table_def ch_options_def non_ch_options_def)

lemma valid_user_mapping_option:
  "is_valid_option fdw_options_table kw UserMappingRelationId \<longleftrightarrow> kw = ''user'' \<or> kw = ''password''"
  by (auto simp: is_valid_option_def fdw_options_table_eq)

lemma valid_server_option:
  "is_valid_option fdw_options_table kw ForeignServerRelationId \<longleftrightarrow>
     kw \<in> {''host'', ''secure'', ''min_tls_version'', ''port'', ''dbname'', ''compression'', ''driver'',
            ''encoding_check'', ''settings''}"
  by (auto simp: is_valid_option_def fdw_options_table_eq)

lemma InitChFdwOptions_table:
  "InitChFdwOptions ok st = Inr tbl \<Longrightarrow> st = None \<or> st = Some fdw_options_table \<Longrightarrow> tbl = fdw_options_table"
  by (auto simp: InitChFdwOptions_def split: if_splits)

lemma validate_options_valid:
  "validate_options pe tbl cat ds = Inr () \<Longrightarrow> d \<in> set ds \<Longrightarrow> is_valid_option tbl (defname d) cat"
  by (induction ds) (auto simp: rbind_Inr_iff validate_option_def split: if_splits)

lemma validator_valid:
  assumes "clickhouse_fdw_validator pe ok st cat ds = Inr ()" and "st = None \<or> st = Some fdw_options_table"
    and "d \<in> set ds"
  shows "is_valid_option fdw_options_table (defname d) cat"
  using assms
  by (auto simp: clickhouse_fdw_validator_def rbind_Inr_iff
        dest: InitChFdwOptions_table validate_options_valid)

lemma validator_settings:
  assumes "clickhouse_fdw_validator pe ok st cat ds = Inr ()" and "d \<in> set ds"
  shows "(defname d = ''secure'' \<longrightarrow> strVal d \<in> set secure_values)
    \<and> (defname d = ''min_tls_version'' \<longrightarrow> parse_min_tls_version (strVal d) \<noteq> None)
    \<and> (defname d = ''encoding_check'' \<longrightarrow> pe (strVal d) \<noteq> None)
    \<and> (defname d = ''settings'' \<longrightarrow> (\<exists>l. chfdw_parse_options (strVal d) = Inr l))"
proof -
  obtain tbl where "validate_options pe tbl cat ds = Inr ()"
    using assms(1) by (auto simp: clickhouse_fdw_validator_def rbind_Inr_iff)
  then have "validate_option pe tbl cat d = Inr ()"
    using assms(2) by (induction ds) (auto simp: rbind_Inr_iff)
  then show ?thesis by (auto simp: validate_option_def rbind_Inr_iff split: if_splits)
qed

text \<open>
  What the options of a list say, for an option that the caller asks for: the values given for
  one name, in order; the last of them that counts wins.
\<close>

definition given :: "(string \<Rightarrow> bool) \<Rightarrow> string \<Rightarrow> DefElem list \<Rightarrow> string list" where
  "given want k opts = (if want k then map strVal (filter (\<lambda>d. defname d = k) opts) else [])"

definition newest :: "(string \<Rightarrow> 'a option) \<Rightarrow> string list \<Rightarrow> 'a \<Rightarrow> 'a" where
  "newest h vs z = (case filter (\<lambda>v. h v \<noteq> None) vs of [] \<Rightarrow> z | ws \<Rightarrow> the (h (last ws)))"

text \<open>The meaning of a value: \<open>None\<close> for one that says nothing.\<close>

definition port_of :: "string \<Rightarrow> int option" where
  "port_of v = (let (n, rest) = strtol10 v in if rest = [] \<and> 0 < n \<and> n \<le> INT_MAX then Some n else None)"

definition tls_of :: "string \<Rightarrow> tls_mode option" where
  "tls_of v = map_of [(''on'', CH_TLS_ON), (''true'', CH_TLS_ON), (''yes'', CH_TLS_ON), (''1'', CH_TLS_ON),
     (''off'', CH_TLS_OFF), (''false'', CH_TLS_OFF), (''no'', CH_TLS_OFF), (''0'', CH_TLS_OFF)] v"

definition dbname_of :: "string \<Rightarrow> string" where
  "dbname_of v = (if v = [] then ''default'' else v)"

lemma newest_simps [simp]: "newest h [] z = z" "newest h (v # vs) z = newest h vs (case h v of None \<Rightarrow> z | Some x \<Rightarrow> x)"
  by (auto simp: newest_def split: list.split option.split)

lemma given_simps [simp]:
  "given want k [] = []"
  "given want k (d # ds) = (if want k \<and> defname d = k then [strVal d] else []) @ given want k ds"
  by (simp_all add: given_def)

text \<open>One field of the details, which one option sets.\<close>

lemma fold_given:
  assumes "\<And>def x. fld (extract_option pe tbl want def x)
      = (if want k \<and> defname def = k then (case h (strVal def) of None \<Rightarrow> fld x | Some v \<Rightarrow> v) else fld x)"
  shows "fld (foldl (\<lambda>d def. extract_option pe tbl want def d) d opts) = newest h (given want k opts) (fld d)"
  by (induction opts arbitrary: d) (simp_all add: assms)

lemma extract_port_of: "extract_port v old = (case port_of v of None \<Rightarrow> old | Some n \<Rightarrow> n)"
  by (auto simp: extract_port_def port_of_def Let_def split: prod.split)

lemma extract_tls_of: "extract_tls v old = (case tls_of v of None \<Rightarrow> old | Some m \<Rightarrow> m)"
  by (simp add: extract_tls_def tls_of_def)

lemma ch_option_names:
  "is_ch_option fdw_options_table k \<longleftrightarrow> k \<in> {''host'', ''secure'', ''min_tls_version'', ''port'', ''dbname'', ''user'',
     ''password'', ''compression'', ''database'', ''encoding_check''}"
  by (auto simp: is_ch_option_def fdw_options_table_eq)

lemma extract_option_fields:
  fixes x :: "'enc ch_connection_details"
  shows "host (extract_option pe fdw_options_table want def x) = (if want ''host'' \<and> defname def = ''host'' then (case (Some \<circ> Some) (strVal def) of None \<Rightarrow> host x | Some v \<Rightarrow> v) else host x)"
    and "dbname (extract_option pe fdw_options_table want def x) = (if want ''dbname'' \<and> defname def = ''dbname'' then (case (Some \<circ> Some \<circ> dbname_of) (strVal def) of None \<Rightarrow> dbname x | Some v \<Rightarrow> v) else dbname x)"
    and "username (extract_option pe fdw_options_table want def x) = (if want ''user'' \<and> defname def = ''user'' then (case (Some \<circ> Some) (strVal def) of None \<Rightarrow> username x | Some v \<Rightarrow> v) else username x)"
    and "password (extract_option pe fdw_options_table want def x) = (if want ''password'' \<and> defname def = ''password'' then (case (Some \<circ> Some) (strVal def) of None \<Rightarrow> password x | Some v \<Rightarrow> v) else password x)"
    and "compression (extract_option pe fdw_options_table want def x) = (if want ''compression'' \<and> defname def = ''compression'' then (case (Some \<circ> Some) (strVal def) of None \<Rightarrow> compression x | Some v \<Rightarrow> v) else compression x)"
    and "port (extract_option pe fdw_options_table want def x) = (if want ''port'' \<and> defname def = ''port'' then (case (port_of) (strVal def) of None \<Rightarrow> port x | Some v \<Rightarrow> v) else port x)"
    and "tls (extract_option pe fdw_options_table want def x) = (if want ''secure'' \<and> defname def = ''secure'' then (case (tls_of) (strVal def) of None \<Rightarrow> tls x | Some v \<Rightarrow> v) else tls x)"
    and "min_tls_version (extract_option pe fdw_options_table want def x) = (if want ''min_tls_version'' \<and> defname def = ''min_tls_version'' then (case (parse_min_tls_version) (strVal def) of None \<Rightarrow> min_tls_version x | Some v \<Rightarrow> v) else min_tls_version x)"
    and "driver (extract_option pe fdw_options_table want def x) = (if want ''driver'' \<and> defname def = ''driver'' then (case (Some) (strVal def) of None \<Rightarrow> driver x | Some v \<Rightarrow> v) else driver x)"
    and "encoding_check (extract_option pe fdw_options_table want def x) = (if want ''encoding_check'' \<and> defname def = ''encoding_check'' then (case (pe) (strVal def) of None \<Rightarrow> encoding_check x | Some v \<Rightarrow> v) else encoding_check x)"
  by (simp add: extract_option_def Let_def ch_option_names extract_port_of extract_tls_of dbname_of_def
      if_distrib [of host] option.case_distrib [of host]
      if_distrib [of dbname] option.case_distrib [of dbname]
      if_distrib [of username] option.case_distrib [of username]
      if_distrib [of password] option.case_distrib [of password]
      if_distrib [of compression] option.case_distrib [of compression]
      if_distrib [of port] option.case_distrib [of port]
      if_distrib [of tls] option.case_distrib [of tls]
      if_distrib [of min_tls_version] option.case_distrib [of min_tls_version]
      if_distrib [of driver] option.case_distrib [of driver]
      if_distrib [of encoding_check] option.case_distrib [of encoding_check]
      cong: if_cong option.case_cong; auto split: option.split)+

lemma extracted_fields:
  fixes d e :: "'enc ch_connection_details"
  assumes e: "e = foldl (\<lambda>d def. extract_option pe fdw_options_table want def d) d opts"
  shows "host e = newest (Some \<circ> Some) (given want ''host'' opts) (host d)"
    and "dbname e = newest (Some \<circ> Some \<circ> dbname_of) (given want ''dbname'' opts) (dbname d)"
    and "username e = newest (Some \<circ> Some) (given want ''user'' opts) (username d)"
    and "password e = newest (Some \<circ> Some) (given want ''password'' opts) (password d)"
    and "compression e = newest (Some \<circ> Some) (given want ''compression'' opts) (compression d)"
    and "port e = newest port_of (given want ''port'' opts) (port d)"
    and "tls e = newest tls_of (given want ''secure'' opts) (tls d)"
    and "min_tls_version e = newest parse_min_tls_version (given want ''min_tls_version'' opts) (min_tls_version d)"
    and "driver e = newest Some (given want ''driver'' opts) (driver d)"
    and "encoding_check e = newest pe (given want ''encoding_check'' opts) (encoding_check d)"
  by (simp_all add: e comp_def fold_given [OF extract_option_fields(1)] fold_given [OF extract_option_fields(2)]
      fold_given [OF extract_option_fields(3)]      fold_given [OF extract_option_fields(4)]
      fold_given [OF extract_option_fields(5)]      fold_given [OF extract_option_fields(6)]
      fold_given [OF extract_option_fields(7)]      fold_given [OF extract_option_fields(8)]
      fold_given [OF extract_option_fields(9)]      fold_given [OF extract_option_fields(10)])

text \<open>A name that the validator does not accept for a catalog is not given.\<close>

lemma given_invalid:
  assumes "\<And>def. def \<in> set opts \<Longrightarrow> is_valid_option fdw_options_table (defname def) cat"
    and "\<not> is_valid_option fdw_options_table k cat"
  shows "given want k opts = []"
  using assms by (auto simp: given_def filter_empty_conv)

section \<open>Properties\<close>

text \<open>
  C20: The settings syntax round trips. For any list of settings whose names are not empty
  and hold no blank, and any values, the parser reads the documented quoted form back to
  exactly that list, in order; so every value can be written, whatever commas, blanks,
  quotes and backslashes it holds.
\<close>

theorem parse_settings_roundtrip:
  assumes "\<forall>p \<in> set ps. fst p \<noteq> [] \<and> (\<forall>c \<in> set (fst p). \<not> isspace c)"
  shows "chfdw_parse_options (print_settings ps)
    = Inr (map (\<lambda>p. \<lparr>defname = fst p, arg = Some (snd p)\<rparr>) ps)"
  using assms by (intro parse_print_settings) (simp add: setting_name_def)

lemma parse_settings_roundtrip_witness:
  "chfdw_parse_options (print_settings [(''join_algorithm'', ''grace_hash, hash''), (''final'', ''1'')])
    = Inr [\<lparr>defname = ''join_algorithm'', arg = Some ''grace_hash, hash''\<rparr>,
           \<lparr>defname = ''final'', arg = Some ''1''\<rparr>]"
  using parse_settings_roundtrip [of "[(''join_algorithm'', ''grace_hash, hash''), (''final'', ''1'')]"]
  by (simp add: isspace_def)

text \<open>
  C24: The result of the parser. It terminates on every input. Every option that it returns has a
  name that is not empty and holds no blank, and a value, and the bytes of both come from the
  input; it returns no option only for a blank input. The only errors are the three syntax errors:
  a missing comma or a missing value after a name, which is a word of the input, and a quoted value
  that does not end.
\<close>

theorem parse_options_result:
  "case chfdw_parse_options s of
     Inr l \<Rightarrow> (l = [] \<longleftrightarrow> (\<forall>c \<in> set s. isspace c))
       \<and> (\<forall>e \<in> set l. defname e \<noteq> [] \<and> (\<forall>c \<in> set (defname e). \<not> isspace c) \<and> set (defname e) \<subseteq> set s
            \<and> (\<exists>v. arg e = Some v \<and> set v \<subseteq> set s))
   | Inl err \<Rightarrow> err = unterminated_quote
       \<or> (\<exists>n. n \<noteq> [] \<and> (\<forall>c \<in> set n. \<not> isspace c) \<and> set n \<subseteq> set s \<and> (err = missing_comma n \<or> err = missing_value n))"
proof (cases "chfdw_parse_options s")
  case (Inl err)
  with parse_options_errors [OF Inl] show ?thesis by simp
next
  case (Inr l)
  have "defname e \<noteq> [] \<and> (\<forall>c \<in> set (defname e). \<not> isspace c) \<and> set (defname e) \<subseteq> set s
      \<and> (\<exists>v. arg e = Some v \<and> set v \<subseteq> set s)" if "e \<in> set l" for e
    using parse_options_wf [OF Inr that] by (auto simp: parsed_defelem_def)
  with parse_options_blank [OF Inr] show ?thesis unfolding Inr by simp
qed

lemma parse_options_result_witness:
  "chfdw_parse_options ''final 1'' = Inr [\<lparr>defname = ''final'', arg = Some ''1''\<rparr>]
    \<and> (\<exists>v. arg \<lparr>defname = ''final'', arg = Some ''1''\<rparr> = Some v \<and> set v \<subseteq> set ''final 1'')"
proof -
  have e: "chfdw_parse_options ''final 1'' = Inr [\<lparr>defname = ''final'', arg = Some ''1''\<rparr>]"
    by code_simp
  show ?thesis
    using e parse_options_result [of "''final 1''"] by simp
qed

text \<open>
  C23: Options go where they belong. Options that the validator accepts have a name that is valid
  for their catalog, and valid values. From options of a user mapping the extraction sets the user
  name and the password, each to the last value given for its name, and nothing else. From options
  of a server it sets each other detail to the last value given for its name: the driver, the
  host, the port (values that are no number between 1 and the largest \<open>int\<close> say nothing), the
  database (\<open>default\<close> for an empty one), the compression, the TLS mode (\<open>auto\<close> says nothing), the
  least TLS version and the handling of wrong encodings; it does not touch the user name and the
  password. A detail that the caller does not ask for, or for which no option is given, stays.
\<close>

theorem validated_options_separation:
  fixes d :: "'enc ch_connection_details"
  assumes "clickhouse_fdw_validator pe ok st cat opts = Inr ()"
    and "st = None \<or> st = Some fdw_options_table"
    and "chfdw_extract_options pe ok st want opts d = Inr d'"
  shows "(cat = UserMappingRelationId \<longrightarrow> set (map defname opts) \<subseteq> {''user'', ''password''}
      \<and> d' = d\<lparr>username := newest (Some \<circ> Some) (given want ''user'' opts) (username d),
              password := newest (Some \<circ> Some) (given want ''password'' opts) (password d)\<rparr>)
    \<and> (cat = ForeignServerRelationId \<longrightarrow>
        set (map defname opts) \<subseteq> {''host'', ''secure'', ''min_tls_version'', ''port'', ''dbname'', ''compression'', ''driver'',
          ''encoding_check'', ''settings''}
      \<and> d' = d\<lparr>driver := newest Some (given want ''driver'' opts) (driver d),
              host := newest (Some \<circ> Some) (given want ''host'' opts) (host d),
              port := newest port_of (given want ''port'' opts) (port d),
              dbname := newest (Some \<circ> Some \<circ> dbname_of) (given want ''dbname'' opts) (dbname d),
              compression := newest (Some \<circ> Some) (given want ''compression'' opts) (compression d),
              tls := newest tls_of (given want ''secure'' opts) (tls d),
              min_tls_version := newest parse_min_tls_version (given want ''min_tls_version'' opts) (min_tls_version d),
              encoding_check := newest pe (given want ''encoding_check'' opts) (encoding_check d)\<rparr>)
    \<and> (\<forall>def \<in> set opts. (defname def = ''secure'' \<longrightarrow> strVal def \<in> set secure_values)
        \<and> (defname def = ''min_tls_version'' \<longrightarrow> parse_min_tls_version (strVal def) \<noteq> None)
        \<and> (defname def = ''encoding_check'' \<longrightarrow> pe (strVal def) \<noteq> None)
        \<and> (defname def = ''settings'' \<longrightarrow> (\<exists>l. chfdw_parse_options (strVal def) = Inr l)))"
proof -
  from assms(2,3) have d': "d' = foldl (\<lambda>d def. extract_option pe fdw_options_table want def d) d opts"
    by (auto simp: chfdw_extract_options_def rbind_Inr_iff dest: InitChFdwOptions_table)
  have valid: "is_valid_option fdw_options_table (defname def) cat" if "def \<in> set opts" for def
    using validator_valid [OF assms(1,2) that] .
  note fields = extracted_fields [OF d'] and none = given_invalid [where opts = opts, OF valid]
  have um: "set (map defname opts) \<subseteq> {''user'', ''password''}
      \<and> d' = d\<lparr>username := newest (Some \<circ> Some) (given want ''user'' opts) (username d),
              password := newest (Some \<circ> Some) (given want ''password'' opts) (password d)\<rparr>"
    if "cat = UserMappingRelationId"
    using valid none that by (auto simp: fields valid_user_mapping_option intro!: ch_connection_details.equality)
  have srv: "set (map defname opts) \<subseteq> {''host'', ''secure'', ''min_tls_version'', ''port'', ''dbname'', ''compression'', ''driver'',
          ''encoding_check'', ''settings''} \<and> username d' = username d \<and> password d' = password d"
    if "cat = ForeignServerRelationId"
    using valid none that by (auto simp: fields valid_server_option)
  show ?thesis
    using um srv validator_settings [OF assms(1)]
    by (intro conjI impI ballI) (auto simp: fields intro!: ch_connection_details.equality)
qed

lemma validated_options_separation_witness:
  "chfdw_extract_options (\<lambda>_. Some ()) True None (\<lambda>_. True)
     [\<lparr>defname = ''host'', arg = Some ''h''\<rparr>, \<lparr>defname = ''port'', arg = Some ''9440''\<rparr>] cloud_details
     = Inr (cloud_details\<lparr>host := Some ''h'', port := 9440\<rparr>)
   \<and> newest port_of (given (\<lambda>_. True) ''port'' [\<lparr>defname = ''host'', arg = Some ''h''\<rparr>, \<lparr>defname = ''port'', arg = Some ''9440''\<rparr>])
       (port cloud_details) = 9440"
proof -
  let ?opts = "[\<lparr>defname = ''host'', arg = Some ''h''\<rparr>, \<lparr>defname = ''port'', arg = Some ''9440''\<rparr>]"
  have v: "clickhouse_fdw_validator (\<lambda>_. Some ()) True None ForeignServerRelationId ?opts = Inr ()"
    by code_simp
  obtain d' where x: "chfdw_extract_options (\<lambda>_. Some ()) True None (\<lambda>_. True) ?opts cloud_details = Inr d'"
    by (simp add: chfdw_extract_options_def InitChFdwOptions_def)
  have p: "port_of ''9440'' = Some 9440" by code_simp
  have "d' = cloud_details\<lparr>host := Some ''h'', port := 9440\<rparr>"
    using validated_options_separation [OF v _ x] p by (simp add: cloud_details_def)
  with x p show ?thesis by simp
qed

text \<open>Values that the unquoted form takes literally.\<close>

definition plain_value :: "string \<Rightarrow> bool" where
  "plain_value v \<longleftrightarrow> v \<noteq> [] \<and> hd v \<noteq> SQUOTE
     \<and> (\<forall>c \<in> set v. \<not> isspace c \<and> c \<noteq> CHR '','' \<and> c \<noteq> BSLASH)"

lemma unquoted_value_plain:
  "\<forall>c \<in> set v. \<not> isspace c \<and> c \<noteq> CHR '','' \<and> c \<noteq> BSLASH \<Longrightarrow>
     unquoted_value pname acc (v @ r) = unquoted_value pname (acc @ v) r"
  by (induction v arbitrary: acc) auto

lemma unquoted_value_nonempty:
  "unquoted_value n acc cs = Inr (w, t) \<Longrightarrow> acc \<noteq> [] \<Longrightarrow> w \<noteq> []"
proof (induction n acc cs rule: unquoted_value.induct)
  case (2 n acc c cs)
  consider "isspace c \<or> c = CHR '',''" | "c = BSLASH" | "\<not> isspace c" "c \<noteq> CHR '',''" "c \<noteq> BSLASH"
    by blast
  then show ?case
  proof cases
    case 1
    with "2.prems" show ?thesis by (auto simp: Let_def split: if_splits)
  next
    case 2
    with "2.IH"(1) "2.prems" show ?thesis by (cases cs) auto
  next
    case 3
    with "2.IH"(2) "2.prems" show ?thesis by auto
  qed
qed simp

lemma parse_options_plain:
  assumes "setting_name n" and "plain_value v"
  shows "chfdw_parse_options (n @ '' '' @ v @ r)
    = rbind (unquoted_value n v r)
        (\<lambda>(w, t). rbind (chfdw_parse_options t) (\<lambda>l. Inr (\<lparr>defname = n, arg = Some w\<rparr> # l)))"
proof -
  have n: "n \<noteq> []" "\<not> isspace (hd n)" "\<forall>c \<in> set n. \<not> isspace c"
    using assms(1) by (auto simp: setting_name_def)
  have v: "v \<noteq> []" "hd v \<noteq> SQUOTE" "\<not> isspace (hd v)"
    and vr: "unquoted_value n [] (v @ r) = unquoted_value n v r"
    using assms(2) unquoted_value_plain [of v n "[]" r] by (auto simp: plain_value_def)
  have drop: "dropWhile isspace (v @ r) = v @ r"
    using v by (cases v) auto
  have val: "parse_option_value n (v @ r) = unquoted_value n v r"
    using v(1,2) vr unquoted_value_nonempty [of n v r]
    by (cases "unquoted_value n v r") (auto simp: parse_option_value_def)
  show ?thesis
    using n span_setting_name [OF n(3)] drop val
    by (subst chfdw_parse_options.simps) (simp add: Let_def)
qed

text \<open>
  A blank before the comma after an unquoted value. The unquoted branch leaves the comma
  unread, so it becomes the first character of the next setting's name, while after a
  quoted value the same text gives the name that was written.
\<close>

theorem comma_after_unquoted_value:
  assumes "setting_name n" and "plain_value v" and "setting_name m" and "plain_value w"
  shows "chfdw_parse_options (n @ '' '' @ v @ '' ,'' @ m @ '' '' @ w)
      = Inr [\<lparr>defname = n, arg = Some v\<rparr>, \<lparr>defname = CHR '','' # m, arg = Some w\<rparr>]
    \<and> chfdw_parse_options (n @ '' '' @ SQUOTE # escape_value v @ [SQUOTE] @ '' ,'' @ m @ '' '' @ w)
      = Inr [\<lparr>defname = n, arg = Some v\<rparr>, \<lparr>defname = m, arg = Some w\<rparr>]"
proof -
  have nil: "chfdw_parse_options [] = Inr []" by (simp add: chfdw_parse_options.simps)
  have name: "setting_name (CHR '','' # m)"
    using assms(3) by (simp add: setting_name_def)
  have tail: "setting_name x \<Longrightarrow> chfdw_parse_options (x @ '' '' @ w) = Inr [\<lparr>defname = x, arg = Some w\<rparr>]" for x
    using parse_options_plain [of x w "[]"] assms(4) nil by simp
  show ?thesis
    using parse_options_plain [OF assms(1,2), of "'' ,'' @ m @ '' '' @ w"] tail [OF name] tail [OF assms(3)]
      parse_options_quoted [OF assms(1), of v "'' ,'' @ m @ '' '' @ w"]
    by simp
qed

lemma comma_after_unquoted_value_witness:
  "chfdw_parse_options ''final 1 ,join_use_nulls 1''
     = Inr [\<lparr>defname = ''final'', arg = Some ''1''\<rparr>, \<lparr>defname = '',join_use_nulls'', arg = Some ''1''\<rparr>]"
  using comma_after_unquoted_value [of "''final''" "''1''" "''join_use_nulls''" "''1''"]
  by (simp add: setting_name_def plain_value_def isspace_def)

text \<open>
  Setting \<open>pg_clickhouse.session_settings\<close>. When the check hook accepts a non-empty value
  and the assign hook runs, iterating over the session list yields exactly the parsed
  settings, whichever allocator served the list.
\<close>

theorem session_settings_guc:
  assumes "chfdw_parse_options s = Inr l" and "l \<noteq> []" and "cstring s"
    and "allocate_list pgv alloc (kv_size l) 0 = Inr buf" and "length buf = kv_size l"
  shows "\<exists>kv. chfdw_check_settings_guc pgv alloc (Some s) = Inr (Some (True, Some kv))
    \<and> kv_pairs (ch_session_settings_list (chfdw_settings_assign_hook (Some kv) g))
        = Some (map (\<lambda>e. (defname e, strVal e)) l)"
proof -
  have "s \<noteq> []" using assms(1,2) by (auto simp: chfdw_parse_options.simps)
  moreover have "kv_pairs (Some (kv_pack (map defelem_pair l))) = Some (map defelem_pair l)"
    using parse_options_cpair [OF assms(1,3)] by (intro kv.iterate_build) auto
  ultimately show ?thesis
    using new_kv_list_packs [OF assms(4,5)] assms(1,2)
    by (simp add: chfdw_check_settings_guc_def chfdw_settings_assign_hook_def defelem_pair_def)
qed

lemma session_settings_guc_witness:
  "\<exists>kv. chfdw_check_settings_guc 150000 zero_alloc (Some ''final 1'') = Inr (Some (True, Some kv))
    \<and> kv_pairs (ch_session_settings_list (chfdw_settings_assign_hook (Some kv)
         \<lparr>ch_session_settings_list = None, ch_pushdown_regex = True, ch_vector_planner_warnings = True,
          ch_vector_metadata_ttl = 60\<rparr>)) = Some [(''final'', ''1'')]"
proof -
  have p: "chfdw_parse_options ''final 1'' = Inr [\<lparr>defname = ''final'', arg = Some ''1''\<rparr>]"
    by code_simp
  have "allocate_list 150000 zero_alloc (kv_size [\<lparr>defname = ''final'', arg = Some ''1''\<rparr>]) 0
      = Inr [NUL, NUL, NUL, NUL, NUL, NUL, NUL, NUL]"
    by (simp add: allocate_list_def zero_alloc_def kv_size_def)
  from session_settings_guc [OF p _ _ this] show ?thesis
    by (simp add: cstring_def kv_size_def)
qed

end
