(* ===== verification/Settings.thy ===== *)
theory Settings
  imports Options
begin

text \<open>
  The settings of a ClickHouse query (\<open>src/settings.c\<close>): built-in defaults, the server's
  \<open>settings\<close> option, the settings of the foreign tables, the session settings, in this
  order of increasing precedence, minus those the server's version does not know.
  Warnings and notices are the values \<open>settings_report\<close>, in the order they are raised.
\<close>

section \<open>Operations\<close>

definition known_settings :: "(string \<times> int \<times> int) list" where
  "known_settings =
    [(''hnsw_candidate_list_size_for_search'', 24, 10),
     (''max_limit_for_vector_search_queries'', 25, 5),
     (''vector_search_filter_strategy'', 25, 5),
     (''vector_search_index_fetch_multiplier'', 25, 8),
     (''vector_search_postfilter_multiplier'', 25, 5),
     (''vector_search_with_rescoring'', 25, 8),
     (''vector_search_use_quantized_codes'', 26, 7),
     (''query_plan_try_use_vector_search'', 25, 1),
     (''enable_vector_similarity_index'', 25, 7),
     (''allow_experimental_vector_similarity_index'', 24, 8),
     (''materialize_skip_indexes_on_insert'', 24, 6),
     (''exclude_materialize_skip_indexes_on_insert'', 25, 10),
     (''use_skip_indexes'', 23, 3),
     (''use_skip_indexes_if_final'', 23, 3),
     (''use_skip_indexes_for_top_k'', 25, 12),
     (''enable_qbit_type'', 26, 1),
     (''allow_experimental_qbit_type'', 25, 10),
     (''optimize_qbit_distance_function_reads'', 25, 10),
     (''enable_quantized_codec'', 26, 8)]"

definition defaults :: "(string \<times> string) list" where
  "defaults = [(''join_use_nulls'', ''1''), (''group_by_use_nulls'', ''1''), (''final'', ''1''),
     (''transform_null_in'', ''0'')]"

definition makeDefElem :: "string \<Rightarrow> string option \<Rightarrow> DefElem" where
  "makeDefElem n v = \<lparr>defname = n, arg = v\<rparr>"

definition chfdw_settings_option :: "DefElem list \<Rightarrow> string option" where
  "chfdw_settings_option opts = map_option strVal (find (\<lambda>d. defname d = ''settings'') opts)"

text \<open>One round of \<open>overlay\<close>'s outer loop.\<close>

definition overlay1 :: "DefElem list \<Rightarrow> DefElem \<Rightarrow> DefElem list" where
  "overlay1 base d = (case find_index (\<lambda>b. defname b = defname d) base of
       Some i \<Rightarrow> base[i := d]
     | None \<Rightarrow> base @ [d])"

definition overlay :: "DefElem list \<Rightarrow> DefElem list \<Rightarrow> DefElem list" where
  "overlay base settings = foldl overlay1 base settings"

definition default_settings :: "DefElem list" where
  "default_settings = map (\<lambda>(n, v). makeDefElem n (Some v)) defaults"

text \<open>\<open>session_settings\<close>: the loop over the session list; \<open>None\<close> for a read outside it.\<close>

definition session_settings :: "kv_list option \<Rightarrow> DefElem list option" where
  "session_settings kvl = map_option (map (\<lambda>(n, v). makeDefElem n (Some v))) (kv_pairs kvl)"

definition chfdw_session_settings ::
    "nat \<Rightarrow> alloc_fun \<Rightarrow> kv_list option \<Rightarrow> kv_list option pg" where
  "chfdw_session_settings pgv alloc session = (case session_settings session of
       None \<Rightarrow> Inr None
     | Some ss \<Rightarrow> new_kv_list_from_pg_list pgv alloc (overlay default_settings ss) 2)"

definition chfdw_table_settings :: "DefElem list \<Rightarrow> DefElem list pg" where
  "chfdw_table_settings table_options = (case chfdw_settings_option table_options of
       Some opt \<Rightarrow> rbind (chfdw_parse_options opt) (\<lambda>l. Inr (overlay [] l))
     | None \<Rightarrow> Inr [])"

text \<open>One round of the loop of \<open>chfdw_merge_settings\<close>; a conflict leaves the value NULL.\<close>

definition merge1 :: "DefElem list \<Rightarrow> DefElem \<Rightarrow> DefElem list" where
  "merge1 merged d = (case find_index (\<lambda>m. defname m = defname d) merged of
       None \<Rightarrow> merged @ [d]
     | Some i \<Rightarrow> if arg (merged ! i) \<noteq> arg d then merged[i := makeDefElem (defname d) None] else merged)"

definition chfdw_merge_settings :: "DefElem list \<Rightarrow> DefElem list \<Rightarrow> DefElem list" where
  "chfdw_merge_settings a b = foldl merge1 a b"

datatype settings_report =
    UnsupportedSetting ch_server_version string int int
  | ConflictingTables string "string option"

text \<open>
  \<open>drop_unsupported\<close>: \<open>server_version\<close> is what the driver's method returns, \<open>None\<close> for a
  driver without one. Returns the kept settings and the warnings.
\<close>

definition conn_version :: "ch_server_version option \<Rightarrow> ch_server_version" where
  "conn_version sv = (case sv of None \<Rightarrow> \<lparr>major = 0, minor = 0, patch = 0\<rparr> | Some v \<Rightarrow> v)"

fun drop_unsupported ::
    "DefElem list \<Rightarrow> ch_server_version option \<Rightarrow> DefElem list \<times> settings_report list" where
  "drop_unsupported [] sv = ([], [])"
| "drop_unsupported (d # ds) sv =
     (case drop_unsupported ds sv of (kept, reports) \<Rightarrow>
        (case find_index (\<lambda>k. fst k = defname d) known_settings of
           None \<Rightarrow> (d # kept, reports)
         | Some i \<Rightarrow>
             (let v = conn_version sv; (_, maj, mnr) = known_settings ! i
              in if major v = 0 \<or> chfdw_version_ge v maj mnr then (d # kept, reports)
                 else (kept, UnsupportedSetting v (defname d) maj mnr # reports))))"

text \<open>The last loop of \<open>chfdw_query_settings\<close>: a notice per conflict, with the value in effect.\<close>

definition conflict_reports :: "DefElem list \<Rightarrow> DefElem list \<Rightarrow> settings_report list" where
  "conflict_reports tables settings =
     map (\<lambda>d. ConflictingTables (defname d)
                (map_option strVal (find (\<lambda>s. defname s = defname d) settings)))
       (filter (\<lambda>d. arg d = None) tables)"

text \<open>The settings of a query before they are packed.\<close>

definition query_settings_list ::
    "DefElem list \<Rightarrow> DefElem list \<Rightarrow> DefElem list \<Rightarrow> ch_server_version option
      \<Rightarrow> (DefElem list \<times> settings_report list) pg" where
  "query_settings_list server_options tables session sv =
     rbind (case chfdw_settings_option server_options of
              None \<Rightarrow> Inr default_settings
            | Some server \<Rightarrow> rbind (chfdw_parse_options server) (\<lambda>l. Inr (overlay default_settings l)))
       (\<lambda>s1. let s2 = foldl (\<lambda>s d. if arg d \<noteq> None then overlay s [d] else s) s1 tables;
                 s3 = overlay s2 session;
                 (kept, warnings) = drop_unsupported s3 sv
             in Inr (kept, warnings @ conflict_reports tables kept))"

definition chfdw_query_settings ::
    "nat \<Rightarrow> alloc_fun \<Rightarrow> kv_list option \<Rightarrow> DefElem list \<Rightarrow> DefElem list \<Rightarrow> ch_server_version option
      \<Rightarrow> (kv_list \<times> settings_report list) option pg" where
  "chfdw_query_settings pgv alloc session server_options tables sv =
     (case session_settings session of
        None \<Rightarrow> Inr None
      | Some ss \<Rightarrow>
          rbind (query_settings_list server_options tables ss sv)
            (\<lambda>(settings, reports).
               rbind (new_kv_list_from_pg_list pgv alloc settings 2)
                 (\<lambda>kv. Inr (map_option (\<lambda>k. (k, reports)) kv))))"

section \<open>Lists of settings as finite maps\<close>

text \<open>
  The value a list gives to a name: \<open>None\<close> when the name is absent, \<open>Some None\<close> when it is
  present with a NULL value (a conflict between tables).
\<close>

definition setting :: "DefElem list \<Rightarrow> string \<Rightarrow> string option option" where
  "setting l n = map_option arg (find (\<lambda>d. defname d = n) l)"

definition distinct_names :: "DefElem list \<Rightarrow> bool" where
  "distinct_names l \<longleftrightarrow> distinct (map defname l)"

lemma setting_simps [simp]:
  "setting [] n = None"
  "setting (d # l) n = (if defname d = n then Some (arg d) else setting l n)"
  by (simp_all add: setting_def)

lemma setting_append: "setting (a @ b) n = (case setting a n of None \<Rightarrow> setting b n | v \<Rightarrow> v)"
  by (induction a) auto

lemma setting_None_iff: "setting l n = None \<longleftrightarrow> n \<notin> defname ` set l"
  by (induction l) auto

text \<open>Replacing or appending at the first index that has the name: the loops of this file.\<close>

definition put_first :: "DefElem list \<Rightarrow> DefElem \<Rightarrow> DefElem list" where
  "put_first l d = (case find_index (\<lambda>b. defname b = defname d) l of
       Some i \<Rightarrow> l[i := d] | None \<Rightarrow> l @ [d])"

lemma put_first_Nil: "put_first [] d = [d]"
  by (simp add: put_first_def)

lemma put_first_Cons:
  "put_first (b # l) d = (if defname b = defname d then d # l else b # put_first l d)"
  by (cases "find_index (\<lambda>b. defname b = defname d) l") (auto simp: put_first_def)

lemmas put_first_simps [simp] = put_first_Nil put_first_Cons

lemma setting_put_first [simp]:
  "setting (put_first l d) n = (if n = defname d then Some (arg d) else setting l n)"
  by (induction l) auto

lemma names_put_first: "defname ` set (put_first l d) = insert (defname d) (defname ` set l)"
  by (induction l) auto

lemma distinct_put_first: "distinct_names l \<Longrightarrow> distinct_names (put_first l d)"
proof (induction l)
  case (Cons b l)
  have "set (map defname (put_first l d)) = insert (defname d) (set (map defname l))"
    using names_put_first [of l d] by simp
  with Cons show ?case by (auto simp: distinct_names_def)
qed (simp add: distinct_names_def)

lemma overlay1_put_first: "overlay1 = put_first"
  by (simp add: fun_eq_iff overlay1_def put_first_def)

lemma merge1_simps:
  "merge1 [] d = [d]"
  "merge1 (b # l) d = (if defname b = defname d
     then (if arg b \<noteq> arg d then makeDefElem (defname d) None # l else b # l) else b # merge1 l d)"
  by (simp add: merge1_def)
     (cases "find_index (\<lambda>b. defname b = defname d) l"; auto simp: merge1_def)

lemma merge1_put_first:
  "merge1 l d = (case setting l (defname d) of
       None \<Rightarrow> put_first l d
     | Some v \<Rightarrow> if v \<noteq> arg d then put_first l (makeDefElem (defname d) None) else l)"
  by (induction l) (auto simp: merge1_simps makeDefElem_def split: option.splits if_splits)

section \<open>Layers of settings\<close>

text \<open>
  The contract of an operation that lays a list of settings over another: lookups
  prefer the last entry of the upper list, and names stay distinct. The precedence of a
  stack of layers follows once and for all.
\<close>

locale settings_layer =
  fixes lay :: "DefElem list \<Rightarrow> DefElem list \<Rightarrow> DefElem list"
  assumes lay_setting:
      "setting (lay base s) n = (case setting (rev s) n of None \<Rightarrow> setting base n | v \<Rightarrow> v)"
    and lay_distinct: "distinct_names base \<Longrightarrow> distinct_names (lay base s)"
begin

lemma lay_upper: "setting (rev s) n = Some v \<Longrightarrow> setting (lay base s) n = Some v"
  by (simp add: lay_setting)

lemma lay_lower: "setting (rev s) n = None \<Longrightarrow> setting (lay base s) n = setting base n"
  by (simp add: lay_setting)

lemma foldl_lay_setting:
  "setting (foldl lay base layers) n
     = (case find (\<lambda>s. setting (rev s) n \<noteq> None) (rev layers) of
          None \<Rightarrow> setting base n | Some s \<Rightarrow> setting (rev s) n)"
proof (induction layers rule: rev_induct)
  case Nil
  show ?case by simp
next
  case (snoc s layers)
  then show ?case by (auto simp: lay_setting split: option.splits)
qed

lemma foldl_lay_distinct: "distinct_names base \<Longrightarrow> distinct_names (foldl lay base layers)"
  by (induction layers arbitrary: base) (auto intro: lay_distinct)

end

lemma overlay_setting:
  "setting (overlay base s) n = (case setting (rev s) n of None \<Rightarrow> setting base n | v \<Rightarrow> v)"
proof (induction s arbitrary: base)
  case Nil
  show ?case by (simp add: overlay_def)
next
  case (Cons d s)
  then show ?case
    by (auto simp: overlay_def overlay1_put_first setting_append split: option.splits)
qed

lemma overlay_distinct: "distinct_names base \<Longrightarrow> distinct_names (overlay base s)"
  by (induction s arbitrary: base) (auto simp: overlay_def overlay1_put_first distinct_put_first)

interpretation ov: settings_layer overlay
  by unfold_locales (auto simp: overlay_setting overlay_distinct)

lemma overlay_subset: "set (overlay base s) \<subseteq> set base \<union> set s"
proof -
  have one: "set (put_first l d) \<subseteq> insert d (set l)" for l d
    by (induction l) auto
  show ?thesis
  proof (induction s arbitrary: base)
    case (Cons d s)
    then show ?case
      using one [of base d] by (fastforce simp: overlay_def overlay1_put_first)
  qed (simp add: overlay_def)
qed

lemma overlay_memD: "d \<in> set (overlay base s) \<Longrightarrow> d \<in> set base \<or> d \<in> set s"
  using overlay_subset by blast

section \<open>Merging the settings of several tables\<close>

text \<open>The value two tables agree on: NULL when both set the name, to different values.\<close>

definition join_setting ::
    "string option option \<Rightarrow> string option option \<Rightarrow> string option option" where
  "join_setting x y = (case x of None \<Rightarrow> y | Some u \<Rightarrow>
     (case y of None \<Rightarrow> x | Some v \<Rightarrow> Some (if u = v then u else None)))"

lemma join_setting_None [simp]: "join_setting None y = y" "join_setting x None = x"
  by (simp_all add: join_setting_def split: option.splits)

lemma join_setting_comm: "join_setting x y = join_setting y x"
  by (auto simp: join_setting_def split: option.splits)

lemma join_setting_assoc: "join_setting (join_setting x y) z = join_setting x (join_setting y z)"
  by (auto simp: join_setting_def split: option.splits)

lemma setting_merge1:
  "setting (merge1 l d) n
     = (if n = defname d then join_setting (setting l n) (Some (arg d)) else setting l n)"
  by (auto simp: merge1_put_first makeDefElem_def join_setting_def split: option.splits)

lemma merge1_distinct: "distinct_names l \<Longrightarrow> distinct_names (merge1 l d)"
  by (auto simp: merge1_put_first distinct_put_first split: option.splits)

lemma merge_setting:
  "distinct_names b \<Longrightarrow>
     setting (chfdw_merge_settings a b) n = join_setting (setting a n) (setting b n)"
proof (induction b arbitrary: a)
  case Nil
  show ?case by (simp add: chfdw_merge_settings_def)
next
  case (Cons d b)
  have absent: "setting b (defname d) = None" and db: "distinct_names b"
    using Cons.prems by (auto simp: distinct_names_def setting_None_iff)
  have "setting (chfdw_merge_settings a (d # b)) n
      = join_setting (setting (merge1 a d) n) (setting b n)"
    using Cons.IH [OF db, of "merge1 a d"] by (simp add: chfdw_merge_settings_def)
  with absent show ?case by (auto simp: setting_merge1)
qed

lemma merge_distinct: "distinct_names a \<Longrightarrow> distinct_names (chfdw_merge_settings a b)"
  by (induction b arbitrary: a) (auto simp: chfdw_merge_settings_def merge1_distinct)

section \<open>Version gates\<close>

definition supported_setting :: "ch_server_version option \<Rightarrow> string \<Rightarrow> bool" where
  "supported_setting sv n = (case map_of known_settings n of
       None \<Rightarrow> True
     | Some (maj, mnr) \<Rightarrow> major (conn_version sv) = 0 \<or> chfdw_version_ge (conn_version sv) maj mnr)"

lemma find_index_map_of:
  "map_of xs n = (case find_index (\<lambda>k. fst k = n) xs of None \<Rightarrow> None | Some i \<Rightarrow> Some (snd (xs ! i)))"
  by (induction xs) (auto split: option.splits)

lemma drop_unsupported_filter:
  "fst (drop_unsupported l sv) = filter (\<lambda>d. supported_setting sv (defname d)) l"
proof (induction l)
  case (Cons d l)
  then show ?case
    by (auto simp: supported_setting_def find_index_map_of Let_def split: option.splits prod.splits)
qed simp

lemma setting_filter_name:
  "setting (filter (\<lambda>d. P (defname d)) l) n = (if P n then setting l n else None)"
  by (induction l) auto

lemma distinct_names_filter: "distinct_names l \<Longrightarrow> distinct_names (filter P l)"
  by (induction l) (auto simp: distinct_names_def)

lemma distinct_default_settings: "distinct_names default_settings"
  by (simp add: distinct_names_def default_settings_def defaults_def makeDefElem_def)

lemma table_layers:
  "foldl (\<lambda>s d. if arg d \<noteq> None then overlay s [d] else s) s tables
     = overlay s (filter (\<lambda>d. arg d \<noteq> None) tables)"
  by (induction tables arbitrary: s) (auto simp: overlay_def)

text \<open>The stack of layers of a query: server, tables, session, over the defaults.\<close>

lemma query_settings_list_layers:
  assumes "query_settings_list opts tables ss sv = Inr (kept, reports)"
  shows "\<exists>server. (case chfdw_settings_option opts of None \<Rightarrow> server = []
                     | Some s \<Rightarrow> chfdw_parse_options s = Inr server)
     \<and> kept = filter (\<lambda>d. supported_setting sv (defname d))
         (foldl overlay default_settings [server, filter (\<lambda>d. arg d \<noteq> None) tables, ss])"
proof (cases "chfdw_settings_option opts")
  case None
  with assms have "kept = fst (drop_unsupported
      (overlay (overlay default_settings (filter (\<lambda>d. arg d \<noteq> None) tables)) ss) sv)"
    by (auto simp: query_settings_list_def Let_def table_layers simp del: not_None_eq split: prod.splits)
  with None show ?thesis by (simp add: drop_unsupported_filter overlay_def)
next
  case (Some s)
  with assms obtain server where "chfdw_parse_options s = Inr server"
    and "kept = fst (drop_unsupported
      (overlay (overlay (overlay default_settings server) (filter (\<lambda>d. arg d \<noteq> None) tables)) ss) sv)"
    by (auto simp: query_settings_list_def Let_def table_layers rbind_Inr_iff case_prod_beta
          simp del: not_None_eq)
  with Some show ?thesis by (auto simp: drop_unsupported_filter)
qed

text \<open>Every setting that is sent has C-string name and value, when the inputs do.\<close>

definition sendable :: "DefElem \<Rightarrow> bool" where
  "sendable d \<longleftrightarrow> arg d \<noteq> None \<and> cpair (defelem_pair d)"

lemma sendable_default: "d \<in> set default_settings \<Longrightarrow> sendable d"
  by (auto simp: default_settings_def defaults_def makeDefElem_def sendable_def cpair_def cstring_def)

lemma sendable_parsed:
  "chfdw_parse_options s = Inr l \<Longrightarrow> cstring s \<Longrightarrow> d \<in> set l \<Longrightarrow> sendable d"
  using parse_options_wf [of s l d] parse_options_cpair [of s l d]
  by (auto simp: sendable_def parsed_defelem_def)

lemma setting_pairs:
  "\<forall>d \<in> set l. arg d \<noteq> None \<Longrightarrow> map_option Some (map_of (map defelem_pair l) n) = setting l n"
  by (induction l) (auto simp: defelem_pair_def)

section \<open>Properties\<close>

text \<open>
  C22: Merging the settings of the tables of a query does not depend on the order of the
  tables: it is commutative and associative in the value it gives to every name, keeps
  names distinct, and gives NULL exactly when two tables disagree.
\<close>

theorem merge_settings_order_independent:
  assumes "distinct_names a" and "distinct_names b" and "distinct_names c"
  shows "setting (chfdw_merge_settings a b) n = setting (chfdw_merge_settings b a) n
    \<and> setting (chfdw_merge_settings (chfdw_merge_settings a b) c) n
        = setting (chfdw_merge_settings a (chfdw_merge_settings b c)) n
    \<and> distinct_names (chfdw_merge_settings a b)
    \<and> (\<forall>u v. setting a n = Some (Some u) \<and> setting b n = Some (Some v) \<longrightarrow>
         setting (chfdw_merge_settings a b) n = Some (if u = v then Some u else None))"
  using assms
  by (simp add: merge_setting merge_distinct join_setting_assoc join_setting_comm [of "setting b n"])
     (simp add: join_setting_def)

lemma merge_settings_order_independent_witness:
  "setting (chfdw_merge_settings [makeDefElem ''final'' (Some ''1'')] [makeDefElem ''final'' (Some ''0'')])
     ''final'' = Some None"
proof -
  let ?a = "[makeDefElem ''final'' (Some ''1'')]" and ?b = "[makeDefElem ''final'' (Some ''0'')]"
  have d: "distinct_names ?a" "distinct_names ?b" "distinct_names []"
    by (simp_all add: distinct_names_def)
  have "setting ?a ''final'' = Some (Some ''1'')" "setting ?b ''final'' = Some (Some ''0'')"
    by (simp_all add: makeDefElem_def)
  then show ?thesis using merge_settings_order_independent [OF d, of "''final''"] by fastforce
qed

text \<open>
  C19: The settings sent with a query. With inputs that are C strings and an allocation that
  succeeds, the packed list holds each name once, and the value of a name is that of the
  session, else of the tables (conflicts left out), else of the server option, else the
  built-in default, each layer's last entry winning; a name the server's version does not
  know is not sent at all.
\<close>

theorem query_settings_precedence:
  assumes "session_settings session = Some ss"
    and "query_settings_list opts tables ss sv = Inr (kept, reports)"
    and "\<forall>d \<in> set ss. sendable d" and "\<forall>d \<in> set tables. arg d \<noteq> None \<longrightarrow> sendable d"
    and "\<forall>s. chfdw_settings_option opts = Some s \<longrightarrow> cstring s"
    and "allocate_list pgv alloc (kv_size kept) 2 = Inr buf" and "length buf = kv_size kept"
  shows "\<exists>kv ps server. chfdw_query_settings pgv alloc session opts tables sv = Inr (Some (kv, reports))
    \<and> kv_pairs (Some kv) = Some ps \<and> distinct (map fst ps)
    \<and> (case chfdw_settings_option opts of None \<Rightarrow> server = []
       | Some s \<Rightarrow> chfdw_parse_options s = Inr server)
    \<and> (\<forall>n. map_option Some (map_of ps n) =
         (if \<not> supported_setting sv n then None
          else case setting (rev ss) n of Some v \<Rightarrow> Some v | None \<Rightarrow>
            (case setting (rev (filter (\<lambda>d. arg d \<noteq> None) tables)) n of Some v \<Rightarrow> Some v | None \<Rightarrow>
              (case setting (rev server) n of Some v \<Rightarrow> Some v | None \<Rightarrow>
                 setting default_settings n))))"
proof -
  obtain server where srv: "case chfdw_settings_option opts of None \<Rightarrow> server = []
      | Some s \<Rightarrow> chfdw_parse_options s = Inr server"
    and kept: "kept = filter (\<lambda>d. supported_setting sv (defname d))
         (foldl overlay default_settings [server, filter (\<lambda>d. arg d \<noteq> None) tables, ss])"
    using query_settings_list_layers [OF assms(2)] by blast
  have server: "sendable d" if "d \<in> set server" for d
    using srv that assms(5) by (auto split: option.splits intro: sendable_parsed)
  have send: "sendable d" if "d \<in> set kept" for d
    using that assms(3,4) server sendable_default unfolding kept by (auto dest!: overlay_memD)
  have dist: "distinct_names kept"
    unfolding kept by (intro distinct_names_filter ov.foldl_lay_distinct distinct_default_settings)
  have pairs: "map_option Some (map_of (map defelem_pair kept) n) = setting kept n" for n
    using send by (intro setting_pairs) (auto simp: sendable_def)
  have prec: "setting kept n = (if \<not> supported_setting sv n then None
          else case setting (rev ss) n of Some v \<Rightarrow> Some v | None \<Rightarrow>
            (case setting (rev (filter (\<lambda>d. arg d \<noteq> None) tables)) n of Some v \<Rightarrow> Some v | None \<Rightarrow>
              (case setting (rev server) n of Some v \<Rightarrow> Some v | None \<Rightarrow>
                 setting default_settings n)))" for n
    unfolding kept setting_filter_name ov.foldl_lay_setting by (simp split: option.splits)
  have "kv_pairs (Some (kv_pack (map defelem_pair kept))) = Some (map defelem_pair kept)"
    using send by (intro kv.iterate_build) (auto simp: sendable_def)
  moreover have "distinct (map fst (map defelem_pair kept))"
    using dist by (simp add: distinct_names_def comp_def)
  ultimately show ?thesis
    using new_kv_list_packs [OF assms(6,7)] assms(1,2) srv pairs prec
    by (intro exI [of _ "kv_pack (map defelem_pair kept)"] exI [of _ "map defelem_pair kept"]
          exI [of _ server]) (simp add: chfdw_query_settings_def)
qed

lemma query_settings_precedence_witness:
  "\<exists>kv ps. chfdw_query_settings 170000 zero_alloc None [makeDefElem ''settings'' (Some ''final 0'')] [] None
       = Inr (Some (kv, []))
     \<and> kv_pairs (Some kv) = Some ps \<and> map_of ps ''final'' = Some ''0'' \<and> map_of ps ''join_use_nulls'' = Some ''1''"
proof -
  let ?o = "[makeDefElem ''settings'' (Some ''final 0'')]"
  let ?k = "[makeDefElem ''join_use_nulls'' (Some ''1''), makeDefElem ''group_by_use_nulls'' (Some ''1''),
      makeDefElem ''final'' (Some ''0''), makeDefElem ''transform_null_in'' (Some ''0'')]"
  have s: "session_settings None = Some []" by code_simp
  have q: "query_settings_list ?o [] [] None = Inr (?k, [])" by code_simp
  have c: "chfdw_settings_option ?o = Some ''final 0''" by code_simp
  have p: "chfdw_parse_options ''final 0'' = Inr [makeDefElem ''final'' (Some ''0'')]" by code_simp
  have a: "allocate_list 170000 zero_alloc (kv_size ?k) 2 = Inr (replicate (kv_size ?k) NUL)"
    by (simp add: allocate_list_def zero_alloc_def)
  have sup: "supported_setting None ''final''" "supported_setting None ''join_use_nulls''" by code_simp+
  have d: "setting default_settings ''final'' = Some (Some ''1'')"
    "setting default_settings ''join_use_nulls'' = Some (Some ''1'')" by code_simp+
  have lk: "map_option Some x = Some (Some v) \<Longrightarrow> x = Some v" for x :: "string option" and v
    by (cases x) auto
  obtain kv ps where kv: "chfdw_query_settings 170000 zero_alloc None ?o [] None = Inr (Some (kv, []))"
    and ps: "kv_pairs (Some kv) = Some ps"
    and val: "\<And>n. map_option Some (map_of ps n) = (if \<not> supported_setting None n then None
        else case setting [makeDefElem ''final'' (Some ''0'')] n of Some v \<Rightarrow> Some v
             | None \<Rightarrow> setting default_settings n)"
    using query_settings_precedence [OF s q _ _ _ a] c p by (auto simp: cstring_def)
  have "map_of ps ''final'' = Some ''0''" "map_of ps ''join_use_nulls'' = Some ''1''"
    using val [of "''final''"] val [of "''join_use_nulls''"] sup d by (auto simp: makeDefElem_def intro: lk)
  with kv ps show ?thesis by blast
qed

end
