(* ===== verification/ConnCache.thy ===== *)
theory ConnCache
  imports Options "HOL-Library.AList"
begin

text \<open>
  The connection cache (\<open>src/connection.c\<close>): cached connections keyed by user mapping,
  private connections for scans that find the cached one busy, the leases that hand
  connections out, and the invalidation and transaction-end callbacks.

  A connection handle is a number; NULL is \<open>None\<close>. The state records which handles are
  open and whether a handle that is not open was ever disconnected. Catalog lookups, the
  drivers' connect functions and the broken test are parameters (\<open>conn_env\<close>): they may
  give any answer, and differ from call to call. The drivers promise only that a new handle
  is not one of the open ones, so a freed handle may come back.
\<close>

section \<open>Data\<close>

datatype driver_methods = http_methods | binary_methods

record ch_connection =
  methods :: driver_methods
  conn :: "nat option"

record ConnCacheEntry =
  gate :: ch_connection
  invalidated :: bool
  busy :: bool
  server_hashvalue :: "32 word"
  mapping_hashvalue :: "32 word"

record ch_scan_connection =
  sc_gate :: ch_connection
  sc_entry :: "Oid option"
  sc_lease :: "nat option"

record ch_lease =
  sconn :: ch_scan_connection
  generation :: "64 word"
  released :: bool

text \<open>
  The module's static state. Entries are never removed, so a pointer to one is its key;
  a lease is addressed by its position in \<open>leases\<close>.
\<close>

record conn_cache =
  ConnectionHash :: "(Oid \<times> ConnCacheEntry) list option"
  PrivateConnections :: "ch_connection list"
  lease_generation :: "64 word"
  leases :: "ch_lease list"
  open_conns :: "nat list"
  bad_close :: bool

record UserMapping =
  umid :: Oid
  serverid :: Oid
  um_options :: "DefElem list"

record 'enc conn_env =
  foreign_server :: "Oid \<Rightarrow> DefElem list pg"
  server_hash :: "Oid \<Rightarrow> 32 word"
  mapping_hash :: "Oid \<Rightarrow> 32 word"
  parse_encoding :: "string \<Rightarrow> 'enc option"
  enc_fail :: 'enc
  malloc_ok :: bool
  fdw_options_state :: "ChFdwOption list option"
  http_connect :: "'enc ch_connection_details \<Rightarrow> nat list \<Rightarrow> nat pg"
  binary_connect :: "'enc ch_connection_details \<Rightarrow> nat list \<Rightarrow> nat pg"
  broken :: "nat \<Rightarrow> bool"

datatype XactEvent =
    XACT_EVENT_COMMIT | XACT_EVENT_PARALLEL_COMMIT | XACT_EVENT_ABORT | XACT_EVENT_PARALLEL_ABORT
  | XACT_EVENT_PREPARE | XACT_EVENT_PRE_COMMIT | XACT_EVENT_PARALLEL_PRE_COMMIT | XACT_EVENT_PRE_PREPARE

datatype syscache = FOREIGNSERVEROID | USERMAPPINGOID

definition conn_cache_init :: conn_cache where
  "conn_cache_init = \<lparr>ConnectionHash = None, PrivateConnections = [], lease_generation = 0,
     leases = [], open_conns = [], bad_close = False\<rparr>"

definition entries :: "conn_cache \<Rightarrow> (Oid \<times> ConnCacheEntry) list" where
  "entries st = (case ConnectionHash st of None \<Rightarrow> [] | Some h \<Rightarrow> h)"

section \<open>Operations\<close>

text \<open>The default details of \<open>clickhouse_connect\<close>.\<close>

definition connect_defaults :: "'enc \<Rightarrow> 'enc ch_connection_details" where
  "connect_defaults fail = \<lparr>driver = ''binary'', host = Some ''127.0.0.1'', port = 0, username = None,
     password = None, dbname = Some ''default'', compression = None, tls = CH_TLS_AUTO,
     min_tls_version = CH_TLS_DEFAULT, encoding_check = fail\<rparr>"

definition connect_details ::
    "'enc conn_env \<Rightarrow> DefElem list \<Rightarrow> DefElem list \<Rightarrow> 'enc ch_connection_details pg" where
  "connect_details env server_options user_options =
     rbind (chfdw_extract_options (parse_encoding env) (malloc_ok env) (fdw_options_state env)
              (\<lambda>_. True) server_options (connect_defaults (enc_fail env)))
       (chfdw_extract_options (parse_encoding env) (malloc_ok env) (fdw_options_state env)
          (\<lambda>_. True) user_options)"

definition clickhouse_connect ::
    "'enc conn_env \<Rightarrow> DefElem list \<Rightarrow> DefElem list \<Rightarrow> conn_cache \<Rightarrow> conn_cache \<times> ch_connection pg" where
  "clickhouse_connect env server_options user_options st =
     (case connect_details env server_options user_options of
        Inl e \<Rightarrow> (st, Inl e)
      | Inr details \<Rightarrow>
          (let opened = (\<lambda>m r. case r of
                   Inl e \<Rightarrow> (st, Inl e)
                 | Inr c \<Rightarrow> (st\<lparr>open_conns := c # open_conns st\<rparr>, Inr \<lparr>methods = m, conn = Some c\<rparr>))
           in if driver details = ''http'' then opened http_methods (http_connect env details (open_conns st))
              else if driver details = ''binary'' then
                opened binary_methods (binary_connect env details (open_conns st))
              else (st, Inl (Ereport ERRCODE_FDW_INVALID_OPTION_NAME
                               ''invalid ClickHouse connection driver'' []))))"

text \<open>\<open>methods->disconnect(conn)\<close>.\<close>

definition disconnect :: "nat \<Rightarrow> conn_cache \<Rightarrow> conn_cache" where
  "disconnect c st =
     (if c \<in> set (open_conns st) then st\<lparr>open_conns := remove1 c (open_conns st)\<rparr>
      else st\<lparr>bad_close := True\<rparr>)"

definition put_entry :: "Oid \<Rightarrow> ConnCacheEntry \<Rightarrow> conn_cache \<Rightarrow> conn_cache" where
  "put_entry k e st = st\<lparr>ConnectionHash := Some (AList.update k e (entries st))\<rparr>"

definition null_gate :: "ch_connection \<Rightarrow> ch_connection" where
  "null_gate g = g\<lparr>conn := None\<rparr>"

text \<open>
  \<open>hash_search(..., HASH_ENTER, ...)\<close>: a new entry has \<open>conn\<close> and \<open>busy\<close> cleared. Its other
  fields are not read while \<open>conn\<close> is NULL.
\<close>

definition enter_entry :: "Oid \<Rightarrow> conn_cache \<Rightarrow> ConnCacheEntry" where
  "enter_entry k st = (case map_of (entries st) k of
       Some e \<Rightarrow> e
     | None \<Rightarrow> \<lparr>gate = \<lparr>methods = http_methods, conn = None\<rparr>, invalidated = False, busy = False,
                 server_hashvalue = 0, mapping_hashvalue = 0\<rparr>)"

text \<open>One of the two tests that close the entry's idle connection before it is reused.\<close>

definition close_idle ::
    "(ConnCacheEntry \<Rightarrow> nat \<Rightarrow> bool) \<Rightarrow> ConnCacheEntry \<times> conn_cache \<Rightarrow> ConnCacheEntry \<times> conn_cache" where
  "close_idle test es = (case es of (e, st) \<Rightarrow>
     (case conn (gate e) of
        None \<Rightarrow> (e, st)
      | Some c \<Rightarrow> if \<not> busy e \<and> test e c then (e\<lparr>gate := null_gate (gate e)\<rparr>, disconnect c st) else (e, st)))"

definition test_invalidated :: "ConnCacheEntry \<Rightarrow> nat \<Rightarrow> bool" where
  "test_invalidated e c \<longleftrightarrow> invalidated e"

text \<open>Only the binary driver has an \<open>is_broken\<close> method.\<close>

definition test_broken :: "'enc conn_env \<Rightarrow> ConnCacheEntry \<Rightarrow> nat \<Rightarrow> bool" where
  "test_broken env e c \<longleftrightarrow> methods (gate e) = binary_methods \<and> broken env c"

definition get_connection_entry ::
    "'enc conn_env \<Rightarrow> UserMapping \<Rightarrow> conn_cache \<Rightarrow> conn_cache \<times> ConnCacheEntry pg" where
  "get_connection_entry env user st =
     (let k = umid user;
          (e, st) = close_idle (test_broken env) (close_idle test_invalidated (enter_entry k st, st))
      in if conn (gate e) \<noteq> None then (put_entry k e st, Inr e)
         else (case foreign_server env (serverid user) of
                 Inl err \<Rightarrow> (put_entry k e st, Inl err)
               | Inr opts \<Rightarrow>
                   (let e = e\<lparr>invalidated := False, server_hashvalue := server_hash env (serverid user),
                              mapping_hashvalue := mapping_hash env k\<rparr>
                    in case clickhouse_connect env opts (um_options user) st of
                         (st, Inl err) \<Rightarrow> (put_entry k e st, Inl err)
                       | (st, Inr g) \<Rightarrow> (put_entry k (e\<lparr>gate := g\<rparr>) st, Inr (e\<lparr>gate := g\<rparr>)))))"

text \<open>Register a new lease in the current memory context.\<close>

definition new_lease :: "ch_connection \<Rightarrow> Oid option \<Rightarrow> conn_cache \<Rightarrow> conn_cache \<times> ch_scan_connection pg" where
  "new_lease g k st =
     (let sc = \<lparr>sc_gate = g, sc_entry = k, sc_lease = Some (length (leases st))\<rparr>
      in (st\<lparr>leases := leases st @ [\<lparr>sconn = sc, generation = lease_generation st, released = False\<rparr>]\<rparr>,
          Inr sc))"

definition chfdw_get_scan_connection ::
    "'enc conn_env \<Rightarrow> UserMapping \<Rightarrow> conn_cache \<Rightarrow> conn_cache \<times> ch_scan_connection pg" where
  "chfdw_get_scan_connection env user st =
     (case get_connection_entry env user st of
        (st, Inl err) \<Rightarrow> (st, Inl err)
      | (st, Inr e) \<Rightarrow>
          if \<not> busy e then
            new_lease (gate e) (Some (umid user)) (put_entry (umid user) (e\<lparr>busy := True\<rparr>) st)
          else (case foreign_server env (serverid user) of
                  Inl err \<Rightarrow> (st, Inl err)
                | Inr opts \<Rightarrow>
                    (case clickhouse_connect env opts (um_options user) st of
                       (st, Inl err) \<Rightarrow> (st, Inl err)
                     | (st, Inr held) \<Rightarrow>
                         new_lease held None (st\<lparr>PrivateConnections := PrivateConnections st @ [held]\<rparr>))))"

definition mark_released :: "nat \<Rightarrow> conn_cache \<Rightarrow> conn_cache" where
  "mark_released l st = st\<lparr>leases := (leases st)[l := (leases st ! l)\<lparr>released := True\<rparr>]\<rparr>"

text \<open>The part of \<open>chfdw_release_scan_connection\<close> after the lease test.\<close>

definition give_back :: "ch_scan_connection \<Rightarrow> conn_cache \<Rightarrow> conn_cache" where
  "give_back sc st =
     (case sc_entry sc of
        Some k \<Rightarrow> (case map_of (entries st) k of
                     None \<Rightarrow> st
                   | Some e \<Rightarrow> put_entry k (e\<lparr>busy := False\<rparr>) st)
      | None \<Rightarrow>
          (case find_index (\<lambda>h. conn h = conn (sc_gate sc)) (PrivateConnections st) of
             None \<Rightarrow> st
           | Some i \<Rightarrow>
               (let held = PrivateConnections st ! i;
                    st = st\<lparr>PrivateConnections := take i (PrivateConnections st) @ drop (Suc i) (PrivateConnections st)\<rparr>
                in case conn held of None \<Rightarrow> st | Some c \<Rightarrow> disconnect c st)))"

definition chfdw_release_scan_connection :: "ch_scan_connection \<Rightarrow> conn_cache \<Rightarrow> conn_cache" where
  "chfdw_release_scan_connection sc st =
     (case sc_lease sc of
        None \<Rightarrow> give_back sc st
      | Some l \<Rightarrow> if released (leases st ! l) then st else give_back sc (mark_released l st))"

text \<open>The reset callback of the memory context the lease was taken in.\<close>

definition release_lease :: "nat \<Rightarrow> conn_cache \<Rightarrow> conn_cache" where
  "release_lease l st =
     (if generation (leases st ! l) = lease_generation st
      then chfdw_release_scan_connection (sconn (leases st ! l)) st else st)"

text \<open>
  \<open>chfdw_get_server_version\<close>: both drivers have a \<open>server_version\<close> method, whose result is the
  parameter \<open>version_of\<close>.
\<close>

definition chfdw_get_server_version ::
    "'enc conn_env \<Rightarrow> (ch_connection \<Rightarrow> ch_server_version pg) \<Rightarrow> UserMapping \<Rightarrow> conn_cache
      \<Rightarrow> conn_cache \<times> ch_server_version pg" where
  "chfdw_get_server_version env version_of user st =
     (case get_connection_entry env user st of
        (st, Inl err) \<Rightarrow> (st, Inl err)
      | (st, Inr e) \<Rightarrow> (st, version_of (gate e)))"

definition inval_entry :: "syscache \<Rightarrow> 32 word \<Rightarrow> ConnCacheEntry \<Rightarrow> ConnCacheEntry" where
  "inval_entry cacheid hashvalue e =
     (if conn (gate e) = None then e
      else if hashvalue = 0 \<or> (cacheid = FOREIGNSERVEROID \<and> server_hashvalue e = hashvalue)
              \<or> (cacheid = USERMAPPINGOID \<and> mapping_hashvalue e = hashvalue)
      then e\<lparr>invalidated := True\<rparr> else e)"

definition chfdw_inval_callback :: "syscache \<Rightarrow> 32 word \<Rightarrow> conn_cache \<Rightarrow> conn_cache" where
  "chfdw_inval_callback cacheid hashvalue st =
     st\<lparr>ConnectionHash := map_option (map (\<lambda>(k, e). (k, inval_entry cacheid hashvalue e))) (ConnectionHash st)\<rparr>"

text \<open>
  The two loops of the transaction-end callback: which handles they disconnect, in order,
  and what becomes of an entry.
\<close>

definition opt_list :: "'a option \<Rightarrow> 'a list" where
  "opt_list x = (case x of None \<Rightarrow> [] | Some y \<Rightarrow> [y])"

definition xact_entry :: "ConnCacheEntry \<Rightarrow> ConnCacheEntry" where
  "xact_entry e =
     (let e = e\<lparr>busy := False\<rparr>
      in if conn (gate e) \<noteq> None \<and> invalidated e then e\<lparr>gate := null_gate (gate e)\<rparr> else e)"

definition xact_closes :: "ConnCacheEntry \<Rightarrow> nat list" where
  "xact_closes e = (if invalidated e then opt_list (conn (gate e)) else [])"

definition xact_end :: "XactEvent \<Rightarrow> bool" where
  "xact_end event \<longleftrightarrow> event \<in> {XACT_EVENT_COMMIT, XACT_EVENT_ABORT, XACT_EVENT_PARALLEL_COMMIT,
     XACT_EVENT_PARALLEL_ABORT}"

definition chfdw_xact_callback :: "XactEvent \<Rightarrow> conn_cache \<Rightarrow> conn_cache" where
  "chfdw_xact_callback event st =
     (if \<not> xact_end event then st
      else
        (let st = fold disconnect (concat (map (\<lambda>held. opt_list (conn held)) (PrivateConnections st))) st;
             st = st\<lparr>PrivateConnections := [], lease_generation := lease_generation st + 1\<rparr>
         in case ConnectionHash st of
              None \<Rightarrow> st
            | Some h \<Rightarrow>
                (fold disconnect (concat (map (\<lambda>(k, e). xact_closes e) h)) st)
                  \<lparr>ConnectionHash := Some (map (\<lambda>(k, e). (k, xact_entry e)) h)\<rparr>))"

section \<open>The cache as a state machine\<close>

text \<open>
  What the module relies on: a driver's new handle is not one that is open, a scan releases
  its connection in the transaction that took it, and fewer than \<open>2 ^ 64\<close> transactions end
  in the life of a backend.
\<close>

definition fresh_handles :: "'enc conn_env \<Rightarrow> bool" where
  "fresh_handles env \<longleftrightarrow> (\<forall>d os c. http_connect env d os = Inr c \<longrightarrow> c \<notin> set os)
     \<and> (\<forall>d os c. binary_connect env d os = Inr c \<longrightarrow> c \<notin> set os)"

definition active :: "64 word \<Rightarrow> ch_lease \<Rightarrow> bool" where
  "active gen l \<longleftrightarrow> \<not> released l \<and> generation l = gen"

inductive conn_step :: "conn_cache \<Rightarrow> conn_cache \<Rightarrow> bool" where
  step_get: "fresh_handles (env :: unit conn_env) \<Longrightarrow>
     conn_step st (fst (chfdw_get_scan_connection env user st))"
| step_version: "fresh_handles (env :: unit conn_env) \<Longrightarrow>
     conn_step st (fst (chfdw_get_server_version env version_of user st))"
| step_release: "l < length (leases st) \<Longrightarrow> generation (leases st ! l) = lease_generation st \<Longrightarrow>
     conn_step st (chfdw_release_scan_connection (sconn (leases st ! l)) st)"
| step_reset: "l < length (leases st) \<Longrightarrow> conn_step st (release_lease l st)"
| step_inval: "conn_step st (chfdw_inval_callback cacheid hashvalue st)"
| step_xact: "lease_generation st + 1 \<noteq> 0 \<Longrightarrow> conn_step st (chfdw_xact_callback event st)"

abbreviation conn_reach :: "conn_cache \<Rightarrow> bool" where
  "conn_reach \<equiv> reach (\<lambda>st. st = conn_cache_init) conn_step"

section \<open>Invariant\<close>

text \<open>The handle an entry keeps, and the entries as a map.\<close>

definition lookup :: "conn_cache \<Rightarrow> Oid \<Rightarrow> ConnCacheEntry option" where
  "lookup st k = map_of (entries st) k"

definition cached :: "(Oid \<Rightarrow> ConnCacheEntry option) \<Rightarrow> Oid \<Rightarrow> nat \<Rightarrow> bool" where
  "cached L k c \<longleftrightarrow> (\<exists>e. L k = Some e \<and> conn (gate e) = Some c)"

text \<open>
  Ownership of handles: every open handle has exactly one owner, an entry or a cell of the
  private list, and every owned handle is open.
\<close>

definition conns_ok ::
    "(Oid \<Rightarrow> ConnCacheEntry option) \<Rightarrow> nat option list \<Rightarrow> nat list \<Rightarrow> bool" where
  "conns_ok L P opn \<longleftrightarrow>
     (\<forall>k k' c. cached L k c \<and> cached L k' c \<longrightarrow> k = k')
   \<and> distinct P \<and> None \<notin> set P
   \<and> (\<forall>k c. cached L k c \<longrightarrow> Some c \<notin> set P)
   \<and> (\<forall>c. c \<in> set opn \<longleftrightarrow> (\<exists>k. cached L k c) \<or> Some c \<in> set P)
   \<and> distinct opn"

text \<open>What an active lease holds.\<close>

definition holds ::
    "(Oid \<Rightarrow> ConnCacheEntry option) \<Rightarrow> ch_connection list \<Rightarrow> ch_scan_connection \<Rightarrow> bool" where
  "holds L pcs sc \<longleftrightarrow> conn (sc_gate sc) \<noteq> None \<and>
     (case sc_entry sc of
        Some k \<Rightarrow> (\<exists>e. L k = Some e \<and> busy e \<and> gate e = sc_gate sc)
      | None \<Rightarrow> sc_gate sc \<in> set pcs)"

definition leases_ok ::
    "(Oid \<Rightarrow> ConnCacheEntry option) \<Rightarrow> ch_connection list \<Rightarrow> 64 word \<Rightarrow> ch_lease list \<Rightarrow> bool" where
  "leases_ok L pcs gen ls \<longleftrightarrow>
     (\<forall>i < length ls. sc_lease (sconn (ls ! i)) = Some i \<and> unat (generation (ls ! i)) \<le> unat gen
        \<and> (active gen (ls ! i) \<longrightarrow> holds L pcs (sconn (ls ! i))))
   \<and> (\<forall>i < length ls. \<forall>j < length ls. i \<noteq> j \<and> active gen (ls ! i) \<and> active gen (ls ! j)
        \<longrightarrow> conn (sc_gate (sconn (ls ! i))) \<noteq> conn (sc_gate (sconn (ls ! j))))
   \<and> (\<forall>k e. L k = Some e \<and> busy e \<longrightarrow>
        (\<exists>i < length ls. active gen (ls ! i) \<and> sc_entry (sconn (ls ! i)) = Some k))
   \<and> (\<forall>p \<in> set pcs. \<exists>i < length ls. active gen (ls ! i) \<and> sc_entry (sconn (ls ! i)) = None
        \<and> sc_gate (sconn (ls ! i)) = p)"

definition cache_inv :: "conn_cache \<Rightarrow> bool" where
  "cache_inv st \<longleftrightarrow> distinct (map fst (entries st)) \<and> \<not> bad_close st
     \<and> conns_ok (lookup st) (map conn (PrivateConnections st)) (open_conns st)
     \<and> leases_ok (lookup st) (PrivateConnections st) (lease_generation st) (leases st)"

subsection \<open>Effect of the primitives on the parts of the state\<close>

lemma entries_put [simp]: "entries (put_entry k e st) = AList.update k e (entries st)"
  by (simp add: put_entry_def entries_def)

lemma lookup_put [simp]: "lookup (put_entry k e st) = (lookup st)(k \<mapsto> e)"
  by (rule ext) (simp add: lookup_def update_conv')

lemma put_entry_fields [simp]:
  "PrivateConnections (put_entry k e st) = PrivateConnections st"
  "lease_generation (put_entry k e st) = lease_generation st"
  "leases (put_entry k e st) = leases st"
  "open_conns (put_entry k e st) = open_conns st"
  "bad_close (put_entry k e st) = bad_close st"
  by (simp_all add: put_entry_def)

lemma entries_cong [simp]:
  "entries (st\<lparr>open_conns := os\<rparr>) = entries st" "entries (st\<lparr>leases := ls\<rparr>) = entries st"
  "entries (st\<lparr>PrivateConnections := ps\<rparr>) = entries st" "entries (st\<lparr>bad_close := b\<rparr>) = entries st"
  "entries (st\<lparr>lease_generation := g\<rparr>) = entries st"
  by (simp_all add: entries_def)

lemma lookup_cong [simp]:
  "lookup (st\<lparr>open_conns := os\<rparr>) = lookup st" "lookup (st\<lparr>leases := ls\<rparr>) = lookup st"
  "lookup (st\<lparr>PrivateConnections := ps\<rparr>) = lookup st" "lookup (st\<lparr>bad_close := b\<rparr>) = lookup st"
  "lookup (st\<lparr>lease_generation := g\<rparr>) = lookup st"
  by (simp_all add: lookup_def fun_eq_iff)

lemma disconnect_open [simp]:
  "c \<in> set (open_conns st) \<Longrightarrow> disconnect c st = st\<lparr>open_conns := remove1 c (open_conns st)\<rparr>"
  by (simp add: disconnect_def)

lemma null_gate_conn [simp]: "conn (null_gate g) = None"
  by (simp add: null_gate_def)

lemma enter_entry_lookup:
  "lookup st k = Some e \<Longrightarrow> enter_entry k st = e"
  "lookup st k = None \<Longrightarrow> conn (gate (enter_entry k st)) = None \<and> \<not> busy (enter_entry k st)"
  by (simp_all add: enter_entry_def lookup_def)

subsection \<open>Ownership\<close>

lemma cached_upd:
  "cached (L(k \<mapsto> e)) k' c \<longleftrightarrow> (if k' = k then conn (gate e) = Some c else cached L k' c)"
  by (simp add: cached_def)

lemma conns_ok_same:
  assumes "conns_ok L P opn" and "L k = Some e" and "conn (gate e') = conn (gate e)"
  shows "conns_ok (L(k \<mapsto> e')) P opn"
proof -
  have "cached (L(k \<mapsto> e')) = cached L"
    using assms(2,3) by (intro ext) (auto simp: cached_upd cached_def)
  with assms(1) show ?thesis by (simp add: conns_ok_def)
qed

lemma conns_ok_null:
  assumes "conns_ok L P opn" and "\<nexists>c. cached L k c" and "conn (gate e') = None"
  shows "conns_ok (L(k \<mapsto> e')) P opn"
proof -
  have "cached (L(k \<mapsto> e')) = cached L"
    using assms(2,3) by (intro ext) (auto simp: cached_upd)
  with assms(1) show ?thesis by (simp add: conns_ok_def)
qed

lemma conns_okD:
  assumes "conns_ok L P opn"
  shows "cached L k c \<Longrightarrow> cached L k' c \<Longrightarrow> k = k'" "distinct P" "None \<notin> set P"
    "cached L k c \<Longrightarrow> Some c \<notin> set P" "c \<in> set opn \<longleftrightarrow> (\<exists>k. cached L k c) \<or> Some c \<in> set P"
    "distinct opn"
  using assms unfolding conns_ok_def by blast+

lemma conns_ok_close:
  assumes ok: "conns_ok L P opn" and c: "cached L k c" and e': "conn (gate e') = None"
  shows "conns_ok (L(k \<mapsto> e')) P (remove1 c opn) \<and> c \<in> set opn"
proof -
  note D = conns_okD [OF ok]
  have u: "cached (L(k \<mapsto> e')) k' c' \<longleftrightarrow> k' \<noteq> k \<and> cached L k' c'" for k' c'
    using e' by (simp add: cached_upd)
  have k: "cached L k c' \<Longrightarrow> c' = c" for c' using c by (auto simp: cached_def)
  have "c' \<in> set (remove1 c opn) \<longleftrightarrow> (\<exists>k'. k' \<noteq> k \<and> cached L k' c') \<or> Some c' \<in> set P" for c'
  proof (cases "c' = c")
    case True
    then show ?thesis using D(1) [OF c] D(4) [OF c] D(6) by auto
  next
    case False
    then have "\<not> cached L k c'" using k by blast
    with False show ?thesis using D(5) [of c'] by auto
  qed
  then show ?thesis using D c unfolding conns_ok_def u by auto
qed

lemma conns_ok_open:
  assumes ok: "conns_ok L P opn" and k: "\<nexists>c. cached L k c" and c: "c \<notin> set opn"
    and e': "conn (gate e') = Some c"
  shows "conns_ok (L(k \<mapsto> e')) P (c # opn)"
proof -
  note D = conns_okD [OF ok]
  have u: "cached (L(k \<mapsto> e')) k' c' \<longleftrightarrow> k' = k \<and> c' = c \<or> cached L k' c'" for k' c'
    using e' k by (auto simp: cached_upd)
  show ?thesis using D k c unfolding conns_ok_def u by auto
qed

lemma conns_ok_private_open:
  assumes "conns_ok L P opn" and "c \<notin> set opn"
  shows "conns_ok L (P @ [Some c]) (c # opn)"
  using assms unfolding conns_ok_def by simp metis

lemma conns_ok_private_close:
  assumes "conns_ok L (P1 @ Some c # P2) opn"
  shows "conns_ok L (P1 @ P2) (remove1 c opn) \<and> c \<in> set opn"
  using assms unfolding conns_ok_def by auto

subsection \<open>Leases\<close>

lemma leases_okD:
  assumes "leases_ok L pcs gen ls"
  shows "i < length ls \<Longrightarrow> sc_lease (sconn (ls ! i)) = Some i"
    "i < length ls \<Longrightarrow> unat (generation (ls ! i)) \<le> unat gen"
    "i < length ls \<Longrightarrow> active gen (ls ! i) \<Longrightarrow> holds L pcs (sconn (ls ! i))"
    "i < length ls \<Longrightarrow> j < length ls \<Longrightarrow> i \<noteq> j \<Longrightarrow> active gen (ls ! i) \<Longrightarrow> active gen (ls ! j)
       \<Longrightarrow> conn (sc_gate (sconn (ls ! i))) \<noteq> conn (sc_gate (sconn (ls ! j)))"
    "L k = Some e \<Longrightarrow> busy e \<Longrightarrow> \<exists>i < length ls. active gen (ls ! i) \<and> sc_entry (sconn (ls ! i)) = Some k"
    "p \<in> set pcs \<Longrightarrow> \<exists>i < length ls. active gen (ls ! i) \<and> sc_entry (sconn (ls ! i)) = None
       \<and> sc_gate (sconn (ls ! i)) = p"
  using assms unfolding leases_ok_def by blast+

lemma leases_okI:
  assumes "\<And>i. i < length ls \<Longrightarrow> sc_lease (sconn (ls ! i)) = Some i"
    and "\<And>i. i < length ls \<Longrightarrow> unat (generation (ls ! i)) \<le> unat gen"
    and "\<And>i. i < length ls \<Longrightarrow> active gen (ls ! i) \<Longrightarrow> holds L pcs (sconn (ls ! i))"
    and "\<And>i j. i < length ls \<Longrightarrow> j < length ls \<Longrightarrow> i \<noteq> j \<Longrightarrow> active gen (ls ! i) \<Longrightarrow> active gen (ls ! j)
       \<Longrightarrow> conn (sc_gate (sconn (ls ! i))) \<noteq> conn (sc_gate (sconn (ls ! j)))"
    and "\<And>k e. L k = Some e \<Longrightarrow> busy e \<Longrightarrow>
       \<exists>i < length ls. active gen (ls ! i) \<and> sc_entry (sconn (ls ! i)) = Some k"
    and "\<And>p. p \<in> set pcs \<Longrightarrow> \<exists>i < length ls. active gen (ls ! i) \<and> sc_entry (sconn (ls ! i)) = None
       \<and> sc_gate (sconn (ls ! i)) = p"
  shows "leases_ok L pcs gen ls"
  unfolding leases_ok_def using assms by blast

text \<open>A held handle has one of the two owners, which is how exclusion follows from ownership.\<close>

lemma holds_owner:
  "holds L pcs sc \<Longrightarrow> \<exists>c. conn (sc_gate sc) = Some c
     \<and> ((\<exists>k. sc_entry sc = Some k \<and> cached L k c) \<or> sc_entry sc = None \<and> Some c \<in> set (map conn pcs))"
  by (force simp: holds_def cached_def split: option.splits)

lemma holds_upd_other:
  "holds L pcs sc \<Longrightarrow> sc_entry sc \<noteq> Some k \<Longrightarrow> holds (L(k \<mapsto> e')) pcs sc"
  by (auto simp: holds_def split: option.splits)

lemma leases_ok_put_idle:
  assumes ok: "leases_ok L pcs gen ls" and idle: "\<And>e. L k = Some e \<Longrightarrow> \<not> busy e" and "\<not> busy e'"
  shows "leases_ok (L(k \<mapsto> e')) pcs gen ls"
proof -
  note D = leases_okD [OF ok]
  have other: "sc_entry (sconn (ls ! i)) \<noteq> Some k" if "i < length ls" "active gen (ls ! i)" for i
    using D(3) [OF that] idle by (auto simp: holds_def)
  show ?thesis
    by (rule leases_okI) (use D assms(3) other holds_upd_other in \<open>auto split: if_splits\<close>)
qed

lemma leases_ok_put_same:
  assumes ok: "leases_ok L pcs gen ls" and k: "L k = Some e" and same: "gate e' = gate e" "busy e' = busy e"
  shows "leases_ok (L(k \<mapsto> e')) pcs gen ls"
proof -
  note D = leases_okD [OF ok]
  have "holds (L(k \<mapsto> e')) pcs sc \<longleftrightarrow> holds L pcs sc" for sc
    using k same by (auto simp: holds_def split: option.splits)
  then show ?thesis
    by (intro leases_okI) (use D k same in \<open>auto split: if_splits\<close>)
qed

lemma leases_ok_append:
  assumes ok: "leases_ok L pcs gen ls" and new: "generation l = gen" "\<not> released l"
    "sc_lease (sconn l) = Some (length ls)" "holds L' pcs' (sconn l)"
    and keep: "\<And>sc. holds L pcs sc \<Longrightarrow> holds L' pcs' sc \<and> conn (sc_gate sc) \<noteq> conn (sc_gate (sconn l))"
    and busy: "\<And>k e. L' k = Some e \<Longrightarrow> busy e \<Longrightarrow> sc_entry (sconn l) = Some k \<or> (\<exists>e. L k = Some e \<and> busy e)"
    and priv: "\<And>p. p \<in> set pcs' \<Longrightarrow> sc_entry (sconn l) = None \<and> sc_gate (sconn l) = p \<or> p \<in> set pcs"
  shows "leases_ok L' pcs' gen (ls @ [l])"
proof -
  note D = leases_okD [OF ok]
  have old: "\<exists>i < length (ls @ [l]). P ((ls @ [l]) ! i)" if "\<exists>i < length ls. P (ls ! i)" for P
    using that by (auto simp: nth_append intro: less_SucI)
  have last: "\<exists>i < length (ls @ [l]). P ((ls @ [l]) ! i)" if "P l" for P
    using that by (intro exI [of _ "length ls"]) simp
  have nth: "(ls @ [l]) ! i = (if i = length ls then l else ls ! i)" if "i < length (ls @ [l])" for i
    using that by (simp add: nth_append)
  have act: "active gen l" using new by (simp add: active_def)
  have keep': "holds L' pcs' (sconn (ls ! i)) \<and> conn (sc_gate (sconn (ls ! i))) \<noteq> conn (sc_gate (sconn l))"
    if "i < length ls" "active gen (ls ! i)" for i using keep D(3) that by blast
  show ?thesis
  proof (rule leases_okI)
    fix k e assume "L' k = Some e" "busy e"
    then show "\<exists>i < length (ls @ [l]). active gen ((ls @ [l]) ! i) \<and> sc_entry (sconn ((ls @ [l]) ! i)) = Some k"
      using busy [of k e] D(5) [of k] act old [of "\<lambda>x. active gen x \<and> sc_entry (sconn x) = Some k"]
        last [of "\<lambda>x. active gen x \<and> sc_entry (sconn x) = Some k"] by blast
  next
    fix p assume "p \<in> set pcs'"
    then show "\<exists>i < length (ls @ [l]). active gen ((ls @ [l]) ! i) \<and> sc_entry (sconn ((ls @ [l]) ! i)) = None
        \<and> sc_gate (sconn ((ls @ [l]) ! i)) = p"
      using priv [of p] D(6) [of p] act
        old [of "\<lambda>x. active gen x \<and> sc_entry (sconn x) = None \<and> sc_gate (sconn x) = p"]
        last [of "\<lambda>x. active gen x \<and> sc_entry (sconn x) = None \<and> sc_gate (sconn x) = p"] by blast
  next
    fix i j assume "i < length (ls @ [l])" "j < length (ls @ [l])" "i \<noteq> j"
      "active gen ((ls @ [l]) ! i)" "active gen ((ls @ [l]) ! j)"
    then show "conn (sc_gate (sconn ((ls @ [l]) ! i))) \<noteq> conn (sc_gate (sconn ((ls @ [l]) ! j)))"
      using D(4) [of i j] keep' [of i] keep' [of j] by (auto simp: nth split: if_splits)
  qed (use D new keep' in \<open>auto simp: nth split: if_splits\<close>)
qed

lemma leases_ok_drop:
  assumes ok: "leases_ok L pcs gen ls" and i: "i < length ls" "active gen (ls ! i)"
    and keep: "\<And>sc. holds L pcs sc \<Longrightarrow> conn (sc_gate sc) \<noteq> conn (sc_gate (sconn (ls ! i))) \<Longrightarrow> holds L' pcs' sc"
    and busy: "\<And>k e. L' k = Some e \<Longrightarrow> busy e \<Longrightarrow>
       (\<exists>e. L k = Some e \<and> busy e) \<and> sc_entry (sconn (ls ! i)) \<noteq> Some k"
    and priv: "\<And>p. p \<in> set pcs' \<Longrightarrow> p \<in> set pcs \<and>
       \<not> (sc_entry (sconn (ls ! i)) = None \<and> sc_gate (sconn (ls ! i)) = p)"
  shows "leases_ok L' pcs' gen (ls[i := (ls ! i)\<lparr>released := True\<rparr>])"
proof -
  note D = leases_okD [OF ok]
  let ?ls = "ls[i := (ls ! i)\<lparr>released := True\<rparr>]"
  have act: "active gen (?ls ! j) \<longleftrightarrow> j \<noteq> i \<and> active gen (ls ! j)" if "j < length ls" for j
    using that i by (cases "j = i") (simp_all add: active_def)
  have sc: "sconn (?ls ! j) = sconn (ls ! j)" "generation (?ls ! j) = generation (ls ! j)" if "j < length ls" for j
    using that i by (cases "j = i"; simp)+
  have other: "\<exists>j < length ?ls. active gen (?ls ! j) \<and> P (sconn (?ls ! j))"
    if "\<exists>j < length ls. active gen (ls ! j) \<and> P (sconn (ls ! j))" "\<not> P (sconn (ls ! i))" for P
    using that act sc by (metis length_list_update)
  show ?thesis
  proof (rule leases_okI)
    fix k e assume "L' k = Some e" "busy e"
    then show "\<exists>j < length ?ls. active gen (?ls ! j) \<and> sc_entry (sconn (?ls ! j)) = Some k"
      using busy [of k e] D(5) [of k] other [of "\<lambda>s. sc_entry s = Some k"] by blast
  next
    fix p assume "p \<in> set pcs'"
    then show "\<exists>j < length ?ls. active gen (?ls ! j) \<and> sc_entry (sconn (?ls ! j)) = None
        \<and> sc_gate (sconn (?ls ! j)) = p"
      using priv [of p] D(6) [of p] other [of "\<lambda>s. sc_entry s = None \<and> sc_gate s = p"] by blast
  qed (use D act sc keep i in auto)
qed

lemma leases_ok_release_entry:
  assumes ok: "leases_ok L pcs gen ls" and i: "i < length ls" "active gen (ls ! i)"
    and k: "sc_entry (sconn (ls ! i)) = Some k" "L k = Some e"
  shows "leases_ok (L(k \<mapsto> e\<lparr>busy := False\<rparr>)) pcs gen (ls[i := (ls ! i)\<lparr>released := True\<rparr>])"
proof -
  have g: "gate e = sc_gate (sconn (ls ! i))"
    using leases_okD(3) [OF ok i] k by (auto simp: holds_def)
  show ?thesis
    by (rule leases_ok_drop [OF ok i]) (use k g in \<open>auto simp: holds_def split: option.splits if_splits\<close>)
qed

lemma leases_ok_release_private:
  assumes ok: "leases_ok L (p1 @ g # p2) gen ls" and i: "i < length ls" "active gen (ls ! i)"
    and g: "sc_entry (sconn (ls ! i)) = None" "conn (sc_gate (sconn (ls ! i))) = conn g"
    and dist: "distinct (map conn (p1 @ g # p2))"
  shows "leases_ok L (p1 @ p2) gen (ls[i := (ls ! i)\<lparr>released := True\<rparr>])"
proof -
  have "sc_gate (sconn (ls ! i)) \<in> set (p1 @ g # p2)"
    using leases_okD(3) [OF ok i] g by (auto simp: holds_def)
  then have eq: "sc_gate (sconn (ls ! i)) = g" using g dist by (auto simp: image_iff)
  show ?thesis
    by (rule leases_ok_drop [OF ok i]) (use g eq dist in \<open>auto simp: holds_def split: option.splits\<close>)
qed

text \<open>The end of a transaction makes every lease inactive.\<close>

lemma unat_suc_word: "(w :: 64 word) + 1 \<noteq> 0 \<Longrightarrow> unat (w + 1) = Suc (unat w)"
  by (metis add.commute unatSuc)

lemma leases_ok_generation:
  assumes ok: "leases_ok L pcs gen ls" and gen: "gen + 1 \<noteq> 0" and idle: "\<And>k e. L' k = Some e \<Longrightarrow> \<not> busy e"
  shows "leases_ok L' [] (gen + 1) ls \<and> (\<forall>l \<in> set ls. \<not> active (gen + 1) l)"
proof -
  note D = leases_okD [OF ok]
  have "\<not> active (gen + 1) (ls ! i)" if "i < length ls" for i
    using D(2) [OF that] unat_suc_word [OF gen] by (auto simp: active_def)
  moreover have "unat (generation (ls ! i)) \<le> unat (gen + 1)" if "i < length ls" for i
    using D(2) [OF that] unat_suc_word [OF gen] by simp
  ultimately show ?thesis
    by (intro conjI leases_okI) (use D(1) idle in \<open>auto simp: in_set_conv_nth\<close>)
qed

subsection \<open>Operations keep the invariant\<close>

lemma busy_entry_conn:
  assumes "cache_inv st" and e: "lookup st k = Some e" "busy e"
  shows "conn (gate e) \<noteq> None"
proof -
  have ok: "leases_ok (lookup st) (PrivateConnections st) (lease_generation st) (leases st)"
    using assms(1) by (simp add: cache_inv_def)
  from leases_okD(5) [OF ok e] obtain i where i: "i < length (leases st)"
    "active (lease_generation st) (leases st ! i)" "sc_entry (sconn (leases st ! i)) = Some k" by blast
  from leases_okD(3) [OF ok i(1,2)] i(3) e show ?thesis by (auto simp: holds_def)
qed

text \<open>
  Inside \<open>get_connection_entry\<close> the entry is a local copy: the state it stands for is the
  one in which the copy is stored.
\<close>

definition pending :: "Oid \<Rightarrow> ConnCacheEntry \<Rightarrow> conn_cache \<Rightarrow> bool" where
  "pending k e s \<longleftrightarrow> cache_inv (put_entry k e s)"

lemma pending_idle: "pending k e s \<Longrightarrow> conn (gate e) = None \<Longrightarrow> \<not> busy e"
  using busy_entry_conn [of "put_entry k e s" k e] by (auto simp: pending_def)

lemma pending_put:
  assumes "pending k e s" and "distinct (map fst (entries s)) \<Longrightarrow> distinct (map fst (entries s'))"
    and "bad_close s' = bad_close s" and "lookup s' = lookup s"
    and "PrivateConnections s' = PrivateConnections s" "lease_generation s' = lease_generation s"
      "leases s' = leases s"
    and "conns_ok ((lookup s)(k \<mapsto> e)) (map conn (PrivateConnections s)) (open_conns s) \<Longrightarrow>
         conns_ok ((lookup s)(k \<mapsto> e')) (map conn (PrivateConnections s)) (open_conns s')"
    and "leases_ok ((lookup s)(k \<mapsto> e)) (PrivateConnections s) (lease_generation s) (leases s) \<Longrightarrow>
         leases_ok ((lookup s)(k \<mapsto> e')) (PrivateConnections s) (lease_generation s) (leases s)"
    and "entries s' = entries s"
  shows "pending k e' s'"
  using assms unfolding pending_def cache_inv_def by (simp add: update_keys split: if_splits)

lemma pending_enter: assumes "cache_inv st" shows "pending k (enter_entry k st) st"
proof (cases "lookup st k")
  case None
  then show ?thesis
    using assms enter_entry_lookup(2) [OF None] unfolding pending_def cache_inv_def
    by (auto simp: cached_def intro!: conns_ok_null leases_ok_put_idle distinct_update)
next
  case (Some e)
  then show ?thesis
    using assms Some enter_entry_lookup(1) [OF Some] unfolding pending_def cache_inv_def
    by (auto intro!: conns_ok_same [where L = "lookup st" and k = k and e = e]
        leases_ok_put_same [where L = "lookup st" and k = k and e = e] distinct_update)
qed

lemma pending_same:
  assumes "pending k e s" and "gate e' = gate e" and "busy e' = busy e"
  shows "pending k e' s"
  using conns_ok_same [where k = k and L = "(lookup s)(k \<mapsto> e)" and e = e and e' = e']
    leases_ok_put_same [where k = k and L = "(lookup s)(k \<mapsto> e)" and e = e and e' = e']
  by (intro pending_put [OF assms(1)]) (use assms in auto)

lemma pending_close:
  assumes p: "pending k e s" and c: "conn (gate e) = Some c" and idle: "\<not> busy e"
  shows "pending k (e\<lparr>gate := null_gate (gate e)\<rparr>) (disconnect c s)"
proof -
  let ?L = "(lookup s)(k \<mapsto> e)" and ?e = "e\<lparr>gate := null_gate (gate e)\<rparr>"
  have cs: "conns_ok ?L (map conn (PrivateConnections s)) (open_conns s)"
    using p by (simp add: pending_def cache_inv_def)
  have "cached ?L k c" using c by (simp add: cached_upd)
  from conns_ok_close [OF cs this, of ?e]
  have ok: "conns_ok ((lookup s)(k \<mapsto> ?e)) (map conn (PrivateConnections s)) (remove1 c (open_conns s))"
    and c: "c \<in> set (open_conns s)" by simp_all
  show ?thesis
    using ok c idle leases_ok_put_idle [where k = k and L = ?L and e' = ?e]
    by (intro pending_put [OF p]) auto
qed

lemma pending_close_idle:
  assumes "pending k (fst es) (snd es)"
  shows "pending k (fst (close_idle test es)) (snd (close_idle test es))"
  using assms by (auto simp: close_idle_def case_prod_beta intro: pending_close split: option.splits)

lemma clickhouse_connect_cases:
  assumes "fresh_handles env" and "clickhouse_connect env so uo st = (st', r)"
  obtains (err) err where "r = Inl err" "st' = st"
  | (opened) m c where "r = Inr \<lparr>methods = m, conn = Some c\<rparr>" "c \<notin> set (open_conns st)"
      "st' = st\<lparr>open_conns := c # open_conns st\<rparr>"
proof -
  have opened_cases: thesis
    if "(case x of Inl e \<Rightarrow> (st, Inl e)
         | Inr c \<Rightarrow> (st\<lparr>open_conns := c # open_conns st\<rparr>, Inr \<lparr>methods = m, conn = Some c\<rparr>)) = (st', r)"
      "\<And>c. x = Inr c \<Longrightarrow> c \<notin> set (open_conns st)" for x m
  proof (cases x)
    case (Inl e)
    with that(1) show thesis by (intro err [of e]) auto
  next
    case (Inr c)
    with that show thesis by (intro opened [of m c]) auto
  qed
  show thesis
  proof (cases "connect_details env so uo")
    case (Inl e)
    with assms(2) err show thesis by (auto simp: clickhouse_connect_def)
  next
    case (Inr d)
    consider "driver d = ''http''" | "driver d = ''binary''" | "driver d \<noteq> ''http''" "driver d \<noteq> ''binary''"
      by blast
    then show thesis
    proof cases
      case 1
      with assms Inr show thesis
        by (intro opened_cases [where x = "http_connect env d (open_conns st)" and m = http_methods])
           (auto simp: clickhouse_connect_def fresh_handles_def)
    next
      case 2
      with assms Inr show thesis
        by (intro opened_cases [where x = "binary_connect env d (open_conns st)" and m = binary_methods])
           (auto simp: clickhouse_connect_def fresh_handles_def)
    next
      case 3
      with assms(2) Inr err show thesis by (auto simp: clickhouse_connect_def)
    qed
  qed
qed

lemma pending_connect:
  assumes p: "pending k e s" and none: "conn (gate e) = None" and new: "c \<notin> set (open_conns s)"
    and g: "conn g = Some c"
  shows "pending k (e\<lparr>gate := g\<rparr>) (s\<lparr>open_conns := c # open_conns s\<rparr>)"
proof -
  let ?L = "(lookup s)(k \<mapsto> e)" and ?e = "e\<lparr>gate := g\<rparr>"
  have "\<nexists>c. cached ?L k c" using none by (simp add: cached_upd)
  with new g have "conns_ok ?L P (open_conns s) \<Longrightarrow> conns_ok (?L(k \<mapsto> ?e)) P (c # open_conns s)" for P
    by (intro conns_ok_open) auto
  then show ?thesis
    using pending_idle [OF p none] leases_ok_put_idle [where k = k and L = ?L and e' = ?e]
    by (intro pending_put [OF p]) auto
qed

lemma get_connection_entry_inv:
  assumes inv: "cache_inv st" and env: "fresh_handles env"
    and get: "get_connection_entry env user st = (st', r)"
  shows "cache_inv st'
    \<and> (\<forall>e. r = Inr e \<longrightarrow> lookup st' (umid user) = Some e \<and> conn (gate e) \<noteq> None)"
proof -
  let ?k = "umid user"
  obtain e s where es: "close_idle (test_broken env) (close_idle test_invalidated (enter_entry ?k st, st)) = (e, s)"
    by fastforce
  have p: "pending ?k e s"
    using pending_close_idle [where es = "close_idle test_invalidated (enter_entry ?k st, st)" and k = ?k
        and test = "test_broken env"]
      pending_close_idle [where es = "(enter_entry ?k st, st)" and k = ?k and test = test_invalidated]
      pending_enter [OF inv] es by simp
  show ?thesis
  proof (cases "conn (gate e) = None")
    case False
    then show ?thesis using get p es by (auto simp: get_connection_entry_def pending_def Let_def)
  next
    case None: True
    show ?thesis
    proof (cases "foreign_server env (serverid user)")
      case (Inl err)
      then show ?thesis using get p es None by (auto simp: get_connection_entry_def pending_def Let_def)
    next
      case (Inr opts)
      let ?e = "e\<lparr>invalidated := False, server_hashvalue := server_hash env (serverid user),
                 mapping_hashvalue := mapping_hash env ?k\<rparr>"
      have p': "pending ?k ?e s" by (rule pending_same [OF p]) simp_all
      obtain s' g where c: "clickhouse_connect env opts (um_options user) s = (s', g)" by fastforce
      show ?thesis using env c
      proof (cases rule: clickhouse_connect_cases)
        case (err e')
        then show ?thesis using get p' es None Inr c
          by (auto simp: get_connection_entry_def pending_def Let_def)
      next
        case (opened m c)
        then show ?thesis
          using get pending_connect [OF p', of c "\<lparr>methods = m, conn = Some c\<rparr>"] es None Inr \<open>clickhouse_connect _ _ _ _ = _\<close>
          by (auto simp: get_connection_entry_def pending_def Let_def)
      qed
    qed
  qed
qed

lemma get_scan_connection_inv:
  assumes inv: "cache_inv st" and env: "fresh_handles env"
  shows "cache_inv (fst (chfdw_get_scan_connection env user st))"
proof -
  let ?k = "umid user"
  obtain s r where get: "get_connection_entry env user st = (s, r)" by fastforce
  note G = get_connection_entry_inv [OF inv env get]
  show ?thesis
  proof (cases r)
    case (Inl err)
    with G get show ?thesis by (simp add: chfdw_get_scan_connection_def)
  next
    case (Inr e)
    with G obtain c where s: "cache_inv s" "lookup s ?k = Some e" "conn (gate e) = Some c" by auto
    then have cs: "conns_ok (lookup s) (map conn (PrivateConnections s)) (open_conns s)"
      and ls: "leases_ok (lookup s) (PrivateConnections s) (lease_generation s) (leases s)"
      and ds: "distinct (map fst (entries s))" "\<not> bad_close s" by (simp_all add: cache_inv_def)
    show ?thesis
    proof (cases "busy e")
      case False
      let ?e = "e\<lparr>busy := True\<rparr>"
      have own: "sc_entry sc \<noteq> Some ?k \<and> conn (sc_gate sc) \<noteq> Some c"
        if "holds (lookup s) (PrivateConnections s) sc" for sc
        using holds_owner [OF that] that conns_okD(1,4) [OF cs] s(2,3) False
        by (force simp: holds_def cached_def split: option.splits)
      have "leases_ok ((lookup s)(?k \<mapsto> ?e)) (PrivateConnections s) (lease_generation s) (leases s @
          [\<lparr>sconn = \<lparr>sc_gate = gate e, sc_entry = Some ?k, sc_lease = Some (length (leases s))\<rparr>,
            generation = lease_generation s, released = False\<rparr>])"
      proof (rule leases_ok_append [OF ls])
        show "holds ((lookup s)(?k \<mapsto> ?e)) (PrivateConnections s) (sconn
            \<lparr>sconn = \<lparr>sc_gate = gate e, sc_entry = Some ?k, sc_lease = Some (length (leases s))\<rparr>,
              generation = lease_generation s, released = False\<rparr>)"
          using s(3) by (simp add: holds_def)
      qed (use own s in \<open>auto intro: holds_upd_other split: if_splits\<close>)
      moreover have "conns_ok ((lookup s)(?k \<mapsto> ?e)) (map conn (PrivateConnections s)) (open_conns s)"
        by (rule conns_ok_same [OF cs s(2)]) simp
      ultimately show ?thesis
        using get Inr False ds
        by (simp add: chfdw_get_scan_connection_def new_lease_def Let_def cache_inv_def distinct_update)
    next
      case busy: True
      show ?thesis
      proof (cases "foreign_server env (serverid user)")
        case (Inl err)
        with get Inr busy s(1) show ?thesis by (simp add: chfdw_get_scan_connection_def)
      next
        case srv: (Inr opts)
        obtain s' g where conn: "clickhouse_connect env opts (um_options user) s = (s', g)" by fastforce
        show ?thesis using env conn
        proof (cases rule: clickhouse_connect_cases)
          case (err e')
          with get Inr busy srv conn s(1) show ?thesis by (simp add: chfdw_get_scan_connection_def)
        next
          case (opened m c')
          let ?g = "\<lparr>methods = m, conn = Some c'\<rparr>"
          have own: "conn (sc_gate sc) \<noteq> Some c'" if "holds (lookup s) (PrivateConnections s) sc" for sc
            using holds_owner [OF that] opened(2) conns_okD(5) [OF cs] by auto
          have "leases_ok (lookup s) (PrivateConnections s @ [?g]) (lease_generation s) (leases s @
              [\<lparr>sconn = \<lparr>sc_gate = ?g, sc_entry = None, sc_lease = Some (length (leases s))\<rparr>,
                generation = lease_generation s, released = False\<rparr>])"
            by (rule leases_ok_append [OF ls]) (use own in \<open>auto simp: holds_def split: option.splits\<close>)
          with conns_ok_private_open [OF cs opened(2)] get Inr busy srv conn opened ds show ?thesis
            by (simp add: chfdw_get_scan_connection_def new_lease_def Let_def cache_inv_def)
        qed
      qed
    qed
  qed
qed

lemma get_server_version_inv:
  assumes "cache_inv st" and "fresh_handles env"
  shows "cache_inv (fst (chfdw_get_server_version env version_of user st))"
  using get_connection_entry_inv [OF assms, of user]
  by (simp add: chfdw_get_server_version_def split: prod.splits sum.splits)

lemma take_drop_nth_split: "i < length xs \<Longrightarrow> xs = take i xs @ xs ! i # drop (Suc i) xs"
  by (rule id_take_nth_drop)

lemma release_scan_connection_inv:
  assumes inv: "cache_inv st" and l: "l < length (leases st)"
    and gen: "generation (leases st ! l) = lease_generation st"
  shows "cache_inv (chfdw_release_scan_connection (sconn (leases st ! l)) st)"
proof -
  let ?sc = "sconn (leases st ! l)"
  have cs: "conns_ok (lookup st) (map conn (PrivateConnections st)) (open_conns st)"
    and ls: "leases_ok (lookup st) (PrivateConnections st) (lease_generation st) (leases st)"
    and ds: "distinct (map fst (entries st))" "\<not> bad_close st" using inv by (simp_all add: cache_inv_def)
  have sl: "sc_lease ?sc = Some l" using leases_okD(1) [OF ls l] .
  show ?thesis
  proof (cases "released (leases st ! l)")
    case True
    with sl inv show ?thesis by (simp add: chfdw_release_scan_connection_def)
  next
    case False
    then have act: "active (lease_generation st) (leases st ! l)" using gen by (simp add: active_def)
    note h = leases_okD(3) [OF ls l act]
    show ?thesis
    proof (cases "sc_entry ?sc")
      case (Some k)
      with h obtain e where e: "lookup st k = Some e" by (auto simp: holds_def)
      have "conns_ok ((lookup st)(k \<mapsto> e\<lparr>busy := False\<rparr>)) (map conn (PrivateConnections st)) (open_conns st)"
        by (rule conns_ok_same [OF cs e]) simp
      with leases_ok_release_entry [OF ls l act Some e] False sl Some e ds show ?thesis
        by (simp add: chfdw_release_scan_connection_def give_back_def mark_released_def cache_inv_def
              lookup_def [symmetric] distinct_update)
    next
      case None
      let ?P = "PrivateConnections st"
      have "sc_gate ?sc \<in> set ?P" using h None by (auto simp: holds_def)
      then obtain i where i: "find_index (\<lambda>h. conn h = conn (sc_gate ?sc)) ?P = Some i"
        by (cases "find_index (\<lambda>h. conn h = conn (sc_gate ?sc)) ?P") (auto simp: find_index_None)
      have il: "i < length ?P" and ic: "conn (?P ! i) = conn (sc_gate ?sc)"
        using find_index_SomeD [OF i] by auto
      obtain c where c: "conn (sc_gate ?sc) = Some c" using h by (auto simp: holds_def)
      let ?p1 = "take i ?P" and ?p2 = "drop (Suc i) ?P"
      have split: "?P = ?p1 @ ?P ! i # ?p2" by (rule id_take_nth_drop [OF il])
      have "conns_ok (lookup st) (map conn ?p1 @ Some c # map conn ?p2) (open_conns st)"
        using cs ic c by (subst (asm) split) simp
      note cl = conns_ok_private_close [OF this]
      have "leases_ok (lookup st) (?p1 @ ?P ! i # ?p2) (lease_generation st) (leases st)"
        using ls split by simp
      moreover have "distinct (map conn (?p1 @ ?P ! i # ?p2))" using conns_okD(2) [OF cs] split by simp
      ultimately have "leases_ok (lookup st) (?p1 @ ?p2) (lease_generation st)
          ((leases st)[l := (leases st ! l)\<lparr>released := True\<rparr>])"
        using l act None ic by (intro leases_ok_release_private [where g = "?P ! i"]) auto
      with cl False sl None i ic c ds show ?thesis
        by (simp add: chfdw_release_scan_connection_def give_back_def mark_released_def cache_inv_def)
    qed
  qed
qed

lemma release_lease_inv:
  "cache_inv st \<Longrightarrow> l < length (leases st) \<Longrightarrow> cache_inv (release_lease l st)"
  by (simp add: release_lease_def release_scan_connection_inv)

lemma inval_entry_keeps [simp]:
  "gate (inval_entry cacheid hashvalue e) = gate e" "busy (inval_entry cacheid hashvalue e) = busy e"
  by (simp_all add: inval_entry_def)

lemma map_of_map_snd: "map_of (map (\<lambda>(k, e). (k, f e)) h) k = map_option f (map_of h k)"
  by (induction h) auto

lemma lookup_inval:
  "lookup (chfdw_inval_callback cacheid hashvalue st) k
     = map_option (inval_entry cacheid hashvalue) (lookup st k)"
  by (cases "ConnectionHash st")
     (simp_all add: lookup_def entries_def chfdw_inval_callback_def map_of_map_snd)

lemma inval_callback_inv:
  assumes "cache_inv st" shows "cache_inv (chfdw_inval_callback cacheid hashvalue st)"
proof -
  let ?s = "chfdw_inval_callback cacheid hashvalue st"
  have keys: "map fst (entries ?s) = map fst (entries st)"
    by (cases "ConnectionHash st") (auto simp: entries_def chfdw_inval_callback_def)
  have c: "cached (lookup ?s) = cached (lookup st)"
    by (intro ext) (auto simp: cached_def lookup_inval)
  have h: "holds (lookup ?s) = holds (lookup st)"
    by (intro ext) (auto simp: holds_def lookup_inval split: option.splits)
  have b: "(\<exists>e. lookup ?s k = Some e \<and> busy e) \<longleftrightarrow> (\<exists>e. lookup st k = Some e \<and> busy e)" for k
    by (auto simp: lookup_inval)
  have "leases_ok (lookup ?s) ps g ls \<longleftrightarrow> leases_ok (lookup st) ps g ls" for ps g ls
    unfolding leases_ok_def h using b by blast
  moreover have "conns_ok (lookup ?s) ps os \<longleftrightarrow> conns_ok (lookup st) ps os" for ps os
    by (simp add: conns_ok_def c)
  ultimately show ?thesis
    using assms keys by (simp add: cache_inv_def) (simp add: chfdw_inval_callback_def)
qed

lemma fold_disconnect:
  "distinct cs \<Longrightarrow> set cs \<subseteq> set (open_conns st) \<Longrightarrow> distinct (open_conns st) \<Longrightarrow>
     fold disconnect cs st = st\<lparr>open_conns := filter (\<lambda>c. c \<notin> set cs) (open_conns st)\<rparr>"
proof (induction cs arbitrary: st)
  case (Cons c cs)
  have "filter (\<lambda>x. x \<notin> set cs) (remove1 c (open_conns st)) = filter (\<lambda>x. x \<notin> set (c # cs)) (open_conns st)"
    using Cons.prems(3) by (auto simp: distinct_remove1_removeAll removeAll_filter_not_eq intro!: filter_cong)
  moreover have "set cs \<subseteq> set (remove1 c (open_conns st))"
    using Cons.prems by (auto simp: set_remove1_eq)
  ultimately show ?case
    using Cons.prems Cons.IH [of "st\<lparr>open_conns := remove1 c (open_conns st)\<rparr>"] by simp
qed simp

lemma private_handles:
  assumes "None \<notin> set (map f xs)" and "distinct (map f xs)"
  shows "distinct (concat (map (\<lambda>x. opt_list (f x)) xs))"
    "c \<in> set (concat (map (\<lambda>x. opt_list (f x)) xs)) \<longleftrightarrow> Some c \<in> set (map f xs)"
  using assms by (induction xs) (auto simp: opt_list_def image_iff split: option.splits)

lemma set_xact_closes:
  "c \<in> set (concat (map (\<lambda>(k, e). xact_closes e) h)) \<longleftrightarrow>
     (\<exists>k e. (k, e) \<in> set h \<and> invalidated e \<and> conn (gate e) = Some c)"
  by (force simp: xact_closes_def opt_list_def split: option.splits)

lemma distinct_xact_closes:
  assumes "distinct (map fst h)"
    and "\<And>k e k' e' c. (k, e) \<in> set h \<Longrightarrow> (k', e') \<in> set h \<Longrightarrow> conn (gate e) = Some c \<Longrightarrow> conn (gate e') = Some c
       \<Longrightarrow> k = k'"
  shows "distinct (concat (map (\<lambda>(k, e). xact_closes e) h))"
  using assms
proof (induction h)
  case (Cons ke h)
  obtain k e where ke: "ke = (k, e)" by fastforce
  have "c \<notin> set (concat (map (\<lambda>(k, e). xact_closes e) h))" if "c \<in> set (xact_closes e)" for c
  proof
    assume "c \<in> set (concat (map (\<lambda>(k, e). xact_closes e) h))"
    then obtain k' e' where m: "(k', e') \<in> set h" "conn (gate e') = Some c" unfolding set_xact_closes by blast
    have "conn (gate e) = Some c" using that by (auto simp: xact_closes_def opt_list_def split: if_splits option.splits)
    with m Cons.prems(2) [of k e k' e' c] ke have "k = k'" by simp
    with m Cons.prems(1) ke show False by (force simp: image_iff)
  qed
  moreover have "distinct (xact_closes e)" by (simp add: xact_closes_def opt_list_def split: option.splits)
  moreover have "distinct (concat (map (\<lambda>(k, e). xact_closes e) h))"
    using Cons.prems(1) by (intro Cons.IH) (simp, meson Cons.prems(2) list.set_intros(2))
  ultimately show ?case using ke by (simp only: list.map concat.simps distinct_append prod.case) blast
qed simp

lemma entry_of_lookup:
  "distinct (map fst (entries st)) \<Longrightarrow> (k, e) \<in> set (entries st) \<longleftrightarrow> lookup st k = Some e"
  by (simp add: lookup_def)

lemma xact_entry_simps [simp]:
  "\<not> busy (xact_entry e)"
  "conn (gate (xact_entry e)) = (if invalidated e then None else conn (gate e))"
  by (auto simp: xact_entry_def Let_def)

text \<open>The state after the end of a transaction, in closed form.\<close>

lemma xact_callback_effect:
  assumes inv: "cache_inv st" and ev: "xact_end event"
  defines "st' \<equiv> chfdw_xact_callback event st"
  shows "lookup st' k = map_option xact_entry (lookup st k)"
    "PrivateConnections st' = []" "lease_generation st' = lease_generation st + 1" "leases st' = leases st"
    "bad_close st' = bad_close st" "map fst (entries st') = map fst (entries st)"
    "open_conns st' = filter (\<lambda>c. Some c \<notin> set (map conn (PrivateConnections st))
        \<and> (\<nexists>k e. lookup st k = Some e \<and> invalidated e \<and> conn (gate e) = Some c)) (open_conns st)"
proof -
  have cs: "conns_ok (lookup st) (map conn (PrivateConnections st)) (open_conns st)"
    and ds: "distinct (map fst (entries st))" using inv by (simp_all add: cache_inv_def)
  note C = conns_okD [OF cs]
  let ?ps = "concat (map (\<lambda>held. opt_list (conn held)) (PrivateConnections st))"
  note P = private_handles [OF C(3) C(2)]
  have priv: "fold disconnect ?ps st =
      st\<lparr>open_conns := filter (\<lambda>c. Some c \<notin> set (map conn (PrivateConnections st))) (open_conns st)\<rparr>"
    using P C(5,6) by (subst fold_disconnect) (auto simp del: set_map)
  let ?cl = "concat (map (\<lambda>(k, e). xact_closes e) (entries st))"
  have dist: "distinct ?cl"
    by (rule distinct_xact_closes [OF ds]) (use C(1) entry_of_lookup [OF ds] in \<open>auto simp: cached_def\<close>)
  have mem: "c \<in> set ?cl \<longleftrightarrow> (\<exists>k e. lookup st k = Some e \<and> invalidated e \<and> conn (gate e) = Some c)" for c
    unfolding set_xact_closes using entry_of_lookup [OF ds] by blast
  let ?st1 = "st\<lparr>open_conns := filter (\<lambda>c. Some c \<notin> set (map conn (PrivateConnections st))) (open_conns st),
      PrivateConnections := [], lease_generation := lease_generation st + 1\<rparr>"
  have sub: "set ?cl \<subseteq> set (open_conns ?st1)"
    unfolding subset_iff mem using C(4,5) by (auto simp: cached_def simp del: set_map)
  have clo: "fold disconnect ?cl ?st1 = ?st1\<lparr>open_conns := filter (\<lambda>c. c \<notin> set ?cl) (open_conns ?st1)\<rparr>"
    using fold_disconnect [OF dist sub] C(6) by simp
  have eff: "st' = ?st1\<lparr>open_conns := filter (\<lambda>c. c \<notin> set ?cl) (open_conns ?st1),
      ConnectionHash := map_option (map (\<lambda>(k, e). (k, xact_entry e))) (ConnectionHash st)\<rparr>"
  proof (cases "ConnectionHash st")
    case None
    then have "entries st = []" by (simp add: entries_def)
    then show ?thesis using ev None by (simp add: st'_def chfdw_xact_callback_def priv Let_def)
  next
    case (Some h)
    then have h: "entries st = h" by (simp add: entries_def)
    show ?thesis using ev Some clo unfolding h by (simp add: st'_def chfdw_xact_callback_def priv Let_def)
  qed
  show "lookup st' k = map_option xact_entry (lookup st k)" "map fst (entries st') = map fst (entries st)"
    unfolding eff by (cases "ConnectionHash st"; auto simp: lookup_def entries_def map_of_map_snd)+
  show "PrivateConnections st' = []" "lease_generation st' = lease_generation st + 1"
    "leases st' = leases st" "bad_close st' = bad_close st" unfolding eff by simp_all
  show "open_conns st' = filter (\<lambda>c. Some c \<notin> set (map conn (PrivateConnections st))
        \<and> (\<nexists>k e. lookup st k = Some e \<and> invalidated e \<and> conn (gate e) = Some c)) (open_conns st)"
    unfolding eff by (auto simp: mem simp del: set_concat intro!: filter_cong)
qed

lemma xact_callback_inv:
  assumes inv: "cache_inv st" and gen: "lease_generation st + 1 \<noteq> 0"
  shows "cache_inv (chfdw_xact_callback event st)"
proof (cases "xact_end event")
  case False
  with inv show ?thesis by (simp add: chfdw_xact_callback_def)
next
  case True
  let ?s = "chfdw_xact_callback event st"
  note E = xact_callback_effect [OF inv True]
  have cs: "conns_ok (lookup st) (map conn (PrivateConnections st)) (open_conns st)"
    and ls: "leases_ok (lookup st) (PrivateConnections st) (lease_generation st) (leases st)"
    using inv by (simp_all add: cache_inv_def)
  note C = conns_okD [OF cs]
  have ca: "cached (lookup ?s) k c \<longleftrightarrow> (\<exists>e. lookup st k = Some e \<and> \<not> invalidated e \<and> conn (gate e) = Some c)" for k c
    by (auto simp: cached_def E(1) split: if_splits)
  have "conns_ok (lookup ?s) [] (open_conns ?s)"
    unfolding conns_ok_def ca E(7) using C by (auto simp: cached_def simp del: set_map) (metis option.inject)+
  moreover have "leases_ok (lookup ?s) [] (lease_generation st + 1) (leases st)"
    by (rule leases_ok_generation [OF ls gen, THEN conjunct1]) (auto simp: E(1))
  ultimately show ?thesis using inv by (simp add: cache_inv_def E(2-6))
qed

lemma conn_cache_init_inv: "cache_inv conn_cache_init"
  by (simp add: cache_inv_def conn_cache_init_def entries_def lookup_def conns_ok_def leases_ok_def cached_def)

lemmas cache_inv_steps = get_scan_connection_inv get_server_version_inv release_scan_connection_inv
  release_lease_inv inval_callback_inv xact_callback_inv

interpretation cc: inductive_invariant "\<lambda>st. st = conn_cache_init" conn_step cache_inv
  by unfold_locales (auto simp: conn_cache_init_inv elim!: conn_step.cases intro: cache_inv_steps)

subsection \<open>A concrete run\<close>

text \<open>
  A server with the default options whose driver numbers its handles upwards, and the states
  after one and two scans of the same user mapping.
\<close>

definition demo_connect :: "unit ch_connection_details \<Rightarrow> nat list \<Rightarrow> nat pg" where
  "demo_connect d os = Inr (Suc (foldr max os 0))"

definition demo_env :: "unit conn_env" where
  "demo_env = \<lparr>foreign_server = (\<lambda>_. Inr []), server_hash = (\<lambda>_. 7), mapping_hash = (\<lambda>_. 8),
     parse_encoding = (\<lambda>_. None), enc_fail = (), malloc_ok = True, fdw_options_state = None,
     http_connect = demo_connect, binary_connect = demo_connect, broken = (\<lambda>_. False)\<rparr>"

definition demo_user :: UserMapping where
  "demo_user = \<lparr>umid = 1, serverid = 2, um_options = []\<rparr>"

definition demo_one :: conn_cache where
  "demo_one = fst (chfdw_get_scan_connection demo_env demo_user conn_cache_init)"

definition demo_two :: conn_cache where
  "demo_two = fst (chfdw_get_scan_connection demo_env demo_user demo_one)"

lemma le_foldr_max: "(c :: nat) \<in> set os \<Longrightarrow> c \<le> foldr max os 0"
  by (induction os) auto

lemma demo_fresh: "fresh_handles demo_env"
  by (auto simp: fresh_handles_def demo_env_def demo_connect_def dest: le_foldr_max)

lemma demo_reach: "conn_reach demo_one" "conn_reach demo_two"
proof -
  show one: "conn_reach demo_one"
    unfolding demo_one_def by (rule reach_step [where stp = conn_step, OF _ step_get [OF demo_fresh]]) (simp add: reach_init)
  show "conn_reach demo_two"
    unfolding demo_two_def by (rule reach_step [where stp = conn_step, OF one step_get [OF demo_fresh]])
qed

section \<open>Properties\<close>

text \<open>
  C25: Exclusive use. In every state the cache can reach, two different leases that are still
  held in the current transaction are on different connections, and both connections are
  open: one query at a time per connection.
\<close>

theorem leases_exclusive:
  assumes "conn_reach st" and "i < length (leases st)" and "j < length (leases st)" and "i \<noteq> j"
    and "active (lease_generation st) (leases st ! i)" and "active (lease_generation st) (leases st ! j)"
  shows "\<exists>c d. conn (sc_gate (sconn (leases st ! i))) = Some c \<and> conn (sc_gate (sconn (leases st ! j))) = Some d
    \<and> c \<noteq> d \<and> c \<in> set (open_conns st) \<and> d \<in> set (open_conns st)"
proof -
  have cs: "conns_ok (lookup st) (map conn (PrivateConnections st)) (open_conns st)"
    and ls: "leases_ok (lookup st) (PrivateConnections st) (lease_generation st) (leases st)"
    using cc.reach_inv [OF assms(1)] by (simp_all add: cache_inv_def)
  have own: "\<exists>c. conn (sc_gate (sconn (leases st ! n))) = Some c \<and> c \<in> set (open_conns st)"
    if "n < length (leases st)" "active (lease_generation st) (leases st ! n)" for n
    using holds_owner [OF leases_okD(3) [OF ls that]] conns_okD(5) [OF cs] by blast
  from own [OF assms(2,5)] own [OF assms(3,6)] leases_okD(4) [OF ls assms(2-6)] show ?thesis by auto
qed

lemma leases_exclusive_witness:
  "\<exists>c d. conn (sc_gate (sconn (leases demo_two ! 0))) = Some c
     \<and> conn (sc_gate (sconn (leases demo_two ! 1))) = Some d
     \<and> c \<noteq> d \<and> c \<in> set (open_conns demo_two) \<and> d \<in> set (open_conns demo_two)"
proof -
  have "length (leases demo_two) = 2" "active (lease_generation demo_two) (leases demo_two ! 0)"
    "active (lease_generation demo_two) (leases demo_two ! 1)" by code_simp+
  then show ?thesis using leases_exclusive [OF demo_reach(2), of 0 1] by simp
qed

text \<open>
  C26: No connection is leaked or closed twice. In every reachable state no handle was ever
  disconnected that was not open, each open handle is kept by exactly one cache entry or
  one cell of the private list, a cached connection is marked busy exactly while a lease of
  the current transaction holds it, and each private connection has such a lease.
\<close>

theorem connections_accounted_for:
  assumes "conn_reach st"
  shows "\<not> bad_close st \<and> distinct (open_conns st)
    \<and> (\<forall>c. c \<in> set (open_conns st) \<longleftrightarrow>
         (\<exists>k e. map_of (entries st) k = Some e \<and> conn (gate e) = Some c)
         \<or> (\<exists>p \<in> set (PrivateConnections st). conn p = Some c))
    \<and> (\<forall>k e. map_of (entries st) k = Some e \<longrightarrow>
         (busy e \<longleftrightarrow> (\<exists>i < length (leases st). active (lease_generation st) (leases st ! i)
                       \<and> sc_entry (sconn (leases st ! i)) = Some k)))
    \<and> (\<forall>p \<in> set (PrivateConnections st). \<exists>i < length (leases st).
         active (lease_generation st) (leases st ! i) \<and> sc_entry (sconn (leases st ! i)) = None
         \<and> sc_gate (sconn (leases st ! i)) = p)"
proof -
  have cs: "conns_ok (lookup st) (map conn (PrivateConnections st)) (open_conns st)"
    and ls: "leases_ok (lookup st) (PrivateConnections st) (lease_generation st) (leases st)"
    and bad: "\<not> bad_close st" using cc.reach_inv [OF assms] by (simp_all add: cache_inv_def)
  have some: "Some c \<in> set (map conn ps) \<longleftrightarrow> (\<exists>p \<in> set ps. conn p = Some c)" for c ps
    by (auto simp: image_iff) metis
  have "busy e" if "lookup st k = Some e" "i < length (leases st)"
    "active (lease_generation st) (leases st ! i)" "sc_entry (sconn (leases st ! i)) = Some k" for k e i
    using leases_okD(3) [OF ls that(2,3)] that(1,4) by (auto simp: holds_def)
  with bad conns_okD(5,6) [OF cs] leases_okD(5,6) [OF ls] show ?thesis
    unfolding some cached_def lookup_def by blast
qed

lemma connections_accounted_for_witness:
  "\<not> bad_close demo_two \<and> (\<exists>p \<in> set (PrivateConnections demo_two). conn p = Some 2) \<and> 2 \<in> set (open_conns demo_two)"
proof -
  have p: "\<exists>p \<in> set (PrivateConnections demo_two). conn p = Some 2" by code_simp
  show ?thesis using connections_accounted_for [OF demo_reach(2)] p by blast
qed

text \<open>
  C27: The end of a transaction. From every reachable state, a commit or abort leaves no
  private connection, no busy entry and no held lease; it closes exactly the private
  connections and those of invalidated entries, and every other cached connection stays
  open in its entry.
\<close>

theorem transaction_end_cleans_up:
  assumes "conn_reach st" and "lease_generation st + 1 \<noteq> 0" and "xact_end event"
  shows "\<exists>st'. st' = chfdw_xact_callback event st \<and> PrivateConnections st' = []
    \<and> (\<forall>l \<in> set (leases st'). \<not> active (lease_generation st') l)
    \<and> (\<forall>k e. map_of (entries st) k = Some e \<longrightarrow>
         (\<exists>e'. map_of (entries st') k = Some e' \<and> \<not> busy e'
            \<and> conn (gate e') = (if invalidated e then None else conn (gate e))))
    \<and> (\<forall>c. c \<in> set (open_conns st') \<longleftrightarrow>
         (\<exists>k e. map_of (entries st) k = Some e \<and> \<not> invalidated e \<and> conn (gate e) = Some c))
    \<and> \<not> bad_close st'"
proof -
  note inv = cc.reach_inv [OF assms(1)]
  let ?s = "chfdw_xact_callback event st"
  note E = xact_callback_effect [OF inv assms(3)]
  have cs: "conns_ok (lookup st) (map conn (PrivateConnections st)) (open_conns st)"
    and ls: "leases_ok (lookup st) (PrivateConnections st) (lease_generation st) (leases st)"
    and bad: "\<not> bad_close st" using inv by (simp_all add: cache_inv_def)
  have act: "\<forall>l \<in> set (leases st). \<not> active (lease_generation st + 1) l"
    by (rule leases_ok_generation [OF ls assms(2), of "\<lambda>_. None", THEN conjunct2]) simp
  have opn: "c \<in> set (open_conns ?s) \<longleftrightarrow>
      (\<exists>k e. lookup st k = Some e \<and> \<not> invalidated e \<and> conn (gate e) = Some c)" for c
  proof -
    have "e = e'" if "lookup st k = Some e" "conn (gate e) = Some c" "lookup st k' = Some e'"
      "conn (gate e') = Some c" for k k' e e'
      using conns_okD(1) [OF cs, of k c k'] that by (auto simp: cached_def)
    then show ?thesis unfolding E(7) using conns_okD(4,5) [OF cs] by (auto simp: cached_def simp del: set_map) metis+
  qed
  have "\<exists>e'. lookup ?s k = Some e' \<and> \<not> busy e' \<and> conn (gate e') = (if invalidated e then None else conn (gate e))"
    if "lookup st k = Some e" for k e using that by (simp add: E(1))
  with opn act bad show ?thesis
    by (intro exI [of _ ?s]) (auto simp: E(2-5) simp flip: lookup_def)
qed

lemma transaction_end_cleans_up_witness:
  "PrivateConnections (chfdw_xact_callback XACT_EVENT_ABORT demo_two) = []
     \<and> 1 \<in> set (open_conns (chfdw_xact_callback XACT_EVENT_ABORT demo_two))"
proof -
  have g: "lease_generation demo_two + 1 \<noteq> 0" and e: "xact_end XACT_EVENT_ABORT" by code_simp+
  have m: "map_option (\<lambda>e. (invalidated e, conn (gate e))) (map_of (entries demo_two) 1) = Some (False, Some 1)"
    by code_simp
  then have "\<exists>k e. map_of (entries demo_two) k = Some e \<and> \<not> invalidated e \<and> conn (gate e) = Some 1"
    by (intro exI [of _ 1]) auto
  then show ?thesis using transaction_end_cleans_up [OF demo_reach(2) g e] by blast
qed

text \<open>
  What a scan gets. When the cached connection is busy, a scan gets a new private
  connection and the cached one is left alone; otherwise it gets the cached connection,
  marked busy, and that is a new one when the entry had none, was invalidated or (binary
  driver) broken, the old handle being closed then.
\<close>

theorem get_scan_connection_result:
  assumes "conn_reach st" and "fresh_handles env"
    and "chfdw_get_scan_connection env user st = (st', Inr sc)"
    and "map_of (entries st) (umid user) = Some e" and "conn (gate e) = Some c"
  shows "\<exists>d. conn (sc_gate sc) = Some d \<and> d \<in> set (open_conns st') \<and>
    (if busy e then sc_entry sc = None \<and> d \<notin> set (open_conns st) \<and> c \<in> set (open_conns st')
       \<and> map_of (entries st') (umid user) = Some e
     else sc_entry sc = Some (umid user)
       \<and> (\<exists>e'. map_of (entries st') (umid user) = Some e' \<and> busy e' \<and> gate e' = sc_gate sc)
       \<and> (if invalidated e \<or> methods (gate e) = binary_methods \<and> broken env c
          then d \<notin> set (open_conns st) - {c} else d = c))"
proof -
  note inv = cc.reach_inv [OF assms(1)]
  let ?k = "umid user"
  have cs: "conns_ok (lookup st) (map conn (PrivateConnections st)) (open_conns st)"
    using inv by (simp add: cache_inv_def)
  have L: "lookup st ?k = Some e" using assms(4) by (simp add: lookup_def)
  have c: "c \<in> set (open_conns st)" and dis: "distinct (open_conns st)"
    using conns_okD(5,6) [OF cs] L assms(5) by (auto simp: cached_def)
  note enter = enter_entry_lookup(1) [OF L]
  show ?thesis
  proof (cases "busy e")
    case True
    have get: "get_connection_entry env user st = (put_entry ?k e st, Inr e)"
      using True assms(5) by (simp add: get_connection_entry_def Let_def enter close_idle_def)
    with True assms(3) obtain opts s g where conn: "clickhouse_connect env opts (um_options user) (put_entry ?k e st) = (s, Inr g)"
      and res: "new_lease g None (s\<lparr>PrivateConnections := PrivateConnections s @ [g]\<rparr>) = (st', Inr sc)"
      by (auto simp: chfdw_get_scan_connection_def split: sum.splits prod.splits)
    show ?thesis using assms(2) conn
    proof (cases rule: clickhouse_connect_cases)
      case (opened m d)
      with res True c show ?thesis
        by (auto simp: new_lease_def Let_def lookup_def [symmetric])
    qed simp
  next
    case False
    let ?bad = "invalidated e \<or> methods (gate e) = binary_methods \<and> broken env c"
    have taken: ?thesis
      if get: "get_connection_entry env user st = (s, Inr e')" and e': "\<not> busy e'" "conn (gate e') = Some d"
        "d \<in> set (open_conns s)" and d: "if ?bad then d \<notin> set (open_conns st) - {c} else d = c" for s e' d
      using assms(3) get e' d False
      by (auto simp: chfdw_get_scan_connection_def new_lease_def Let_def lookup_def [symmetric])
    show ?thesis
    proof (cases ?bad)
      case bad: False
      then have "get_connection_entry env user st = (put_entry ?k e st, Inr e)"
        using False assms(5)
        by (auto simp: get_connection_entry_def Let_def enter close_idle_def test_invalidated_def test_broken_def)
      then show ?thesis using taken [of "put_entry ?k e st" e c] False bad assms(5) c by simp
    next
      case bad: True
      let ?e = "e\<lparr>gate := null_gate (gate e)\<rparr>" and ?s = "st\<lparr>open_conns := remove1 c (open_conns st)\<rparr>"
      have clo: "close_idle (test_broken env) (close_idle test_invalidated (enter_entry ?k st, st)) = (?e, ?s)"
        using False assms(5) bad c by (auto simp: enter close_idle_def test_invalidated_def test_broken_def)
      obtain r s where get: "get_connection_entry env user st = (s, r)" by fastforce
      with assms(3) obtain e' where r: "r = Inr e'" by (cases r) (auto simp: chfdw_get_scan_connection_def)
      with get clo obtain opts s' g where conn: "clickhouse_connect env opts (um_options user) ?s = (s', Inr g)"
        and e': "e' = ?e\<lparr>invalidated := False, server_hashvalue := server_hash env (serverid user),
              mapping_hashvalue := mapping_hash env ?k, gate := g\<rparr>" "s = put_entry ?k e' s'"
        by (auto simp: get_connection_entry_def Let_def split: sum.splits prod.splits)
      show ?thesis using assms(2) conn
      proof (cases rule: clickhouse_connect_cases)
        case (opened m d)
        with taken [OF get [unfolded r], of d] e' False bad dis show ?thesis by auto
      qed simp
    qed
  qed
qed

lemma get_scan_connection_result_witness:
  "\<exists>e. map_of (entries demo_one) 1 = Some e \<and> map_of (entries demo_two) 1 = Some e \<and> busy e"
proof -
  obtain e where e: "map_of (entries demo_one) 1 = Some e" "busy e" "conn (gate e) = Some 1"
  proof -
    have "map_option (\<lambda>e. (busy e, conn (gate e))) (map_of (entries demo_one) 1) = Some (True, Some 1)"
      by code_simp
    then show thesis using that by auto
  qed
  have u: "umid demo_user = 1" by (simp add: demo_user_def)
  obtain sc where sc: "snd (chfdw_get_scan_connection demo_env demo_user demo_one) = Inr sc"
  proof -
    have "\<not> isl (snd (chfdw_get_scan_connection demo_env demo_user demo_one))" by code_simp
    then show thesis using that by (auto simp: isl_def) (metis sum.exhaust)
  qed
  have g: "chfdw_get_scan_connection demo_env demo_user demo_one = (demo_two, Inr sc)"
    using sc by (simp add: demo_two_def prod_eq_iff)
  show ?thesis
    using get_scan_connection_result [OF demo_reach(1) demo_fresh g, of e 1] e u by auto
qed

end
