(* ===== verification/Http.thy ===== *)
theory Http
  imports KvList Endpoint
begin

text \<open>
  The HTTP transport (\<open>src/http.c\<close>, \<open>src/include/http.h\<close>): connection setup, the
  request, the receive buffer with its tail, chunk delivery, late exceptions, the buffered
  query and the server version.

  libcurl is a parameter. What \<open>curl_multi_perform\<close> does in its successive calls is an
  argument, one \<open>perform\<close> record per call: the chunks it passes to the write callback, its
  return code, whether the transfer still runs, and what \<open>curl_easy_getinfo\<close> and
  \<open>curl_multi_info_read\<close> report after it. When the list is exhausted the call does not
  return, and the operation that waits for it is \<open>None\<close>. \<open>alloc n\<close> says whether an
  allocation of \<open>n\<close> bytes succeeds. Sizes are natural numbers: they measure buffers in
  memory and stay far below \<open>2 ^ 64\<close>.
\<close>

section \<open>Data\<close>

abbreviation CH_HTTP_STATUS_CANCELED :: int where "CH_HTTP_STATUS_CANCELED \<equiv> 418"
abbreviation CH_HTTP_STATUS_TRANSPORT_ERROR :: int where "CH_HTTP_STATUS_TRANSPORT_ERROR \<equiv> 419"
abbreviation CH_ERROR_MSG_LEN :: nat where "CH_ERROR_MSG_LEN \<equiv> 4096"
abbreviation INITIAL_BUF_SIZE :: nat where "INITIAL_BUF_SIZE \<equiv> 65536"
abbreviation CURLE_OK :: int where "CURLE_OK \<equiv> 0"
abbreviation CURLE_ABORTED_BY_CALLBACK :: int where "CURLE_ABORTED_BY_CALLBACK \<equiv> 42"

datatype curl_sslversion =
    CURL_SSLVERSION_DEFAULT | CURL_SSLVERSION_TLSv1_0 | CURL_SSLVERSION_TLSv1_1
  | CURL_SSLVERSION_TLSv1_2 | CURL_SSLVERSION_TLSv1_3

record ch_http_connection =
  hc_dbname :: "string option"
  hc_base_url :: string
  hc_ssl_version :: curl_sslversion
  hc_version :: ch_server_version
  hc_version_fetched :: bool

record ch_query =
  q_sql :: string
  q_params :: "string list"
  q_settings :: "(string \<times> string) list"
  q_body :: "string option"

record ch_http_request =
  rq_query :: ch_query
  rq_overrides :: "(string \<times> string) list"
  rq_stream_chunks :: bool

text \<open>
  \<open>HttpStream\<close>: \<open>buf\<close> holds the initialised bytes of the receive buffer, NULL once its
  ownership is handed on; \<open>tail\<close> holds \<open>tail_len\<close> bytes. \<open>overrun\<close> records a write outside
  the \<open>buf_allocated\<close> bytes.
\<close>

record HttpStream =
  buf :: "string option"
  buf_allocated :: nat
  write_pos :: nat
  streaming :: bool
  paused :: bool
  transfer_done :: bool
  tail :: string
  http_status :: int
  query_id :: string
  error_msg :: "string option"
  overrun :: bool

record perform =
  chunks :: "string list"
  mc_error :: "string option"
  running :: bool
  resp_code :: int
  done_result :: "int option"
  done_message :: string

section \<open>Connection\<close>

definition ch_http_status_ok :: "int \<Rightarrow> bool" where
  "ch_http_status_ok status \<longleftrightarrow> status \<ge> 200 \<and> status < 300"

definition curl_min_tls_version :: "tls_version \<Rightarrow> curl_sslversion" where
  "curl_min_tls_version v = (case v of
       CH_TLS_V1_0 \<Rightarrow> CURL_SSLVERSION_TLSv1_0
     | CH_TLS_V1_1 \<Rightarrow> CURL_SSLVERSION_TLSv1_1
     | CH_TLS_V1_2 \<Rightarrow> CURL_SSLVERSION_TLSv1_2
     | CH_TLS_V1_3 \<Rightarrow> CURL_SSLVERSION_TLSv1_3
     | CH_TLS_DEFAULT \<Rightarrow> CURL_SSLVERSION_DEFAULT)"

datatype urlpart = Scheme | Host | Port | Path | User | Password

text \<open>The calls of \<open>curl_url_set\<close> for a connection, in order, and whether they all succeed.\<close>

definition show_int :: "int \<Rightarrow> string" where
  "show_int i = (if i < 0 then CHR ''-'' # show_nat (nat (- i)) else show_nat (nat i))"

definition url_parts :: "'enc ch_connection_details \<Rightarrow> (urlpart \<times> string) list" where
  "url_parts details =
     (let (port, use_tls) = ch_resolve_endpoint details CH_PORTS_HTTP;
          host = (case host details of None \<Rightarrow> ''localhost'' | Some h \<Rightarrow> if h = [] then ''localhost'' else h)
      in [(Scheme, if use_tls then ''https'' else ''http''), (Host, host), (Port, show_int port), (Path, ''/'')]
         @ (case username details of
              None \<Rightarrow> []
            | Some u \<Rightarrow> (User, u) # (case password details of None \<Rightarrow> [] | Some p \<Rightarrow> [(Password, p)])))"

text \<open>
  \<open>ch_http_connection\<close>: \<open>url_set\<close> is the success of one \<open>curl_url_set\<close>, \<open>url_get\<close> the URL that
  \<open>curl_url_get\<close> composes from the parts; \<open>mem\<close> is the success of the three allocations
  (the connection, the copy of the name, the URL handle).
\<close>

definition ch_http_connection_open ::
    "(bool \<times> bool \<times> bool) \<Rightarrow> (urlpart \<times> string \<Rightarrow> bool) \<Rightarrow> ((urlpart \<times> string) list \<Rightarrow> string option)
      \<Rightarrow> 'enc ch_connection_details \<Rightarrow> string + ch_http_connection" where
  "ch_http_connection_open mem url_set url_get details =
     (case mem of (conn_ok, dbname_ok, url_ok) \<Rightarrow>
        if \<not> conn_ok then Inl ''out of memory''
        else if dbname details \<noteq> None \<and> \<not> dbname_ok then Inl ''out of memory''
        else if \<not> url_ok then Inl ''out of memory''
        else if \<not> list_all url_set (url_parts details) then Inl ''could not build ClickHouse URL''
        else (case url_get (url_parts details) of
                None \<Rightarrow> Inl ''could not build ClickHouse URL''
              | Some url \<Rightarrow> Inr \<lparr>hc_dbname = dbname details, hc_base_url = url,
                    hc_ssl_version = curl_min_tls_version (min_tls_version details),
                    hc_version = \<lparr>major = 0, minor = 0, patch = 0\<rparr>, hc_version_fetched = False\<rparr>))"

section \<open>The request\<close>

definition is_overridden :: "ch_http_request \<Rightarrow> string \<Rightarrow> bool" where
  "is_overridden req name \<longleftrightarrow> list_ex (\<lambda>(n, v). n = name) (rq_overrides req)"

text \<open>\<open>snprintf(temp_buf, sizeof(temp_buf), ...)\<close> keeps at most 511 bytes.\<close>

definition temp_buf :: "string \<Rightarrow> string" where
  "temp_buf s = take 511 s"

datatype request_body =
    PostFields string
  | MimeForm "(string \<times> string) list"

record curl_request =
  cr_query :: "string list"
  cr_header :: "string option"
  cr_ssl_version :: curl_sslversion
  cr_body :: request_body

definition query_string :: "string \<Rightarrow> ch_http_request \<Rightarrow> string list" where
  "query_string qid req =
     temp_buf (''query_id='' @ qid)
     # map (\<lambda>(n, v). temp_buf (n @ ''='' @ v))
         (filter (\<lambda>(n, v). \<not> is_overridden req n) (q_settings (rq_query req)))
     @ map (\<lambda>(n, v). temp_buf (n @ ''='' @ v)) (rq_overrides req)"

definition setup_curl :: "ch_http_connection \<Rightarrow> string \<Rightarrow> ch_http_request \<Rightarrow> curl_request" where
  "setup_curl conn qid req =
     (let query = rq_query req
      in \<lparr>cr_query = query_string qid req,
          cr_header = map_option (\<lambda>db. temp_buf (''X-ClickHouse-Database: '' @ db)) (hc_dbname conn),
          cr_ssl_version = hc_ssl_version conn,
          cr_body = (case q_body query of
              Some b \<Rightarrow> PostFields b
            | None \<Rightarrow>
                if q_params query = [] then PostFields (q_sql query)
                else MimeForm ((''query'', q_sql query)
                       # map (\<lambda>i. (temp_buf (''param_p'' @ show_nat (i + 1)), q_params query ! i))
                           [0..<length (q_params query)]))\<rparr>)"

section \<open>Receiving\<close>

definition write_callback :: "(nat \<Rightarrow> bool) \<Rightarrow> string \<Rightarrow> HttpStream \<Rightarrow> HttpStream \<times> nat option" where
  "write_callback alloc contents self =
     (let realsize = length contents;
          needed = write_pos self + realsize + 1;
          newsize = max (buf_allocated self * 2) needed
      in if needed > buf_allocated self \<and> \<not> alloc newsize then (self, None)
         else
           (let self = (if needed > buf_allocated self then self\<lparr>buf_allocated := newsize\<rparr> else self);
                self = self\<lparr>overrun := overrun self \<or> needed > buf_allocated self \<or> buf self = None,
                            buf := map_option (\<lambda>b. take (write_pos self) b @ contents @ [NUL]) (buf self),
                            write_pos := write_pos self + realsize\<rparr>;
                n = min realsize CH_ERROR_MSG_LEN;
                keep = min (length (tail self)) (CH_ERROR_MSG_LEN - n)
            in (if streaming self
                then self\<lparr>tail := drop (length (tail self) - keep) (tail self) @ drop (realsize - n) contents,
                          paused := True\<rparr>
                else self,
                Some realsize)))"

definition deliver :: "(nat \<Rightarrow> bool) \<Rightarrow> string list \<Rightarrow> HttpStream \<Rightarrow> HttpStream" where
  "deliver alloc cs st = fold (\<lambda>c s. fst (write_callback alloc c s)) cs st"

text \<open>The loop of \<open>pump\<close>: the stream, the calls left and the call that ended the loop.\<close>

fun pump_loop ::
    "(nat \<Rightarrow> bool) \<Rightarrow> HttpStream \<Rightarrow> perform list \<Rightarrow> (HttpStream \<times> perform list \<times> perform) option" where
  "pump_loop alloc st [] = None"
| "pump_loop alloc st (p # ps) =
     (let st = deliver alloc (chunks p) st
      in if mc_error p \<noteq> None then Some (st, ps, p)
         else (let st = (if \<not> running p then st\<lparr>transfer_done := True\<rparr> else st)
               in if paused st \<or> transfer_done st then Some (st, ps, p) else pump_loop alloc st ps))"

text \<open>\<open>pump\<close>: \<open>True\<close> for the return value 0.\<close>

definition pump ::
    "(nat \<Rightarrow> bool) \<Rightarrow> HttpStream \<Rightarrow> perform list \<Rightarrow> (HttpStream \<times> perform list \<times> bool) option" where
  "pump alloc st ps =
     (case pump_loop alloc (st\<lparr>paused := False\<rparr>) ps of
        None \<Rightarrow> None
      | Some (st, ps, p) \<Rightarrow>
          (case mc_error p of
             Some m \<Rightarrow> Some (st\<lparr>http_status := CH_HTTP_STATUS_TRANSPORT_ERROR, error_msg := Some m\<rparr>, ps, False)
           | None \<Rightarrow>
               (let st = st\<lparr>http_status := resp_code p\<rparr>
                in case done_result p of
                     None \<Rightarrow> Some (st, ps, True)
                   | Some r \<Rightarrow>
                       if r = CURLE_OK then Some (st, ps, True)
                       else if r = CURLE_ABORTED_BY_CALLBACK
                         then Some (st\<lparr>http_status := CH_HTTP_STATUS_CANCELED\<rparr>, ps, False)
                       else Some (st\<lparr>http_status := CH_HTTP_STATUS_TRANSPORT_ERROR,
                                     error_msg := Some (done_message p)\<rparr>, ps, False))))"

lemma pump_loop_length: "pump_loop alloc st ps = Some (st', ps', p) \<Longrightarrow> length ps' < length ps"
proof (induction alloc st ps rule: pump_loop.induct)
  case (2 alloc st p ps)
  then show ?case
    by (cases "mc_error p") (auto simp: Let_def split: if_splits intro: less_SucI)
qed simp

lemma pump_length: "pump alloc st ps = Some (st', ps', ok) \<Longrightarrow> length ps' < length ps"
  by (auto simp: pump_def Let_def split: option.splits if_splits prod.splits dest: pump_loop_length)

text \<open>\<open>ch_http_stream_next_chunk\<close>: the chunk, empty at a clean end, or the error.\<close>

function ch_http_stream_next_chunk ::
    "(nat \<Rightarrow> bool) \<Rightarrow> HttpStream \<Rightarrow> perform list
      \<Rightarrow> (HttpStream \<times> perform list \<times> (string option + string)) option" where
  "ch_http_stream_next_chunk alloc st ps =
     (if write_pos st \<noteq> 0 then
        Some (st\<lparr>write_pos := 0\<rparr>, ps, Inr (take (write_pos st) (the (buf st))))
      else if transfer_done st then Some (st, ps, Inr [])
      else (case pump alloc st ps of
              None \<Rightarrow> None
            | Some (st', ps', ok) \<Rightarrow>
                if \<not> ok then Some (st', ps', Inl (error_msg st'))
                else ch_http_stream_next_chunk alloc st' ps'))"
  by pat_completeness auto
termination
  by (relation "measure (\<lambda>(alloc, st, ps). length ps)") (auto dest: pump_length)

declare ch_http_stream_next_chunk.simps [simp del]

definition ch_http_copy_error :: "(string \<Rightarrow> nat \<Rightarrow> nat) \<Rightarrow> nat \<Rightarrow> string option \<Rightarrow> string" where
  "ch_http_copy_error mbcliplen bufsize data =
     (let n = (case data of None \<Rightarrow> 0
               | Some d \<Rightarrow> if d = [] then 0 else mbcliplen d (min (length d) (bufsize - 1)));
          bytes = (case data of None \<Rightarrow> [] | Some d \<Rightarrow> take n d);
          cstr = takeWhile (\<lambda>c. c \<noteq> NUL) bytes
      in case find_sub '' (version '' cstr of
           Some r \<Rightarrow> take (length cstr - length r) cstr
         | None \<Rightarrow>
             if bytes \<noteq> [] \<and> last bytes = CHR 0x0A
             then takeWhile (\<lambda>c. c \<noteq> NUL) (butlast bytes) else cstr)"

text \<open>The drain of \<open>ch_http_stream_exception\<close>, with the bytes it has drained.\<close>

function drain_tail ::
    "(nat \<Rightarrow> bool) \<Rightarrow> nat \<Rightarrow> HttpStream \<Rightarrow> perform list \<Rightarrow> (HttpStream \<times> perform list) option" where
  "drain_tail alloc n st ps =
     (if transfer_done st \<or> n \<ge> CH_ERROR_MSG_LEN then Some (st, ps)
      else (case pump alloc (st\<lparr>write_pos := 0\<rparr>) ps of
              None \<Rightarrow> None
            | Some (st', ps', ok) \<Rightarrow>
                if \<not> ok then Some (st', ps') else drain_tail alloc (n + write_pos st') st' ps'))"
  by pat_completeness auto
termination
  by (relation "measure (\<lambda>(alloc, n, st, ps). length ps)") (auto dest: pump_length)

declare drain_tail.simps [simp del]

text \<open>The search for the exception in the tail.\<close>

function find_code :: "string \<Rightarrow> string option" where
  "find_code s =
     (case find_sub ''Code: '' s of
        None \<Rightarrow> None
      | Some exc \<Rightarrow>
          if length exc > 6 \<and> isdigit (exc ! 6) then Some exc else find_code (drop 6 exc))"
  by pat_completeness auto
termination
proof (relation "measure length")
  fix s exc :: string
  assume "find_sub ''Code: '' s = Some exc"
  from find_sub_SomeD [OF this] show "(drop 6 exc, s) \<in> measure length"
    by (auto simp: starts_with_append)
qed simp

declare find_code.simps [simp del]

definition ch_http_stream_exception ::
    "(nat \<Rightarrow> bool) \<Rightarrow> (string \<Rightarrow> nat \<Rightarrow> nat) \<Rightarrow> nat \<Rightarrow> HttpStream \<Rightarrow> perform list
      \<Rightarrow> (HttpStream \<times> perform list \<times> string option) option" where
  "ch_http_stream_exception alloc mbcliplen bufsize st ps =
     (case drain_tail alloc 0 st ps of
        None \<Rightarrow> None
      | Some (st, ps) \<Rightarrow>
          Some (st\<lparr>write_pos := 0\<rparr>, ps,
            map_option (\<lambda>exc. ch_http_copy_error mbcliplen bufsize (Some exc)) (find_code (tail st))))"

section \<open>Lifecycle\<close>

definition error_status :: "int \<Rightarrow> bool" where
  "error_status status \<longleftrightarrow>
     status \<noteq> CH_HTTP_STATUS_CANCELED \<and> status \<noteq> CH_HTTP_STATUS_TRANSPORT_ERROR
     \<and> status > 0 \<and> \<not> ch_http_status_ok status"

definition new_stream :: "bool \<Rightarrow> string \<Rightarrow> HttpStream" where
  "new_stream chunked qid = \<lparr>buf = Some [NUL], buf_allocated = INITIAL_BUF_SIZE, write_pos = 0,
     streaming = chunked, paused = False, transfer_done = False, tail = [], http_status = 0,
     query_id = qid, error_msg = None, overrun = False\<rparr>"

text \<open>
  \<open>ch_http_stream_begin\<close>: \<open>init_ok\<close> is the success of its allocations and libcurl handles;
  \<open>Some None\<close> is the NULL result.
\<close>

definition ch_http_stream_begin ::
    "(nat \<Rightarrow> bool) \<Rightarrow> bool \<Rightarrow> string \<Rightarrow> ch_http_request \<Rightarrow> perform list
      \<Rightarrow> (HttpStream \<times> perform list) option option" where
  "ch_http_stream_begin alloc init_ok qid req ps =
     (if \<not> init_ok then Some None
      else (case pump alloc (new_stream (rq_stream_chunks req) qid) ps of
              None \<Rightarrow> None
            | Some (st, ps, _) \<Rightarrow>
                if streaming st \<and> error_status (http_status st) then
                  (case pump alloc (st\<lparr>streaming := False\<rparr>) ps of
                     None \<Rightarrow> None
                   | Some (st, ps, _) \<Rightarrow> Some (Some (st, ps)))
                else Some (Some (st, ps))))"

definition take_body :: "HttpStream \<Rightarrow> HttpStream \<times> string option" where
  "take_body st =
     (if http_status st = CH_HTTP_STATUS_TRANSPORT_ERROR \<and> error_msg st \<noteq> None
      then (st\<lparr>error_msg := None\<rparr>, error_msg st)
      else if write_pos st = 0 \<or> buf st = None then (st, None)
      else (st\<lparr>buf := None\<rparr>, Some (take (write_pos st) (the (buf st)))))"

record ch_http_response =
  rs_data :: "string option"
  rs_status :: int
  rs_query_id :: string

definition tsv_overrides :: "(string \<times> string) list" where
  "tsv_overrides = [(''date_time_output_format'', ''iso''),
     (''format_tsv_null_representation'', [BSLASH, CHR ''N'']),
     (''output_format_tsv_crlf_end_of_line'', ''0'')]"

definition tsv_request :: "ch_query \<Rightarrow> ch_http_request" where
  "tsv_request query = \<lparr>rq_query = query, rq_overrides = tsv_overrides, rq_stream_chunks = False\<rparr>"

text \<open>\<open>ch_http_simple_query\<close>: \<open>mem\<close> is the success of the allocation of the response.\<close>

definition ch_http_simple_query ::
    "(nat \<Rightarrow> bool) \<Rightarrow> bool \<Rightarrow> bool \<Rightarrow> string \<Rightarrow> ch_query \<Rightarrow> perform list
      \<Rightarrow> ch_http_response option option" where
  "ch_http_simple_query alloc init_ok mem qid query ps =
     (case ch_http_stream_begin alloc init_ok qid (tsv_request query) ps of
        None \<Rightarrow> None
      | Some None \<Rightarrow> Some None
      | Some (Some (st, ps)) \<Rightarrow>
          if \<not> mem then Some None
          else Some (Some \<lparr>rs_data = snd (take_body st), rs_status = http_status st,
                           rs_query_id = query_id st\<rparr>))"

section \<open>Server version\<close>

text \<open>\<open>%d\<close> of \<open>sscanf\<close>: the value as an \<open>int\<close> and the unread rest, \<open>None\<close> without a digit.\<close>

definition scan_int :: "string \<Rightarrow> (int \<times> string) option" where
  "scan_int s = (case strtol10 s of (v, r) \<Rightarrow>
     if r = s then None else Some (signed_take_bit 31 v, r))"

text \<open>\<open>sscanf(s, "%d.%d...")\<close> with up to \<open>n\<close> numbers: those it stores.\<close>

fun scan_version :: "nat \<Rightarrow> string \<Rightarrow> int list" where
  "scan_version 0 s = []"
| "scan_version (Suc n) s =
     (case scan_int s of
        None \<Rightarrow> []
      | Some (v, r) \<Rightarrow>
          (case r of c # r' \<Rightarrow> if c = CHR ''.'' then v # scan_version n r' else [v]
           | [] \<Rightarrow> [v]))"

text \<open>The fields \<open>sscanf\<close> stores; it leaves the others as they were.\<close>

definition store_version :: "int list \<Rightarrow> ch_server_version \<Rightarrow> ch_server_version" where
  "store_version vs v =
     v\<lparr>major := (if length vs > 0 then vs ! 0 else major v),
       minor := (if length vs > 1 then vs ! 1 else minor v),
       patch := (if length vs > 2 then vs ! 2 else patch v)\<rparr>"

definition parse_version :: "string \<Rightarrow> ch_server_version \<Rightarrow> ch_server_version" where
  "parse_version data old =
     (let parsed = scan_version 4 (takeWhile (\<lambda>c. c \<noteq> NUL) (take 31 data))
      in if length parsed < 2 then \<lparr>major = 0, minor = 0, patch = 0\<rparr> else store_version parsed old)"

text \<open>
  \<open>ch_http_server_version\<close>: \<open>run\<close> is what the version query returns. Returns the connection
  with its cache, the version and whether a query was sent.
\<close>

definition ch_http_server_version ::
    "ch_http_response option \<Rightarrow> ch_http_connection option
      \<Rightarrow> ch_http_connection option \<times> ch_server_version \<times> bool" where
  "ch_http_server_version resp conn =
     (case conn of
        None \<Rightarrow> (None, \<lparr>major = 0, minor = 0, patch = 0\<rparr>, False)
      | Some c \<Rightarrow>
          if hc_version_fetched c then (Some c, hc_version c, False)
          else
            (let v = (case resp of
                        None \<Rightarrow> hc_version c
                      | Some r \<Rightarrow>
                          (case rs_data r of
                             Some d \<Rightarrow> if ch_http_status_ok (rs_status r) then parse_version d (hc_version c)
                                       else hc_version c
                           | None \<Rightarrow> hc_version c))
             in (Some (c\<lparr>hc_version_fetched := True, hc_version := v\<rparr>), v, True)))"

section \<open>The receive buffer\<close>

definition content :: "HttpStream \<Rightarrow> string" where
  "content st = take (write_pos st) (the (buf st))"

text \<open>
  The buffer holds the received bytes and the NUL that follows them inside the allocation,
  and no write has left it.
\<close>

definition stream_ok :: "HttpStream \<Rightarrow> bool" where
  "stream_ok st \<longleftrightarrow> \<not> overrun st \<and> length (tail st) \<le> CH_ERROR_MSG_LEN
     \<and> (\<exists>b. buf st = Some b \<and> write_pos st < length b \<and> length b \<le> buf_allocated st)"

definition suffix_of :: "nat \<Rightarrow> 'a list \<Rightarrow> 'a list" where
  "suffix_of n xs = drop (length xs - n) xs"

lemma suffix_of_append:
  "suffix_of n (xs @ ys) = (if n \<le> length ys then suffix_of n ys else suffix_of (n - length ys) xs @ ys)"
  by (simp add: suffix_of_def)

lemma suffix_of_suffix: "k \<le> n \<Longrightarrow> suffix_of k (suffix_of n xs) = suffix_of k xs"
  by (cases "n < length xs") (simp_all add: suffix_of_def)

lemma suffix_of_all: "length xs \<le> n \<Longrightarrow> suffix_of n xs = xs"
  by (simp add: suffix_of_def)

lemma suffix_of_min: "suffix_of (min (length xs) n) xs = suffix_of n xs"
  by (auto simp: suffix_of_def min_def)

lemma length_suffix_of: "length (suffix_of n xs) = min (length xs) n"
  by (auto simp: suffix_of_def)

text \<open>The two copies that maintain the tail keep the last bytes of all that was received.\<close>

lemma tail_copy:
  fixes c all :: string and N :: nat
  defines "m \<equiv> min (length c) N" and "t \<equiv> suffix_of N all"
  shows "drop (length t - min (length t) (N - m)) t @ drop (length c - m) c = suffix_of N (all @ c)"
proof -
  have "drop (length t - min (length t) (N - m)) t = suffix_of (N - m) t"
    using suffix_of_min [of t "N - m"] by (simp add: suffix_of_def)
  also have "\<dots> = suffix_of (N - m) all" unfolding t_def by (rule suffix_of_suffix) simp
  finally have t: "drop (length t - min (length t) (N - m)) t = suffix_of (N - m) all" .
  show ?thesis
  proof (cases "N \<le> length c")
    case True
    then show ?thesis unfolding t by (simp add: suffix_of_append m_def) (simp add: suffix_of_def)
  next
    case False
    then show ?thesis unfolding t by (simp add: suffix_of_append m_def)
  qed
qed

lemma write_callback_effect:
  assumes ok: "stream_ok st" and mem: "\<forall>n. alloc n" and wc: "write_callback alloc c st = (st', r)"
  shows "stream_ok st'" "content st' = content st @ c" "r = Some (length c)"
    "write_pos st' = write_pos st + length c"
    "streaming st' = streaming st" "paused st' \<longleftrightarrow> paused st \<or> streaming st"
    "transfer_done st' = transfer_done st" "error_msg st' = error_msg st"
    "streaming st \<Longrightarrow> tail st = suffix_of CH_ERROR_MSG_LEN all \<Longrightarrow>
       tail st' = suffix_of CH_ERROR_MSG_LEN (all @ c)"
proof -
  obtain b where b: "buf st = Some b" "write_pos st < length b" "length b \<le> buf_allocated st"
    and o: "\<not> overrun st" "length (tail st) \<le> CH_ERROR_MSG_LEN"
    using ok by (auto simp: stream_ok_def)
  let ?n = "min (length c) CH_ERROR_MSG_LEN"
  let ?k = "min (length (tail st)) (CH_ERROR_MSG_LEN - ?n)"
  let ?t = "drop (length (tail st) - ?k) (tail st) @ drop (length c - ?n) c"
  define A where "A = (if write_pos st + length c + 1 > buf_allocated st
      then max (buf_allocated st * 2) (write_pos st + length c + 1) else buf_allocated st)"
  have A: "write_pos st + length c + 1 \<le> A" by (simp add: A_def)
  have st': "st' = (if streaming st then st\<lparr>buf_allocated := A, overrun := False,
        buf := Some (take (write_pos st) b @ c @ [NUL]), write_pos := write_pos st + length c,
        tail := ?t, paused := True\<rparr>
      else st\<lparr>buf_allocated := A, overrun := False,
        buf := Some (take (write_pos st) b @ c @ [NUL]), write_pos := write_pos st + length c\<rparr>)"
    and r: "r = Some (length c)"
    using wc mem b o A by (auto simp: write_callback_def Let_def A_def)
  have lt: "length ?t \<le> CH_ERROR_MSG_LEN" by simp
  show "stream_ok st'" using b o A lt by (auto simp: st' stream_ok_def)
  show "content st' = content st @ c" using b by (simp add: st' content_def)
  show "r = Some (length c)" by (fact r)
  show "write_pos st' = write_pos st + length c" "streaming st' = streaming st"
    "paused st' \<longleftrightarrow> paused st \<or> streaming st" "transfer_done st' = transfer_done st" "error_msg st' = error_msg st"
    by (auto simp: st')
  show "tail st' = suffix_of CH_ERROR_MSG_LEN (all @ c)" if "streaming st" "tail st = suffix_of CH_ERROR_MSG_LEN all"
    using that tail_copy [of CH_ERROR_MSG_LEN all c] by (simp add: st')
qed

lemma deliver_effect:
  assumes mem: "\<forall>n. alloc n" and ok: "stream_ok st"
  shows "stream_ok (deliver alloc cs st) \<and> content (deliver alloc cs st) = content st @ concat cs
    \<and> streaming (deliver alloc cs st) = streaming st
    \<and> (paused (deliver alloc cs st) \<longleftrightarrow> paused st \<or> (streaming st \<and> cs \<noteq> []))
    \<and> transfer_done (deliver alloc cs st) = transfer_done st
    \<and> (streaming st \<and> tail st = suffix_of CH_ERROR_MSG_LEN all \<longrightarrow>
       tail (deliver alloc cs st) = suffix_of CH_ERROR_MSG_LEN (all @ concat cs))"
  using ok
proof (induction cs arbitrary: st all)
  case (Cons c cs)
  obtain s r where w: "write_callback alloc c st = (s, r)" by fastforce
  note W = write_callback_effect [OF Cons.prems mem w]
  have "deliver alloc (c # cs) st = deliver alloc cs s" by (simp add: deliver_def w)
  with Cons.IH [OF W(1), of "all @ c"] W show ?case by auto
qed (simp add: deliver_def)

section \<open>Successful transfers\<close>

text \<open>
  What libcurl does in a transfer that succeeds. In chunked mode the write callback pauses the
  transfer, so one call delivers at most one chunk; the transfer runs until the call that
  reports its end with \<open>CURLE_OK\<close>; calls after that one find nothing to do.
\<close>

definition idle :: "perform \<Rightarrow> bool" where
  "idle p \<longleftrightarrow> mc_error p = None \<and> chunks p = [] \<and> \<not> running p \<and> done_result p = None"

fun script_ok :: "bool \<Rightarrow> perform list \<Rightarrow> bool" where
  "script_ok chunked [] = False"
| "script_ok chunked (p # ps) =
     (mc_error p = None \<and> (chunked \<longrightarrow> length (chunks p) \<le> 1)
      \<and> (if running p then done_result p = None \<and> script_ok chunked ps
         else done_result p = Some CURLE_OK \<and> list_all idle ps))"

text \<open>The body of the response: the chunks up to the call that ends the transfer.\<close>

fun body_of :: "perform list \<Rightarrow> string" where
  "body_of [] = []"
| "body_of (p # ps) = concat (chunks p) @ (if running p then body_of ps else [])"

lemma stream_upd [simp]:
  "stream_ok (st\<lparr>paused := x\<rparr>) = stream_ok st" "content (st\<lparr>paused := x\<rparr>) = content st"
  "stream_ok (st\<lparr>transfer_done := x\<rparr>) = stream_ok st" "content (st\<lparr>transfer_done := x\<rparr>) = content st"
  "stream_ok (st\<lparr>http_status := n\<rparr>) = stream_ok st" "content (st\<lparr>http_status := n\<rparr>) = content st"
  "stream_ok (st\<lparr>streaming := x\<rparr>) = stream_ok st" "content (st\<lparr>streaming := x\<rparr>) = content st"
  "stream_ok (st\<lparr>error_msg := m\<rparr>) = stream_ok st" "content (st\<lparr>error_msg := m\<rparr>) = content st"
  "content (st\<lparr>write_pos := 0\<rparr>) = []"
  by (simp_all add: stream_ok_def content_def)

lemma stream_ok_rewind [simp]: "stream_ok st \<Longrightarrow> stream_ok (st\<lparr>write_pos := 0\<rparr>)"
  by (auto simp: stream_ok_def)

definition transfer_step ::
    "HttpStream \<Rightarrow> perform list \<Rightarrow> HttpStream \<Rightarrow> perform list \<Rightarrow> perform \<Rightarrow> bool" where
  "transfer_step st ps st' ps' p \<longleftrightarrow>
     mc_error p = None \<and> p \<in> set ps \<and> stream_ok st' \<and> streaming st' = streaming st
   \<and> set ps' \<subseteq> set ps
   \<and> (if transfer_done st' then content st' = content st @ body_of ps \<and> done_result p = Some CURLE_OK
           \<and> p = hd (dropWhile running ps) \<and> list_all idle ps' \<and> (idle (last ps) \<longrightarrow> ps' \<noteq> [])
      else streaming st \<and> script_ok True ps' \<and> done_result p = None
           \<and> hd (dropWhile running ps') = hd (dropWhile running ps) \<and> last ps' = last ps
           \<and> content st' @ body_of ps' = content st @ body_of ps)
   \<and> (\<exists>rcv. content st' = content st @ rcv
        \<and> (\<forall>all. streaming st \<and> tail st = suffix_of CH_ERROR_MSG_LEN all
             \<longrightarrow> tail st' = suffix_of CH_ERROR_MSG_LEN (all @ rcv)))"

lemma pump_loop_ok:
  assumes mem: "\<forall>n. alloc n"
  shows "stream_ok st \<Longrightarrow> \<not> paused st \<Longrightarrow> \<not> transfer_done st \<Longrightarrow> script_ok (streaming st) ps \<Longrightarrow>
     \<exists>st' ps' p. pump_loop alloc st ps = Some (st', ps', p) \<and> transfer_step st ps st' ps' p"
proof (induction ps arbitrary: st)
  case (Cons p ps)
  let ?s = "deliver alloc (chunks p) st"
  note D = deliver_effect [OF mem Cons.prems(1), where cs = "chunks p"]
  have m: "mc_error p = None" using Cons.prems(4) by simp
  consider (fin) "\<not> running p" | (pause) "running p" "streaming st" "chunks p \<noteq> []"
    | (cont) "running p" "\<not> (streaming st \<and> chunks p \<noteq> [])" by blast
  then show ?case
  proof cases
    case fin
    let ?s' = "?s\<lparr>transfer_done := True\<rparr>"
    have "pump_loop alloc st (p # ps) = Some (?s', ps, p)" using fin m by (simp add: Let_def)
    moreover have "transfer_step st (p # ps) ?s' ps p"
      unfolding transfer_step_def using D fin m Cons.prems(4)
      by (intro conjI exI [of _ "concat (chunks p)"]) (auto simp: idle_def split: if_splits)
    ultimately show ?thesis by blast
  next
    case pause
    have "pump_loop alloc st (p # ps) = Some (?s, ps, p)" using pause m D by (simp add: Let_def)
    moreover have "transfer_step st (p # ps) ?s ps p"
      unfolding transfer_step_def using D pause m Cons.prems
      by (intro conjI exI [of _ "concat (chunks p)"]) auto
    ultimately show ?thesis by blast
  next
    case cont
    have s: "pump_loop alloc st (p # ps) = pump_loop alloc ?s ps"
      using cont m D Cons.prems(2,3) by (auto simp: Let_def)
    have "script_ok (streaming ?s) ps" using D Cons.prems(4) cont(1) by simp
    then obtain st' ps' q where r: "pump_loop alloc ?s ps = Some (st', ps', q)" and t: "transfer_step ?s ps st' ps' q"
      using Cons.IH [of ?s] D Cons.prems(2,3) cont(2) by blast
    from t obtain rcv where rcv: "content st' = content ?s @ rcv"
      "\<forall>all. streaming ?s \<and> tail ?s = suffix_of CH_ERROR_MSG_LEN all
         \<longrightarrow> tail st' = suffix_of CH_ERROR_MSG_LEN (all @ rcv)" unfolding transfer_step_def by blast
    have "transfer_step st (p # ps) st' ps' q"
      unfolding transfer_step_def
    proof (intro conjI exI [of _ "concat (chunks p) @ rcv"] allI impI)
      fix all assume "streaming st \<and> tail st = suffix_of CH_ERROR_MSG_LEN all"
      with D [of all] rcv(2) [rule_format, of "all @ concat (chunks p)"]
      show "tail st' = suffix_of CH_ERROR_MSG_LEN (all @ concat (chunks p) @ rcv)" by simp
    qed (use t D cont(1) rcv(1) in \<open>auto simp: transfer_step_def split: if_splits\<close>)
    then show ?thesis using s r by auto
  qed
qed simp

lemma pump_ok:
  assumes mem: "\<forall>n. alloc n" and st: "stream_ok st" "\<not> transfer_done st" and ps: "script_ok (streaming st) ps"
  shows "\<exists>st' ps' p. pump alloc st ps = Some (st', ps', True) \<and> transfer_step st ps st' ps' p
     \<and> http_status st' = resp_code p"
proof -
  obtain st' ps' p where l: "pump_loop alloc (st\<lparr>paused := False\<rparr>) ps = Some (st', ps', p)"
    and t: "transfer_step (st\<lparr>paused := False\<rparr>) ps st' ps' p"
    using pump_loop_ok [OF mem, where st = "st\<lparr>paused := False\<rparr>" and ps = ps] st ps by auto
  have t': "transfer_step st ps (st'\<lparr>http_status := resp_code p\<rparr>) ps' p"
    using t by (auto simp: transfer_step_def)
  have "pump alloc st ps = Some (st'\<lparr>http_status := resp_code p\<rparr>, ps', True)"
    using l t by (auto simp: pump_def Let_def transfer_step_def split: if_splits)
  with t' show ?thesis by (intro exI) auto
qed

section \<open>Reading the body\<close>

lemma next_chunk_progress:
  "ch_http_stream_next_chunk alloc st ps = Some (st', ps', Inr s) \<Longrightarrow> s \<noteq> [] \<Longrightarrow>
     write_pos st' = 0 \<and> length ps' + 0 < length ps + (if write_pos st \<noteq> 0 then 1 else 0)"
proof (induction alloc st ps rule: ch_http_stream_next_chunk.induct)
  case (1 alloc st ps)
  show ?case
  proof (cases "write_pos st \<noteq> 0 \<or> transfer_done st")
    case True
    with 1(2,3) show ?thesis by (subst (asm) ch_http_stream_next_chunk.simps) (auto split: if_splits)
  next
    case False
    with 1(2) obtain st1 ps1 where p: "pump alloc st ps = Some (st1, ps1, True)"
      and n: "ch_http_stream_next_chunk alloc st1 ps1 = Some (st', ps', Inr s)"
      by (subst (asm) ch_http_stream_next_chunk.simps) (auto split: option.splits if_splits)
    have "write_pos st' = 0 \<and> length ps' + 0 < length ps1 + (if write_pos st1 \<noteq> 0 then 1 else 0)"
      using 1(1) [OF _ _ p refl refl _ n 1(3)] False by simp
    with pump_length [OF p] False show ?thesis by (auto split: if_splits)
  qed
qed

text \<open>The loop of a decoder that reads chunks until the end of the body.\<close>

function read_body ::
    "(nat \<Rightarrow> bool) \<Rightarrow> HttpStream \<Rightarrow> perform list \<Rightarrow> (string option + string) option" where
  "read_body alloc st ps =
     (case ch_http_stream_next_chunk alloc st ps of
        None \<Rightarrow> None
      | Some (st', ps', Inl e) \<Rightarrow> Some (Inl e)
      | Some (st', ps', Inr s) \<Rightarrow>
          if s = [] then Some (Inr [])
          else (case read_body alloc st' ps' of
                  None \<Rightarrow> None
                | Some (Inl e) \<Rightarrow> Some (Inl e)
                | Some (Inr t) \<Rightarrow> Some (Inr (s @ t))))"
  by pat_completeness auto
termination
  by (relation "measure (\<lambda>(alloc, st, ps). length ps + (if write_pos st \<noteq> 0 then 1 else 0))")
     (auto dest!: next_chunk_progress)

declare read_body.simps [simp del]

text \<open>A stream in the middle of a successful chunked transfer, and the bytes still to come.\<close>

definition reading :: "HttpStream \<Rightarrow> perform list \<Rightarrow> bool" where
  "reading st ps \<longleftrightarrow> stream_ok st \<and> streaming st \<and> (transfer_done st \<or> script_ok True ps)"

definition remaining :: "HttpStream \<Rightarrow> perform list \<Rightarrow> string" where
  "remaining st ps = (if transfer_done st then [] else body_of ps)"

lemma pump_reading:
  assumes mem: "\<forall>n. alloc n" and "reading st ps" and "\<not> transfer_done st"
  obtains st' ps' p rcv where "pump alloc st ps = Some (st', ps', True)" "reading st' ps'"
    "content st' @ remaining st' ps' = content st @ remaining st ps" "http_status st' = resp_code p" "p \<in> set ps"
    "content st' = content st @ rcv"
    "\<And>all. tail st = suffix_of CH_ERROR_MSG_LEN all \<Longrightarrow> tail st' = suffix_of CH_ERROR_MSG_LEN (all @ rcv)"
    "set ps' \<subseteq> set ps"
proof -
  have s: "stream_ok st" "streaming st" "script_ok (streaming st) ps" using assms by (auto simp: reading_def)
  obtain st' ps' p where p: "pump alloc st ps = Some (st', ps', True)" and t: "transfer_step st ps st' ps' p"
    and h: "http_status st' = resp_code p" using pump_ok [OF mem s(1) assms(3) s(3)] by blast
  have r: "reading st' ps'" "content st' @ remaining st' ps' = content st @ remaining st ps"
    using t s(2) assms(3) by (auto simp: transfer_step_def reading_def remaining_def split: if_splits)
  show thesis
    using t s(2) unfolding transfer_step_def by (elim conjE exE) (rule that [OF p r h], auto)
qed

lemma content_empty: "stream_ok st \<Longrightarrow> content st = [] \<longleftrightarrow> write_pos st = 0"
  by (auto simp: stream_ok_def content_def)

lemma next_chunk_ok:
  assumes mem: "\<forall>n. alloc n"
  shows "reading st ps \<Longrightarrow> \<exists>st' ps' s. ch_http_stream_next_chunk alloc st ps = Some (st', ps', Inr s)
    \<and> reading st' ps' \<and> content st' = [] \<and> s @ remaining st' ps' = content st @ remaining st ps
    \<and> (s = [] \<longrightarrow> remaining st' ps' = [])"
proof (induction "length ps" arbitrary: st ps rule: less_induct)
  case less
  have ok: "stream_ok st" using less.prems by (simp add: reading_def)
  consider (full) "write_pos st \<noteq> 0" | (fin) "write_pos st = 0" "transfer_done st"
    | (more) "write_pos st = 0" "\<not> transfer_done st" by blast
  then show ?case
  proof cases
    case full
    then have "content st \<noteq> []" using content_empty [OF ok] by simp
    with full less.prems show ?thesis
      by (subst ch_http_stream_next_chunk.simps) (auto simp: reading_def remaining_def content_def)
  next
    case fin
    with less.prems show ?thesis
      by (subst ch_http_stream_next_chunk.simps) (auto simp: reading_def remaining_def content_def)
  next
    case more
    obtain st' ps' where p: "pump alloc st ps = Some (st', ps', True)" and r: "reading st' ps'"
      and c: "content st' @ remaining st' ps' = content st @ remaining st ps"
      using pump_reading [OF mem less.prems more(2)] by metis
    have "ch_http_stream_next_chunk alloc st ps = ch_http_stream_next_chunk alloc st' ps'"
      using more p by (subst ch_http_stream_next_chunk.simps) simp
    then show ?thesis using less.hyps [OF pump_length [OF p] r] c by simp
  qed
qed

lemma read_body_ok:
  "\<forall>n. alloc n \<Longrightarrow> reading st ps \<Longrightarrow> read_body alloc st ps = Some (Inr (content st @ remaining st ps))"
proof (induction alloc st ps rule: read_body.induct)
  case (1 alloc st ps)
  obtain st' ps' s where n: "ch_http_stream_next_chunk alloc st ps = Some (st', ps', Inr s)" "reading st' ps'"
    "content st' = []" "s @ remaining st' ps' = content st @ remaining st ps" "s = [] \<longrightarrow> remaining st' ps' = []"
    using next_chunk_ok [OF 1(2,3)] by blast
  show ?case
  proof (cases "s = []")
    case True
    with n show ?thesis by (subst read_body.simps) simp
  next
    case False
    have "read_body alloc st' ps' = Some (Inr (content st' @ remaining st' ps'))"
      using 1(1) [OF n(1) refl refl refl False] 1(2) n(2) by blast
    with n False show ?thesis by (subst read_body.simps) simp
  qed
qed

lemma new_stream_ok:
  "stream_ok (new_stream chunked qid)" "content (new_stream chunked qid) = []"
  "streaming (new_stream chunked qid) = chunked" "\<not> transfer_done (new_stream chunked qid)"
  "tail (new_stream chunked qid) = suffix_of CH_ERROR_MSG_LEN []"
  "error_msg (new_stream chunked qid) = None" "query_id (new_stream chunked qid) = qid"
  by (simp_all add: new_stream_def stream_ok_def content_def suffix_of_def)

section \<open>Late exceptions\<close>

lemma find_code_Some:
  "find_code s = Some r \<Longrightarrow> \<exists>pre d rest. s = pre @ r \<and> r = ''Code: '' @ d # rest \<and> isdigit d"
proof (induction s rule: find_code.induct)
  case (1 s)
  then obtain exc where f: "find_sub ''Code: '' s = Some exc"
    by (subst (asm) (2) find_code.simps) (auto split: option.splits)
  from find_sub_SomeD [OF f] obtain pre t where e: "s = pre @ exc" "exc = ''Code: '' @ t"
    by (auto simp: starts_with_append)
  show ?case
  proof (cases "length exc > 6 \<and> isdigit (exc ! 6)")
    case True
    with 1(2) f have "r = exc" by (subst (asm) find_code.simps) simp
    with e True show ?thesis by (cases t) auto
  next
    case False
    with 1(2) f have "find_code (drop 6 exc) = Some r" by (subst (asm) find_code.simps) simp
    with 1(1) [OF f False] e show ?thesis by (metis append.assoc append_take_drop_id)
  qed
qed

text \<open>\<open>Code: \<close> does not overlap itself, so skipping a match skips no other one.\<close>

lemma code_no_overlap:
  assumes "''Code: '' @ t = a @ ''Code: '' @ u" and "a \<noteq> []"
  shows "\<exists>b. a = ''Code: '' @ b"
proof -
  have "length a \<noteq> n" if "n \<in> {1, 2, 3, 4, 5}" for n
  proof
    assume "length a = n"
    then have "(''Code: '' @ t) ! n = CHR ''C''" using assms(1) by (simp add: nth_append)
    with that show False by auto
  qed
  from this [of 1] this [of 2] this [of 3] this [of 4] this [of 5]
  have "length a \<noteq> 1 \<and> length a \<noteq> 2 \<and> length a \<noteq> 3 \<and> length a \<noteq> 4 \<and> length a \<noteq> 5" by simp
  moreover have "length a \<noteq> 0" using assms(2) by simp
  ultimately have "6 \<le> length a" by presburger
  then have "take 6 a = take 6 (''Code: '' @ t)" using assms(1) by simp
  then have "a = ''Code: '' @ drop 6 a" using append_take_drop_id [of 6 a] by simp
  then show ?thesis by blast
qed

lemma find_code_None:
  "find_code s = None \<Longrightarrow> s = pre @ ''Code: '' @ d # rest \<Longrightarrow> \<not> isdigit d"
proof (induction s arbitrary: pre rule: find_code.induct)
  case (1 s)
  show ?case
  proof (cases "find_sub ''Code: '' s")
    case None
    with find_sub_NoneD [OF None 1(3)] show ?thesis by (simp add: starts_with_append)
  next
    case (Some exc)
    from find_sub_SomeD [OF Some] obtain pre' t where e: "s = pre' @ exc" "exc = ''Code: '' @ t"
      by (auto simp: starts_with_append)
    have no: "\<not> (length exc > 6 \<and> isdigit (exc ! 6))" and rec: "find_code (drop 6 exc) = None"
      using 1(2) Some by (subst (asm) find_code.simps; auto split: if_splits)+
    have "length (''Code: '' @ d # rest) \<le> length exc"
      by (rule find_sub_first [OF Some 1(3)]) (simp add: starts_with_append)
    with e 1(3) obtain a where a: "exc = a @ ''Code: '' @ d # rest"
      using append_suffix_total [of pre "''Code: '' @ d # rest" pre' exc] by auto
    show ?thesis
    proof (cases "a = []")
      case True
      with a no show ?thesis by simp
    next
      case False
      with a e(2) code_no_overlap [of t a "d # rest"] obtain b where "a = ''Code: '' @ b" by auto
      with a have "drop 6 exc = b @ ''Code: '' @ d # rest" by simp
      with 1(1) [OF Some no rec] show ?thesis by blast
    qed
  qed
qed

lemma length_content: "stream_ok st \<Longrightarrow> length (content st) = write_pos st"
  by (auto simp: stream_ok_def content_def)

lemma drain_tail_ok:
  assumes mem: "\<forall>n. alloc n"
  shows "reading st ps \<Longrightarrow> tail st = suffix_of CH_ERROR_MSG_LEN all \<Longrightarrow>
     n + length (remaining st ps) < CH_ERROR_MSG_LEN \<Longrightarrow>
     \<exists>st' ps'. drain_tail alloc n st ps = Some (st', ps')
       \<and> tail st' = suffix_of CH_ERROR_MSG_LEN (all @ remaining st ps)"
proof (induction "length ps" arbitrary: st ps n all rule: less_induct)
  case less
  show ?case
  proof (cases "transfer_done st")
    case True
    with less.prems show ?thesis by (subst drain_tail.simps) (simp add: remaining_def)
  next
    case False
    let ?s = "st\<lparr>write_pos := 0\<rparr>"
    have s: "reading ?s ps" "\<not> transfer_done ?s" using less.prems(1) False by (auto simp: reading_def)
    obtain st' ps' rcv where p: "pump alloc ?s ps = Some (st', ps', True)" and r: "reading st' ps'"
      and c: "content st' @ remaining st' ps' = content ?s @ remaining ?s ps" "content st' = content ?s @ rcv"
      and t: "\<And>all. tail ?s = suffix_of CH_ERROR_MSG_LEN all \<Longrightarrow> tail st' = suffix_of CH_ERROR_MSG_LEN (all @ rcv)"
      using pump_reading [OF mem s] by metis
    have rem: "remaining st ps = rcv @ remaining st' ps'" using c by (simp add: remaining_def)
    have "write_pos st' = length rcv" using length_content [of st'] r c(2) by (simp add: reading_def)
    then have "drain_tail alloc n st ps = drain_tail alloc (n + length rcv) st' ps'"
      using False p less.prems(3) by (subst drain_tail.simps) simp
    moreover have "tail st' = suffix_of CH_ERROR_MSG_LEN (all @ rcv)" using t less.prems(2) by simp
    ultimately show ?thesis
      using less.hyps [OF pump_length [OF p] r, of "all @ rcv" "n + length rcv"] less.prems(3) rem by simp
  qed
qed

section \<open>Properties\<close>

text \<open>
  C30: Streaming. Whatever the way libcurl cuts the body of a successful response into calls and
  chunks, beginning a chunked request and reading chunks until the end terminates and gives
  exactly the bytes of the body, and no write leaves the receive buffer.
\<close>

theorem http_stream_body:
  assumes "\<forall>n. alloc n" and "rq_stream_chunks req" and "script_ok True ps"
    and "\<forall>p \<in> set ps. \<not> error_status (resp_code p)"
  shows "\<exists>st ps'. ch_http_stream_begin alloc True qid req ps = Some (Some (st, ps'))
    \<and> \<not> overrun st \<and> read_body alloc st ps' = Some (Inr (body_of ps))"
proof -
  let ?n = "new_stream True qid"
  have r: "reading ?n ps" "\<not> transfer_done ?n" using assms(3) by (simp_all add: reading_def new_stream_ok)
  obtain st ps' p where p: "pump alloc ?n ps = Some (st, ps', True)" "reading st ps'"
    "content st @ remaining st ps' = content ?n @ remaining ?n ps" "http_status st = resp_code p" "p \<in> set ps"
    using pump_reading [OF assms(1) r] by metis
  have "\<not> error_status (http_status st)" using p(4,5) assms(4) by simp
  then have "ch_http_stream_begin alloc True qid req ps = Some (Some (st, ps'))"
    using assms(2) p(1) by (simp add: ch_http_stream_begin_def)
  moreover have "read_body alloc st ps' = Some (Inr (body_of ps))"
    using read_body_ok [OF assms(1) p(2)] p(3) r(2) by (simp add: new_stream_ok remaining_def)
  moreover have "\<not> overrun st" using p(2) by (simp add: reading_def stream_ok_def)
  ultimately show ?thesis by blast
qed

definition demo_call :: "string list \<Rightarrow> bool \<Rightarrow> int option \<Rightarrow> perform" where
  "demo_call cs run res = \<lparr>chunks = cs, mc_error = None, running = run, resp_code = 200,
     done_result = res, done_message = []\<rparr>"

definition demo_query :: "bool \<Rightarrow> ch_http_request" where
  "demo_query chunked = \<lparr>rq_query = \<lparr>q_sql = ''SELECT 1'', q_params = [], q_settings = [], q_body = None\<rparr>,
     rq_overrides = [], rq_stream_chunks = chunked\<rparr>"

lemma http_stream_body_witness:
  "\<exists>st ps'. ch_http_stream_begin (\<lambda>_. True) True ''id'' (demo_query True)
       [demo_call [''ab''] True None, demo_call [] True None, demo_call [''c''] False (Some 0)]
     = Some (Some (st, ps')) \<and> read_body (\<lambda>_. True) st ps' = Some (Inr ''abc'')"
  using http_stream_body [of "\<lambda>_. True" "demo_query True"
      "[demo_call [''ab''] True None, demo_call [] True None, demo_call [''c''] False (Some 0)]" "''id''"]
  by (force simp: demo_call_def demo_query_def error_status_def ch_http_status_ok_def)

text \<open>
  C38: A buffered query. Over a successful transfer \<open>ch_http_simple_query\<close> returns the whole body
  (NULL for an empty one) with the status of the response, however it was cut into chunks.
\<close>

theorem http_simple_query_body:
  assumes "\<forall>n. alloc n" and "script_ok False ps"
    and "resp_code (hd (dropWhile running ps)) \<noteq> CH_HTTP_STATUS_TRANSPORT_ERROR"
  shows "\<exists>resp. ch_http_simple_query alloc True True qid query ps = Some (Some resp)
    \<and> rs_data resp = (if body_of ps = [] then None else Some (body_of ps))
    \<and> rs_status resp = resp_code (hd (dropWhile running ps))"
proof -
  let ?n = "new_stream False qid"
  obtain st ps' p where p: "pump alloc ?n ps = Some (st, ps', True)" and t: "transfer_step ?n ps st ps' p"
    and h: "http_status st = resp_code p"
    using pump_ok [OF assms(1), of ?n ps] assms(2) by (auto simp: new_stream_ok)
  have st: "stream_ok st" "\<not> streaming st" "content st = body_of ps" "p = hd (dropWhile running ps)"
    using t by (auto simp: transfer_step_def new_stream_ok split: if_splits)
  obtain b where b: "buf st = Some b" using st(1) by (auto simp: stream_ok_def)
  have "snd (take_body st) = (if body_of ps = [] then None else Some (body_of ps))"
    using st h assms(3) content_empty [OF st(1)] b by (auto simp: take_body_def content_def)
  then show ?thesis
    using p st(2,4) h
    by (simp add: ch_http_simple_query_def ch_http_stream_begin_def tsv_request_def)
qed

lemma http_simple_query_body_witness:
  "\<exists>resp. ch_http_simple_query (\<lambda>_. True) True True ''id'' (rq_query (demo_query False))
       [demo_call [''ab'', ''c''] True None, demo_call [''d''] False (Some 0)] = Some (Some resp)
     \<and> rs_data resp = Some ''abcd'' \<and> rs_status resp = 200"
  using http_simple_query_body [of "\<lambda>_. True"
      "[demo_call [''ab'', ''c''] True None, demo_call [''d''] False (Some 0)]" "''id''"]
  by (simp add: demo_call_def)

text \<open>
  Error responses are reported whole. When a chunked request is answered with an error
  status, beginning it switches to buffering, waits for the end of the transfer and leaves
  the complete error body in the buffer.
\<close>

theorem http_error_body_whole:
  assumes "\<forall>n. alloc n" and "rq_stream_chunks req" and "script_ok True ps" and "idle (last ps)"
    and "\<forall>p \<in> set ps. resp_code p = status" and "error_status status"
  shows "\<exists>st ps'. ch_http_stream_begin alloc True qid req ps = Some (Some (st, ps'))
    \<and> transfer_done st \<and> content st = body_of ps \<and> http_status st = status \<and> \<not> overrun st"
proof -
  let ?n = "new_stream True qid"
  obtain st ps' p where p: "pump alloc ?n ps = Some (st, ps', True)" and t: "transfer_step ?n ps st ps' p"
    and h: "http_status st = resp_code p"
    using pump_ok [OF assms(1), of ?n ps] assms(3) by (auto simp: new_stream_ok)
  have st: "stream_ok st" "streaming st" "http_status st = status"
    using t h assms(5) by (auto simp: transfer_step_def new_stream_ok)
  let ?s = "st\<lparr>streaming := False\<rparr>"
  have beg: "ch_http_stream_begin alloc True qid req ps = map_option (\<lambda>(st, ps, ok). Some (st, ps)) (pump alloc ?s ps')"
    using p st assms(2,6) by (auto simp: ch_http_stream_begin_def split: option.splits)
  show ?thesis
  proof (cases "transfer_done st")
    case True
    with t assms(4) obtain q qs where q: "ps' = q # qs" "idle q" "q \<in> set ps" and c: "content st = body_of ps"
      by (cases ps') (auto simp: transfer_step_def new_stream_ok split: if_splits)
    then have "pump alloc ?s ps' = Some (?s\<lparr>paused := False, transfer_done := True, http_status := status\<rparr>, qs, True)"
      using assms(5) by (simp add: pump_def idle_def deliver_def Let_def)
    with beg c st(1) show ?thesis by (simp add: stream_ok_def)
  next
    case False
    then have s: "script_ok True ps'" "content st @ body_of ps' = body_of ps" "set ps' \<subseteq> set ps"
      using t by (auto simp: transfer_step_def new_stream_ok)
    have weak: "script_ok True qs \<Longrightarrow> script_ok False qs" for qs by (induction qs) (auto split: if_splits)
    obtain st2 ps2 p2 where p2: "pump alloc ?s ps' = Some (st2, ps2, True)" and t2: "transfer_step ?s ps' st2 ps2 p2"
      and h2: "http_status st2 = resp_code p2"
      using pump_ok [OF assms(1), of ?s ps'] st(1) False weak [OF s(1)] by auto
    have "transfer_done st2" "content st2 = body_of ps" "http_status st2 = status" "\<not> overrun st2"
      using t2 h2 s assms(5) by (auto simp: transfer_step_def stream_ok_def split: if_splits)
    with beg p2 show ?thesis by simp
  qed
qed

lemma http_error_body_whole_witness:
  "\<exists>st ps'. ch_http_stream_begin (\<lambda>_. True) True ''id'' (demo_query True)
       (map (\<lambda>p. p\<lparr>resp_code := 500\<rparr>) [demo_call [''Code''] True None, demo_call ['': 60''] False (Some 0), demo_call [] False None])
     = Some (Some (st, ps')) \<and> content st = ''Code: 60''"
  using http_error_body_whole [of "\<lambda>_. True" "demo_query True"
      "map (\<lambda>p. p\<lparr>resp_code := 500\<rparr>) [demo_call [''Code''] True None, demo_call ['': 60''] False (Some 0), demo_call [] False None]"
      500 "''id''"]
  by (force simp: demo_call_def demo_query_def error_status_def ch_http_status_ok_def idle_def)

text \<open>
  A late exception is found. When less than 4096 bytes of the body are left, the search
  drains them and reports an exception exactly when the last 4096 bytes of everything
  received contain \<open>Code: \<close> followed by a digit.
\<close>

theorem http_late_exception:
  assumes "\<forall>n. alloc n" and "reading st ps" and "tail st = suffix_of CH_ERROR_MSG_LEN received"
    and "length (remaining st ps) < CH_ERROR_MSG_LEN"
  shows "\<exists>st' ps' r. ch_http_stream_exception alloc mbcliplen bufsize st ps = Some (st', ps', r)
    \<and> (r \<noteq> None \<longleftrightarrow> (\<exists>pre d rest. suffix_of CH_ERROR_MSG_LEN (received @ remaining st ps)
                          = pre @ ''Code: '' @ d # rest \<and> isdigit d))"
proof -
  obtain st' ps' where d: "drain_tail alloc 0 st ps = Some (st', ps')"
    and t: "tail st' = suffix_of CH_ERROR_MSG_LEN (received @ remaining st ps)"
    using drain_tail_ok [OF assms(1-3), of 0] assms(4) by auto
  have "find_code s \<noteq> None \<longleftrightarrow> (\<exists>pre d rest. s = pre @ ''Code: '' @ d # rest \<and> isdigit d)" for s
    using find_code_Some [of s] find_code_None [of s] by (cases "find_code s") blast+
  with d t show ?thesis by (simp add: ch_http_stream_exception_def)
qed

definition demo_stream :: HttpStream where
  "demo_stream = (new_stream True ''id'')\<lparr>tail := ''Co''\<rparr>"

lemma http_late_exception_witness:
  "\<exists>st' ps' r. ch_http_stream_exception (\<lambda>_. True) (\<lambda>_ n. n) 4096 demo_stream
       [demo_call [''de: ''] True None, demo_call [''60''] False (Some 0)] = Some (st', ps', r) \<and> r \<noteq> None"
proof -
  let ?ps = "[demo_call [''de: ''] True None, demo_call [''60''] False (Some 0)]"
  have r: "reading demo_stream ?ps" by (simp add: demo_stream_def reading_def new_stream_def stream_ok_def demo_call_def)
  have t: "tail demo_stream = suffix_of CH_ERROR_MSG_LEN ''Co''" by (simp add: demo_stream_def suffix_of_def)
  have m: "remaining demo_stream ?ps = ''de: 60''" by (simp add: remaining_def demo_stream_def new_stream_def demo_call_def)
  have "suffix_of CH_ERROR_MSG_LEN (''Co'' @ remaining demo_stream ?ps) = [] @ ''Code: '' @ CHR ''6'' # ''0''" "isdigit (CHR ''6'')"
    by (simp_all add: m suffix_of_def isdigit_def)
  then have found: "\<exists>pre d rest. suffix_of CH_ERROR_MSG_LEN (''Co'' @ remaining demo_stream ?ps)
      = pre @ ''Code: '' @ d # rest \<and> isdigit d" by blast
  have len: "length (remaining demo_stream ?ps) < CH_ERROR_MSG_LEN" by (simp add: m)
  have al: "\<forall>n :: nat. (\<lambda>_. True) n" by simp
  from http_late_exception [OF al r t len] found show ?thesis by blast
qed

lemma find_sub_prefix_None: "find_sub pat (x @ y) = None \<Longrightarrow> find_sub pat x = None"
proof (rule ccontr)
  assume n: "find_sub pat (x @ y) = None" and "find_sub pat x \<noteq> None"
  then obtain r where "find_sub pat x = Some r" by blast
  from find_sub_SomeD [OF this] obtain pre t where "x = pre @ r" "r = pat @ t" by (auto simp: starts_with_append)
  with find_sub_NoneD [OF n, of pre "r @ y"] show False by (simp add: starts_with_append)
qed

lemma find_sub_before:
  assumes f: "find_sub pat s = Some r" and pat: "pat \<noteq> []"
  shows "find_sub pat (take (length s - length r) s) = None"
proof (rule ccontr)
  obtain pre where s: "s = pre @ r" using find_sub_SomeD [OF f] by blast
  assume "find_sub pat (take (length s - length r) s) \<noteq> None"
  with s obtain r' where "find_sub pat pre = Some r'" by auto
  from find_sub_SomeD [OF this] obtain a t where "pre = a @ r'" "r' = pat @ t" by (auto simp: starts_with_append)
  then have "s = a @ (r' @ r)" "starts_with pat (r' @ r)" "length r' > 0"
    using s pat by (simp_all add: starts_with_append)
  with find_sub_first [OF f] show False by fastforce
qed

text \<open>
  Error text. \<open>ch_http_copy_error\<close> always leaves a C string that fits the caller's buffer with
  its NUL, is a prefix of the server's message, and no longer contains the server's version
  suffix.
\<close>

theorem http_copy_error_text:
  assumes "\<forall>d n. n \<le> length d \<longrightarrow> mbcliplen d n \<le> n" and "0 < bufsize"
  shows "length (ch_http_copy_error mbcliplen bufsize data) < bufsize
    \<and> NUL \<notin> set (ch_http_copy_error mbcliplen bufsize data)
    \<and> (\<exists>rest. ch_http_copy_error mbcliplen bufsize data @ rest = (case data of None \<Rightarrow> [] | Some d \<Rightarrow> d))
    \<and> find_sub '' (version '' (ch_http_copy_error mbcliplen bufsize data) = None"
proof -
  define n where "n = (case data of None \<Rightarrow> 0
               | Some d \<Rightarrow> if d = [] then 0 else mbcliplen d (min (length d) (bufsize - 1)))"
  define bytes where "bytes = (case data of None \<Rightarrow> [] | Some d \<Rightarrow> take n d)"
  define cs where "cs = takeWhile (\<lambda>c. c \<noteq> NUL) bytes"
  let ?r = "ch_http_copy_error mbcliplen bufsize data"
  have r: "?r = (case find_sub '' (version '' cs of
           Some r \<Rightarrow> take (length cs - length r) cs
         | None \<Rightarrow> if bytes \<noteq> [] \<and> last bytes = CHR 0x0A
             then takeWhile (\<lambda>c. c \<noteq> NUL) (butlast bytes) else cs)"
    unfolding ch_http_copy_error_def cs_def bytes_def n_def by (simp add: Let_def)
  have lb: "length bytes < bufsize"
  proof (cases data)
    case (Some d)
    have "mbcliplen d (min (length d) (bufsize - 1)) \<le> min (length d) (bufsize - 1)"
      by (rule assms(1) [rule_format]) simp
    with Some assms(2) show ?thesis by (auto simp: bytes_def n_def)
  qed (use assms(2) in \<open>simp add: bytes_def\<close>)
  have pre: "\<exists>rest. ?r @ rest = bytes" and len: "length ?r \<le> length bytes"
  proof -
    have tw: "\<exists>rest. takeWhile (\<lambda>c. c \<noteq> NUL) (butlast bytes) @ rest = bytes"
      by (metis append_Nil2 append_assoc append_butlast_last_id butlast.simps(1) takeWhile_dropWhile_id)
    have "\<exists>rest. cs @ rest = bytes" unfolding cs_def by (metis takeWhile_dropWhile_id)
    moreover have "\<exists>rest. take k cs @ rest = bytes" for k
      using calculation by (metis append.assoc append_take_drop_id)
    ultimately show "\<exists>rest. ?r @ rest = bytes" unfolding r using tw by (auto split: option.splits)
    then show "length ?r \<le> length bytes" by (metis le_add1 length_append)
  qed
  have "\<exists>rest. bytes @ rest = (case data of None \<Rightarrow> [] | Some d \<Rightarrow> d)"
    by (cases data) (simp_all add: bytes_def, metis append_take_drop_id)
  with pre have "\<exists>rest. ?r @ rest = (case data of None \<Rightarrow> [] | Some d \<Rightarrow> d)" by (metis append.assoc)
  moreover have "NUL \<notin> set ?r"
    unfolding r cs_def by (auto split: option.splits dest!: in_set_takeD set_takeWhileD)
  moreover have "find_sub '' (version '' ?r = None"
  proof (cases "find_sub '' (version '' cs")
    case (Some q)
    then show ?thesis unfolding r using find_sub_before [OF Some] by simp
  next
    case None
    have "\<exists>y. takeWhile (\<lambda>c. c \<noteq> NUL) (butlast bytes) @ y = cs"
      using takeWhile_prefix [of "\<lambda>c. c \<noteq> NUL" "butlast bytes" "[last bytes]"]
      by (cases "bytes = []") (simp_all add: cs_def)
    then show ?thesis unfolding r using None find_sub_prefix_None by (auto split: option.splits)
  qed
  ultimately show ?thesis using lb len by simp
qed

lemma http_copy_error_text_witness:
  "ch_http_copy_error (\<lambda>_ n. n) 20 (Some ''bad (version 25.8)'') = ''bad''
    \<and> length (ch_http_copy_error (\<lambda>_ n. n) 20 (Some ''bad (version 25.8)'')) < 20"
proof -
  have "ch_http_copy_error (\<lambda>_ n. n) 20 (Some ''bad (version 25.8)'') = ''bad''" by code_simp
  then show ?thesis using http_copy_error_text [of "\<lambda>_ n. n" 20 "Some ''bad (version 25.8)''"] by simp
qed

lemma scan_int_show_nat:
  assumes "n < 2 ^ 31" and "rest = [] \<or> \<not> isdigit (hd rest)"
  shows "scan_int (show_nat n @ rest) = Some (int n, rest)"
proof -
  let ?s = "show_nat n @ rest"
  have d: "\<forall>c \<in> set (show_nat n). isdigit c" "show_nat n \<noteq> []" using show_nat_digits by blast+
  then have h: "isdigit (hd ?s)" "?s \<noteq> []" by auto
  have ns: "\<not> isspace (hd ?s)" "hd ?s \<noteq> CHR ''-''" "hd ?s \<noteq> CHR ''+''"
    using h(1) by (auto simp: isdigit_def isspace_def)
  have "dropWhile isspace ?s = ?s" using ns(1) h(2) by (cases ?s) auto
  then have "strtol10 ?s = (clamp_long (int n), rest)"
    using ns h d span_digits [OF d(1) assms(2)] by (simp add: strtol10_def Let_def dec_val_show_nat)
  moreover have "clamp_long (int n) = int n" "signed_take_bit 31 (int n) = int n"
    using assms(1) by (simp_all add: clamp_long_def signed_take_bit_int_eq_self)
  moreover have "rest \<noteq> ?s" using d(2) by (metis append_self_conv2)
  ultimately show ?thesis by (simp add: scan_int_def)
qed

lemma scan_version_dot:
  "n < 2 ^ 31 \<Longrightarrow> scan_version (Suc k) (show_nat n @ ''.'' @ r) = int n # scan_version k r"
  by (simp add: scan_int_show_nat isdigit_def)

lemma scan_version_last:
  "n < 2 ^ 31 \<Longrightarrow> scan_version (Suc k) (show_nat n @ [CHR 0x0A]) = [int n]"
  by (simp add: scan_int_show_nat isdigit_def)

text \<open>
  The server version. A connection asks the server at most once: later calls, also after a
  failed lookup, send no query and return the same version. The text \<open>a.b.c.d\<close> that
  \<open>version()\<close> returns is understood as version \<open>a.b.c\<close>.
\<close>

theorem http_server_version_cached:
  assumes "ch_http_server_version resp (Some c) = (Some c', v, sent)"
  shows "(hc_version_fetched c \<longrightarrow> \<not> sent \<and> v = hc_version c)
    \<and> ch_http_server_version resp' (Some c') = (Some c', v, False)
    \<and> (\<forall>a b p t rest r. \<not> hc_version_fetched c \<and> resp = Some r \<and> ch_http_status_ok (rs_status r)
         \<and> rs_data r = Some (show_nat a @ ''.'' @ show_nat b @ ''.'' @ show_nat p @ ''.'' @ show_nat t @ [CHR 0x0A])
         \<and> a < 2 ^ 31 \<and> b < 2 ^ 31 \<and> p < 2 ^ 31 \<and> t < 2 ^ 31
         \<and> length (show_nat a) + length (show_nat b) + length (show_nat p) + length (show_nat t) \<le> 27
         \<longrightarrow> v = (hc_version c)\<lparr>major := int a, minor := int b, patch := int p\<rparr>)"
proof (intro conjI allI impI)
  show "hc_version_fetched c \<Longrightarrow> \<not> sent" "hc_version_fetched c \<Longrightarrow> v = hc_version c"
    "ch_http_server_version resp' (Some c') = (Some c', v, False)"
    using assms by (auto simp: ch_http_server_version_def Let_def split: if_splits)
next
  fix a b p t rest r
  let ?s = "show_nat a @ ''.'' @ show_nat b @ ''.'' @ show_nat p @ ''.'' @ show_nat t @ [CHR 0x0A]"
  assume h: "\<not> hc_version_fetched c \<and> resp = Some r \<and> ch_http_status_ok (rs_status r) \<and> rs_data r = Some ?s
    \<and> a < 2 ^ 31 \<and> b < 2 ^ 31 \<and> p < 2 ^ 31 \<and> t < 2 ^ 31
    \<and> length (show_nat a) + length (show_nat b) + length (show_nat p) + length (show_nat t) \<le> 27"
  have "NUL \<notin> set (show_nat n)" for n using show_nat_digits [of n] by (auto simp: isdigit_def)
  then have nul: "takeWhile (\<lambda>c. c \<noteq> NUL) (take 31 ?s) = take 31 ?s"
    by (auto simp: takeWhile_eq_all_conv dest!: in_set_takeD)
  have "length ?s \<le> 31" using h by simp
  then have "take 31 ?s = ?s" by (rule take_all)
  moreover have "scan_version 4 ?s = [int a, int b, int p, int t]"
  proof -
    have "scan_version 4 ?s = scan_version (Suc (Suc (Suc (Suc 0)))) ?s" by (simp add: eval_nat_numeral)
    also have "\<dots> = [int a, int b, int p, int t]"
      using h by (simp only: scan_version_dot scan_version_last)
    finally show ?thesis .
  qed
  ultimately have "parse_version ?s (hc_version c) = store_version [int a, int b, int p, int t] (hc_version c)"
    using nul by (simp add: parse_version_def)
  then show "v = (hc_version c)\<lparr>major := int a, minor := int b, patch := int p\<rparr>"
    using assms h by (auto simp: ch_http_server_version_def Let_def store_version_def)
qed

definition demo_conn :: ch_http_connection where
  "demo_conn = \<lparr>hc_dbname = None, hc_base_url = ''http://h:8123/'', hc_ssl_version = CURL_SSLVERSION_DEFAULT,
     hc_version = \<lparr>major = 0, minor = 0, patch = 0\<rparr>, hc_version_fetched = False\<rparr>"

lemma http_server_version_cached_witness:
  "\<exists>c' v. ch_http_server_version (Some \<lparr>rs_data = Some (''25.8.1.2'' @ [CHR 0x0A]), rs_status = 200, rs_query_id = ''x''\<rparr>) (Some demo_conn)
       = (Some c', v, True)
     \<and> major v = 25 \<and> minor v = 8 \<and> patch v = 1 \<and> ch_http_server_version None (Some c') = (Some c', v, False)"
proof -
  let ?r = "\<lparr>rs_data = Some (''25.8.1.2'' @ [CHR 0x0A]), rs_status = 200, rs_query_id = ''x''\<rparr>"
  obtain c' v sent where h: "ch_http_server_version (Some ?r) (Some demo_conn) = (Some c', v, sent)" and s: "sent"
    by (simp add: ch_http_server_version_def demo_conn_def Let_def)
  have n: "show_nat 25 = ''25''" "show_nat 8 = ''8''" "show_nat 1 = ''1''" "show_nat 2 = ''2''" by code_simp+
  have "v = (hc_version demo_conn)\<lparr>major := int 25, minor := int 8, patch := int 1\<rparr>"
    using http_server_version_cached [OF h, of None, THEN conjunct2, THEN conjunct2, rule_format, of ?r 25 8 1 2] n
    by (simp add: demo_conn_def ch_http_status_ok_def)
  then show ?thesis using h s http_server_version_cached [OF h, of None] by simp
qed

text \<open>
  Request parameters. Each setting that is not overridden and each override is one
  parameter of the URL, sent exactly when \<open>name=value\<close> has at most 511 bytes and cut to its
  first 511 bytes otherwise; no setting is sent under a name that an override pins.
\<close>

theorem http_request_parameters:
  assumes "(n, v) \<in> set (if is_overridden req n then rq_overrides req else q_settings (rq_query req))"
  shows "(if length (n @ ''='' @ v) \<le> 511 then n @ ''='' @ v else take 511 (n @ ''='' @ v))
      \<in> set (tl (cr_query (setup_curl conn qid req)))
    \<and> (length (n @ ''='' @ v) > 511 \<longrightarrow> n @ ''='' @ v \<notin> set (cr_query (setup_curl conn qid req)))
    \<and> length (tl (cr_query (setup_curl conn qid req)))
        = length (filter (\<lambda>(m, w). \<forall>x. (m, x) \<notin> set (rq_overrides req)) (q_settings (rq_query req)))
          + length (rq_overrides req)"
proof -
  have buf: "temp_buf s = (if length s \<le> 511 then s else take 511 s)" for s by (simp add: temp_buf_def)
  have over: "is_overridden req m \<longleftrightarrow> (\<exists>x. (m, x) \<in> set (rq_overrides req))" for m
    by (auto simp: is_overridden_def list_ex_iff)
  have len: "s \<in> set (query_string qid req) \<Longrightarrow> length s \<le> 511" for s
    by (auto simp: query_string_def temp_buf_def)
  have q: "cr_query (setup_curl conn qid req) = query_string qid req" by (simp add: setup_curl_def Let_def)
  have "temp_buf (n @ ''='' @ v) \<in> set (tl (query_string qid req))"
    using assms by (force simp: query_string_def split: if_splits)
  moreover have "length (tl (query_string qid req))
        = length (filter (\<lambda>(m, w). \<forall>x. (m, x) \<notin> set (rq_overrides req)) (q_settings (rq_query req)))
          + length (rq_overrides req)" by (simp add: query_string_def over)
  ultimately show ?thesis
    unfolding q using len [of "n @ ''='' @ v"]
    by (intro conjI impI) (simp only: buf, fastforce, assumption)
qed

lemma http_request_parameters_witness:
  "''wait_end_of_query=1'' \<in> set (tl (cr_query (setup_curl demo_conn ''id''
     ((demo_query True)\<lparr>rq_overrides := [(''wait_end_of_query'', ''1'')]\<rparr>))))"
proof -
  let ?r = "(demo_query True)\<lparr>rq_overrides := [(''wait_end_of_query'', ''1'')]\<rparr>"
  have "is_overridden ?r ''wait_end_of_query''" by (simp add: is_overridden_def)
  then show ?thesis using http_request_parameters [of "''wait_end_of_query''" "''1''" ?r demo_conn "''id''"] by simp
qed

end
