(* ===== verification/Literals.thy ===== *)
theory Literals
  imports Prelude
begin

text \<open>
  Text that is put into ClickHouse SQL: escaped and quoted string literals (\<open>src/pglink.c\<close>),
  quoted identifiers and the engine option of a table (\<open>src/custom_types.c\<close>, and the part
  of \<open>chfdw_construct_create_tables\<close> in \<open>src/pglink.c\<close> that writes it).

  The reference definitions \<open>read_literal\<close> and \<open>read_ident\<close> are the documented syntax of
  ClickHouse literals and identifiers, used to state that the text is read back as the value
  it stands for and ends where it should.
\<close>

section \<open>String literals\<close>

definition escape_char :: "char \<Rightarrow> string" where
  "escape_char c =
     (if c = SQUOTE then [BSLASH, c]
      else if c = BSLASH then [c, c]
      else if c = CHR 0x08 then [BSLASH, CHR ''b'']
      else if c = CHR 0x0C then [BSLASH, CHR ''f'']
      else if c = CHR 0x0D then [BSLASH, CHR ''r'']
      else if c = CHR 0x0A then [BSLASH, CHR ''n'']
      else if c = CHR 0x09 then [BSLASH, CHR ''t'']
      else if c = NUL then [BSLASH, CHR ''0'']
      else if c = CHR 0x07 then [BSLASH, CHR ''a'']
      else if c = CHR 0x0B then [BSLASH, CHR ''v'']
      else [c])"

text \<open>\<open>ch_escape_string\<close> fills a buffer of \<open>2 * len + 1\<close> bytes, the last one for the NUL.\<close>

fun ch_escape_string :: "string \<Rightarrow> string" where
  "ch_escape_string [] = []"
| "ch_escape_string (c # s) = escape_char c @ ch_escape_string s"

definition SQL_STR_DOUBLE :: "char \<Rightarrow> bool \<Rightarrow> bool" where
  "SQL_STR_DOUBLE c escape_backslash \<longleftrightarrow> c = SQUOTE \<or> (c = BSLASH \<and> escape_backslash)"

fun quote_chars :: "string \<Rightarrow> string" where
  "quote_chars [] = []"
| "quote_chars (c # s) = (if SQL_STR_DOUBLE c True then [c, c] else [c]) @ quote_chars s"

definition ch_quote_literal_internal :: "string \<Rightarrow> string" where
  "ch_quote_literal_internal src = SQUOTE # quote_chars src @ [SQUOTE]"

definition ch_quote_literal :: "string \<Rightarrow> string" where
  "ch_quote_literal rawstr = ch_quote_literal_internal rawstr"

definition ch_append_literal :: "string \<Rightarrow> string \<Rightarrow> string" where
  "ch_append_literal buf s = buf @ ch_quote_literal_internal s"

section \<open>Identifiers\<close>

abbreviation NAMEDATALEN :: nat where "NAMEDATALEN \<equiv> 64"
abbreviation CH_ESCAPED_NAMEDATALEN :: nat where "CH_ESCAPED_NAMEDATALEN \<equiv> 128"

definition invalid_identifier :: pg_error where
  "invalid_identifier = Ereport ERRCODE_FDW_INVALID_STRING_LENGTH_OR_BUFFER_LENGTH
     ''pg_clickhouse: invalid identifier'' []"

text \<open>
  The loop over the characters between the quotes: \<open>True\<close> when it finishes. The list is the
  text from \<open>i\<close> to the closing quote; only that quote is left when \<open>i\<close> passes \<open>len - 2\<close>.
\<close>

fun check_quoted :: "char \<Rightarrow> string \<Rightarrow> bool" where
  "check_quoted q [] = True"
| "check_quoted q [c] = True"
| "check_quoted q (c # d # s) =
     (let escaped = (c = BSLASH \<or> (c = q \<and> d = q))
      in if escaped \<and> s \<noteq> [] then check_quoted q s
         else if escaped \<or> c = q then False
         else check_quoted q (d # s))"

definition ch_quote_ident :: "(string \<Rightarrow> string) \<Rightarrow> string \<Rightarrow> string pg" where
  "ch_quote_ident quote ident =
     (let len = length ident
      in if len \<ge> 2 \<and> ((hd ident = CHR 0x22 \<and> last ident = CHR 0x22)
                       \<or> (hd ident = CHR 0x60 \<and> last ident = CHR 0x60)) then
           (if \<not> check_quoted (hd ident) (tl ident) then Inl invalid_identifier
            else if len = 2 \<or> len > CH_ESCAPED_NAMEDATALEN - 1 then Inl invalid_identifier
            else Inr ident)
         else if len = 0 \<or> len > NAMEDATALEN - 1 then Inl invalid_identifier
         else Inr (quote ident))"

section \<open>The engine option\<close>

text \<open>
  Import: the text of \<open>engine_full\<close> up to the first closing parenthesis outside quotes.
  \<open>quote\<close> is the open quote, NUL for none.
\<close>

fun cut_engine :: "char \<Rightarrow> string \<Rightarrow> string option" where
  "cut_engine quote [] = None"
| "cut_engine quote (c # s) =
     (if quote \<noteq> NUL then
        (if c = BSLASH \<and> s \<noteq> [] then
           (case s of [] \<Rightarrow> None | d # s' \<Rightarrow> map_option (\<lambda>r. c # d # r) (cut_engine quote s'))
         else if c = quote then map_option (Cons c) (cut_engine NUL s)
         else map_option (Cons c) (cut_engine quote s))
      else if c = CHR 0x22 \<or> c = CHR 0x60 then map_option (Cons c) (cut_engine c s)
      else if c = CHR '')'' then Some [c]
      else map_option (Cons c) (cut_engine NUL s))"

datatype table_engine = CH_DEFAULT | CH_COLLAPSING_MERGE_TREE | CH_AGGREGATING_MERGE_TREE

text \<open>\<open>index\<close> and \<open>rindex\<close>: the offset of the first and of the last occurrence.\<close>

definition rfind_index :: "('a \<Rightarrow> bool) \<Rightarrow> 'a list \<Rightarrow> nat option" where
  "rfind_index P xs = map_option (\<lambda>i. length xs - 1 - i) (find_index P (rev xs))"

definition strncaseprefix :: "string \<Rightarrow> string \<Rightarrow> bool" where
  "strncaseprefix val text \<longleftrightarrow> map pg_tolower (take (length text) val) = text"

definition invalid_engine :: pg_error where
  "invalid_engine = Ereport ERRCODE_FDW_INVALID_ATTRIBUTE_VALUE ''pg_clickhouse: invalid engine parameter'' []"

text \<open>
  The \<open>engine\<close> branch of \<open>chfdw_apply_custom_table_options\<close>: the engine and the sign field,
  unchanged when the value names another engine.
\<close>

definition apply_engine ::
    "(string \<Rightarrow> string) \<Rightarrow> string \<Rightarrow> table_engine \<times> string \<Rightarrow> (table_engine \<times> string) pg" where
  "apply_engine quote val old =
     (if strncaseprefix val ''collapsingmergetree'' then
        (case (find_index (\<lambda>c. c = CHR ''('') val, rfind_index (\<lambda>c. c = CHR '')'') val) of
           (Some start, Some fin) \<Rightarrow>
             if fin \<le> start + 1 then Inl invalid_engine
             else if fin - start - 1 > CH_ESCAPED_NAMEDATALEN - 1 then Inl invalid_engine
             else rbind (ch_quote_ident quote (take (fin - start - 1) (drop (start + 1) val)))
                    (\<lambda>q. if length q \<ge> CH_ESCAPED_NAMEDATALEN then Inl invalid_engine
                         else Inr (CH_COLLAPSING_MERGE_TREE, q))
         | _ \<Rightarrow> Inl invalid_engine)
      else if strncaseprefix val ''aggregatingmergetree'' then Inr (CH_AGGREGATING_MERGE_TREE, snd old)
      else Inr old)"

section \<open>ClickHouse syntax\<close>

definition unescape_char :: "char \<Rightarrow> char" where
  "unescape_char c =
     (if c = CHR ''b'' then CHR 0x08 else if c = CHR ''f'' then CHR 0x0C else if c = CHR ''r'' then CHR 0x0D
      else if c = CHR ''n'' then CHR 0x0A else if c = CHR ''t'' then CHR 0x09 else if c = CHR ''0'' then NUL
      else if c = CHR ''a'' then CHR 0x07 else if c = CHR ''v'' then CHR 0x0B else c)"

text \<open>
  The rest of a quoted token after its opening quote \<open>q\<close>: its value and the text after it.
  Escapes that the code below never writes are read as the escaped character.
\<close>

fun read_quoted :: "char \<Rightarrow> string \<Rightarrow> (string \<times> string) option" where
  "read_quoted q [] = None"
| "read_quoted q (c # s) =
     (if c = BSLASH then
        (case s of [] \<Rightarrow> None | d # s' \<Rightarrow> map_option (apfst (Cons (unescape_char d))) (read_quoted q s'))
      else if c = q then
        (case s of [] \<Rightarrow> Some ([], [])
         | d # s' \<Rightarrow> if d = q then map_option (apfst (Cons q)) (read_quoted q s') else Some ([], s))
      else map_option (apfst (Cons c)) (read_quoted q s))"

definition read_literal :: "string \<Rightarrow> (string \<times> string) option" where
  "read_literal s = (case s of [] \<Rightarrow> None | c # s' \<Rightarrow> if c = SQUOTE then read_quoted SQUOTE s' else None)"

definition read_ident :: "string \<Rightarrow> (string \<times> string) option" where
  "read_ident s = (case s of [] \<Rightarrow> None
     | c # s' \<Rightarrow> if c = CHR 0x22 \<or> c = CHR 0x60 then read_quoted c s' else None)"

section \<open>Lemmas\<close>

lemma read_escape_char:
  "read_quoted SQUOTE (escape_char c @ s) = map_option (apfst (Cons c)) (read_quoted SQUOTE s)"
  by (simp add: escape_char_def unescape_char_def)

lemma read_escape_string:
  assumes "rest = [] \<or> hd rest \<noteq> SQUOTE"
  shows "read_quoted SQUOTE (ch_escape_string s @ SQUOTE # rest) = Some (s, rest)"
  using assms by (induction s) (auto simp: read_escape_char simp del: read_quoted.simps(2)
      simp: read_quoted.simps(2) [of SQUOTE SQUOTE] split: list.splits)

lemma read_quote_chars:
  assumes "rest = [] \<or> hd rest \<noteq> SQUOTE"
  shows "read_quoted SQUOTE (quote_chars s @ SQUOTE # rest) = Some (s, rest)"
  using assms by (induction s) (auto simp: SQL_STR_DOUBLE_def unescape_char_def split: list.splits)

lemma escape_string_length: "length (ch_escape_string s) \<le> 2 * length s"
  by (induction s) (auto simp: escape_char_def)

lemma quote_chars_length: "length (quote_chars s) \<le> 2 * length s"
  by (induction s) auto

text \<open>Control characters that delimit values and rows in ClickHouse's text formats.\<close>

definition row_delimiter :: "char \<Rightarrow> bool" where
  "row_delimiter c \<longleftrightarrow> c \<in> {NUL, CHR 0x09, CHR 0x0A, CHR 0x0D}"

lemma escape_string_clean: "c \<in> set (ch_escape_string s) \<Longrightarrow> \<not> row_delimiter c"
  by (induction s) (auto simp: escape_char_def row_delimiter_def split: if_splits)

lemma check_quoted_reads:
  "check_quoted q s \<Longrightarrow> s \<noteq> [] \<Longrightarrow> last s = q \<Longrightarrow> q \<noteq> BSLASH \<Longrightarrow> \<exists>name. read_quoted q s = Some (name, [])"
proof (induction q s rule: check_quoted.induct)
  case (3 q c d s)
  consider (esc) "c = BSLASH" "s \<noteq> []" | (dbl) "c \<noteq> BSLASH" "c = q" "d = q" "s \<noteq> []"
    | (plain) "c \<noteq> BSLASH" "c \<noteq> q" using 3(3) by (auto simp: Let_def split: if_splits)
  then show ?case
  proof cases
    case esc
    with 3 show ?thesis by (auto simp: Let_def)
  next
    case dbl
    with 3 show ?thesis by (auto simp: Let_def)
  next
    case plain
    with 3 show ?thesis by (auto simp: Let_def)
  qed
qed auto

lemma map_option_twice: "map_option f (map_option g x) = map_option (\<lambda>y. f (g y)) x"
  by (cases x) simp_all

lemma cut_engine_quoted_step:
  "q \<noteq> NUL \<Longrightarrow> cut_engine q (BSLASH # d # s) = map_option (\<lambda>r. BSLASH # d # r) (cut_engine q s)"
  "q \<in> {CHR 0x22, CHR 0x60} \<Longrightarrow> cut_engine q (q # s) = map_option (\<lambda>r. q # r) (cut_engine NUL s)"
  "q \<in> {CHR 0x22, CHR 0x60} \<Longrightarrow> cut_engine NUL (q # s) = map_option (\<lambda>r. q # r) (cut_engine q s)"
  "q \<noteq> NUL \<Longrightarrow> c \<noteq> BSLASH \<Longrightarrow> c \<noteq> q \<Longrightarrow> cut_engine q (c # s) = map_option (\<lambda>r. c # r) (cut_engine q s)"
  by auto

lemma cut_quoted:
  "check_quoted q s \<Longrightarrow> s \<noteq> [] \<Longrightarrow> last s = q \<Longrightarrow> q \<in> {CHR 0x22, CHR 0x60} \<Longrightarrow>
     cut_engine q (s @ t) = map_option (\<lambda>r. s @ r) (cut_engine NUL t)"
proof (induction q s rule: check_quoted.induct)
  case (2 q c)
  then show ?case using cut_engine_quoted_step(2) [of q t] by simp
next
  case (3 q c d s)
  have q: "q \<noteq> NUL" "q \<noteq> BSLASH" using 3(6) by auto
  consider (esc) "c = BSLASH" "s \<noteq> []" "check_quoted q s"
    | (dbl) "c = q" "d = q" "s \<noteq> []" "check_quoted q s"
    | (plain) "c \<noteq> BSLASH" "c \<noteq> q" "check_quoted q (d # s)"
    using 3(3) q(2) by (auto simp: Let_def split: if_splits)
  then show ?case
  proof cases
    case esc
    have "cut_engine q (s @ t) = map_option (\<lambda>r. s @ r) (cut_engine NUL t)"
      by (rule 3(1) [OF refl]) (use esc 3(5,6) in auto)
    with esc q show ?thesis
      by (simp add: cut_engine_quoted_step map_option_twice del: cut_engine.simps)
  next
    case dbl
    have "cut_engine q (s @ t) = map_option (\<lambda>r. s @ r) (cut_engine NUL t)"
      by (rule 3(1) [OF refl]) (use dbl 3(5,6) in auto)
    with dbl 3(6) show ?thesis
      by (simp add: cut_engine_quoted_step map_option_twice del: cut_engine.simps insert_iff)
  next
    case plain
    have "cut_engine q ((d # s) @ t) = map_option (\<lambda>r. (d # s) @ r) (cut_engine NUL t)"
      by (rule 3(2) [OF refl]) (use plain 3(5,6) in auto)
    with plain q show ?thesis
      by (simp add: cut_engine_quoted_step map_option_twice del: cut_engine.simps)
  qed
qed simp

lemma cut_plain:
  "\<forall>c \<in> set s. c \<notin> {CHR 0x22, CHR 0x60, CHR '')''} \<Longrightarrow>
     cut_engine NUL (s @ t) = map_option (\<lambda>r. s @ r) (cut_engine NUL t)"
proof (induction s)
  case Nil
  show ?case by (cases "cut_engine NUL t") simp_all
next
  case (Cons c s)
  then show ?case by (simp add: map_option_twice)
qed

lemma rfind_index_last: "P x \<Longrightarrow> rfind_index P (xs @ [x]) = Some (length xs)"
  by (simp add: rfind_index_def)

lemma find_index_append: "\<forall>x \<in> set xs. \<not> P x \<Longrightarrow> P y \<Longrightarrow> find_index P (xs @ y # ys) = Some (length xs)"
  by (induction xs) auto

section \<open>Properties\<close>

text \<open>
  C35: Quoted literals. For every byte string, the literal that \<open>ch_append_literal\<close> adds is read
  by ClickHouse as exactly that string and ends at its closing quote, whatever follows it
  (other than a quote), and fits the \<open>2 * len + 2\<close> bytes reserved for it.
\<close>

theorem quote_literal_roundtrip:
  assumes "rest = [] \<or> hd rest \<noteq> SQUOTE"
  shows "\<exists>lit. ch_append_literal buf s = buf @ lit \<and> ch_quote_literal s = lit
    \<and> read_literal (lit @ rest) = Some (s, rest) \<and> length lit \<le> 2 * length s + 2"
  using read_quote_chars [OF assms, of s] quote_chars_length [of s]
  by (simp add: ch_append_literal_def ch_quote_literal_def ch_quote_literal_internal_def read_literal_def)

lemma quote_literal_roundtrip_witness:
  "read_literal (ch_quote_literal ([SQUOTE, BSLASH] @ ''; DROP'') @ '' LIMIT 1'') = Some ([SQUOTE, BSLASH] @ ''; DROP'', '' LIMIT 1'')"
  using quote_literal_roundtrip [of "'' LIMIT 1''" "[]" "[SQUOTE, BSLASH] @ ''; DROP''"] by auto

text \<open>
  C36: Escaped values. For every byte string, \<open>ch_escape_string\<close> writes at most \<open>2 * len\<close> bytes,
  none of which is a NUL, tab, line feed or carriage return, and between quotes the text is
  read back as the string.
\<close>

theorem escape_string_roundtrip:
  "length (ch_escape_string s) \<le> 2 * length s \<and> list_all (\<lambda>c. \<not> row_delimiter c) (ch_escape_string s)
    \<and> read_literal (SQUOTE # ch_escape_string s @ [SQUOTE]) = Some (s, [])"
  using escape_string_length [of s] escape_string_clean [of _ s] read_escape_string [of "[]" s]
  by (auto simp: list_all_iff read_literal_def)

text \<open>
  Identifiers. Whatever identifier a user option holds, \<open>ch_quote_ident\<close> either raises or
  returns one quoted identifier with nothing after it, provided the library's quoting
  function does so for bare names.
\<close>

theorem quote_ident_single_token:
  assumes "\<forall>s. \<exists>n. read_ident (quote s) = Some (n, [])" and "ch_quote_ident quote ident = Inr r"
  shows "\<exists>name. read_ident r = Some (name, [])"
proof (cases "r = quote ident")
  case True
  with assms(1) show ?thesis by blast
next
  case False
  with assms(2) have q: "length ident \<ge> 2" "check_quoted (hd ident) (tl ident)" "r = ident"
    "hd ident = CHR 0x22 \<and> last ident = CHR 0x22 \<or> hd ident = CHR 0x60 \<and> last ident = CHR 0x60"
    by (auto simp: ch_quote_ident_def Let_def split: if_splits)
  obtain c s where i: "ident = c # s" "s \<noteq> []" using q(1) by (cases ident) (auto simp: Suc_le_eq)
  then have "check_quoted c s" "last s = c" "c \<noteq> BSLASH" "c = CHR 0x22 \<or> c = CHR 0x60" using q by auto
  with check_quoted_reads [of c s] i q(3) show ?thesis by (auto simp: read_ident_def)
qed

definition demo_quote :: "string \<Rightarrow> string" where
  "demo_quote s = CHR 0x60 # concat (map (\<lambda>c. if c = CHR 0x60 \<or> c = BSLASH then [BSLASH, c] else [c]) s) @ [CHR 0x60]"

lemma demo_quote_reads: "\<exists>n. read_ident (demo_quote s) = Some (n, [])"
proof -
  have "\<exists>n. read_quoted (CHR 0x60) (concat (map (\<lambda>c. if c = CHR 0x60 \<or> c = BSLASH then [BSLASH, c] else [c]) s) @ [CHR 0x60]) = Some (n, [])"
    by (induction s) auto
  then show ?thesis by (simp add: read_ident_def demo_quote_def)
qed

lemma quote_ident_single_token_witness:
  "\<exists>name. read_ident (CHR 0x60 # ''a)b'' @ [CHR 0x60]) = Some (name, [])"
proof -
  have "ch_quote_ident demo_quote (CHR 0x60 # ''a)b'' @ [CHR 0x60]) = Inr (CHR 0x60 # ''a)b'' @ [CHR 0x60])"
    by code_simp
  then show ?thesis using quote_ident_single_token demo_quote_reads by blast
qed

text \<open>
  The engine of an imported table. For a \<open>CollapsingMergeTree\<close> whose sign column is a bare
  name or a quoted identifier (which may contain parentheses), the engine option that the
  import writes names the engine with exactly that column, whatever clauses follow in the
  server's description, and applying the option sets that column as the sign field.
\<close>

theorem engine_option_roundtrip:
  assumes "ch_quote_ident quote ident = Inr q" and "length q < CH_ESCAPED_NAMEDATALEN"
    and "(\<forall>c \<in> set ident. c \<notin> {CHR 0x22, CHR 0x60, CHR '')''})
         \<or> length ident \<ge> 2 \<and> hd ident \<in> {CHR 0x22, CHR 0x60} \<and> last ident = hd ident"
  shows "cut_engine NUL (''CollapsingMergeTree('' @ ident @ '')'' @ rest) = Some (''CollapsingMergeTree('' @ ident @ '')'')
    \<and> apply_engine quote (''CollapsingMergeTree('' @ ident @ '')'') old = Inr (CH_COLLAPSING_MERGE_TREE, q)"
proof
  have len: "ident \<noteq> []" "length ident < CH_ESCAPED_NAMEDATALEN"
    using assms(1) by (auto simp: ch_quote_ident_def Let_def split: if_splits)
  have ident: "cut_engine NUL (ident @ t) = map_option (\<lambda>r. ident @ r) (cut_engine NUL t)" for t
  proof (cases "\<forall>c \<in> set ident. c \<notin> {CHR 0x22, CHR 0x60, CHR '')''}")
    case True
    then show ?thesis by (rule cut_plain)
  next
    case False
    then have h: "length ident \<ge> 2" "hd ident \<in> {CHR 0x22, CHR 0x60}" "last ident = hd ident" using assms(3) by auto
    obtain c s where i: "ident = c # s" "s \<noteq> []" using h(1) by (cases ident) (auto simp: Suc_le_eq)
    then have "check_quoted c s" "last s = c" "c \<in> {CHR 0x22, CHR 0x60}"
      using assms(1) h by (auto simp: ch_quote_ident_def Let_def split: if_splits)
    from cut_quoted [OF this(1) i(2) this(2,3), of t] cut_engine_quoted_step(3) [OF this(3)] show ?thesis
      by (simp add: i(1) map_option_twice del: cut_engine.simps)
  qed
  show "cut_engine NUL (''CollapsingMergeTree('' @ ident @ '')'' @ rest) = Some (''CollapsingMergeTree('' @ ident @ '')'')"
    using ident [of "'')'' @ rest"] cut_plain [of "''CollapsingMergeTree(''" "ident @ '')'' @ rest"] by simp
  let ?v = "''CollapsingMergeTree('' @ ident @ '')''"
  have pre: "strncaseprefix ?v ''collapsingmergetree''"
  proof -
    have "strncaseprefix (''CollapsingMergeTree'' @ t) ''collapsingmergetree'' \<longleftrightarrow>
        map pg_tolower ''CollapsingMergeTree'' = ''collapsingmergetree''" for t
      by (simp add: strncaseprefix_def)
    moreover have "map pg_tolower ''CollapsingMergeTree'' = ''collapsingmergetree''" by code_simp
    ultimately show ?thesis by (metis append_Cons append_Nil)
  qed
  have "find_index (\<lambda>c. c = CHR ''('') ?v = Some 19"
    using find_index_append [of "''CollapsingMergeTree''" "\<lambda>c. c = CHR ''(''" "CHR ''(''" "ident @ '')''"] by simp
  moreover have "rfind_index (\<lambda>c. c = CHR '')'') ?v = Some (20 + length ident)"
    using rfind_index_last [of "\<lambda>c. c = CHR '')''" "CHR '')''" "''CollapsingMergeTree('' @ ident"] by simp
  moreover have "take (20 + length ident - 19 - 1) (drop (19 + 1) ?v) = ident"
    by (simp add: eval_nat_numeral)
  ultimately show "apply_engine quote ?v old = Inr (CH_COLLAPSING_MERGE_TREE, q)"
    using pre len assms(1,2) unfolding apply_engine_def by (simp del: append_Cons)
qed

lemma engine_option_roundtrip_witness:
  "apply_engine demo_quote (''CollapsingMergeTree('' @ ''sign'' @ '')'') (CH_DEFAULT, [])
     = Inr (CH_COLLAPSING_MERGE_TREE, demo_quote ''sign'')
   \<and> cut_engine NUL (''CollapsingMergeTree('' @ ''sign'' @ '')'' @ '' ORDER BY (a)'') = Some ''CollapsingMergeTree(sign)''"
proof -
  have q: "ch_quote_ident demo_quote ''sign'' = Inr (demo_quote ''sign'')" by code_simp
  have l: "length (demo_quote ''sign'') < CH_ESCAPED_NAMEDATALEN" by code_simp
  show ?thesis
    using engine_option_roundtrip [OF q l, of "'' ORDER BY (a)''" "(CH_DEFAULT, [])"] by simp
qed

end
