(* ===== verification/Binary.thy ===== *)
theory Binary
  imports KvList Endpoint
begin

text \<open>
  The native-protocol driver (\<open>src/binary/binary.c\<close>, \<open>connection.c\<close>, \<open>select.c\<close>,
  \<open>insert.c\<close>): query settings and parameters, the packet pump of a response, draining, and
  the handles of open INSERTs.

  The protocol library is a parameter: what its receive function returns in successive calls
  is the argument \<open>wire\<close> of a connection, one element per call, each with what the
  cancellation check answers right after it. When the list is exhausted the call blocks, and
  the operation that waits for it is \<open>None\<close>. Whether a send succeeds is an argument of the
  operation that sends.
\<close>

section \<open>Data\<close>

text \<open>
  A block: its number of columns, what validating its columns reports (the empty list for
  success) and its contents.
\<close>

record 'b block =
  n_columns :: nat
  validation :: "string option"
  payload :: 'b

record chc_exception =
  display_text :: "string option"
  exc_name :: "string option"

datatype 'b packet =
    CHC_PKT_DATA "'b block option"
  | CHC_PKT_EXCEPTION "chc_exception option"
  | CHC_PKT_END_OF_STREAM
  | CHC_PKT_OTHER

datatype 'b recv =
    Received "'b packet"
  | RecvFailed string

text \<open>Messages to the server: a query with its settings and parameters, an INSERT block, cancel.\<close>

record chc_query_setting =
  qs_name :: string
  qs_value :: string
  important :: bool

datatype 'r client_msg =
    SendQuery string "chc_query_setting list" "(string \<times> string) list"
  | SendData "'r list option"
  | SendCancel

record ('b, 'r) ch_binary_connection =
  wire :: "('b recv \<times> bool) list"
  sent :: "'r client_msg list"
  server_info :: "(int \<times> int \<times> int) option"
  check_cancel_fn :: bool
  broken_conn :: bool
  inserts :: "nat list"

record 'b ch_binary_response =
  error :: "string option"
  eos :: bool
  staged :: "'b block option"

section \<open>Connection\<close>

datatype chc_compression = CHC_COMP_NONE | CHC_COMP_LZ4 | CHC_COMP_ZSTD

definition parse_compression :: "string option \<Rightarrow> chc_compression pg" where
  "parse_compression s = (case s of
       None \<Rightarrow> Inr CHC_COMP_LZ4
     | Some s \<Rightarrow>
         if s = [] \<or> strcaseeq s ''lz4'' then Inr CHC_COMP_LZ4
         else if strcaseeq s ''none'' then Inr CHC_COMP_NONE
         else if strcaseeq s ''zstd'' then Inr CHC_COMP_ZSTD
         else Inl (Ereport ERRCODE_FDW_INVALID_OPTION_NAME
                (''pg_clickhouse: invalid compression \"'' @ s @ [CHR 0x22])
                [''valid values: none, lz4, zstd'']))"

datatype openssl_version = OPENSSL_DEFAULT | TLS1_VERSION | TLS1_1_VERSION | TLS1_2_VERSION | TLS1_3_VERSION

definition openssl_min_proto_version :: "tls_version \<Rightarrow> openssl_version" where
  "openssl_min_proto_version v = (case v of
       CH_TLS_V1_0 \<Rightarrow> TLS1_VERSION
     | CH_TLS_V1_1 \<Rightarrow> TLS1_1_VERSION
     | CH_TLS_V1_2 \<Rightarrow> TLS1_2_VERSION
     | CH_TLS_V1_3 \<Rightarrow> TLS1_3_VERSION
     | CH_TLS_DEFAULT \<Rightarrow> OPENSSL_DEFAULT)"

definition ch_binary_is_broken :: "('b, 'r) ch_binary_connection option \<Rightarrow> bool" where
  "ch_binary_is_broken conn = (case conn of None \<Rightarrow> False | Some c \<Rightarrow> broken_conn c)"

definition ch_binary_server_version :: "('b, 'r) ch_binary_connection option \<Rightarrow> ch_server_version" where
  "ch_binary_server_version conn =
     (case (case conn of None \<Rightarrow> None | Some c \<Rightarrow> server_info c) of
        None \<Rightarrow> \<lparr>major = 0, minor = 0, patch = 0\<rparr>
      | Some (a, b, c) \<Rightarrow> \<lparr>major = a, minor = b, patch = c\<rparr>)"

section \<open>Messages, settings, parameters\<close>

definition ch_binary_exception_message :: "chc_exception option \<Rightarrow> string" where
  "ch_binary_exception_message ex =
     (case ex of
        None \<Rightarrow> ''server exception''
      | Some e \<Rightarrow>
          (case display_text e of
             Some (c # t) \<Rightarrow> c # t
           | _ \<Rightarrow> (case exc_name e of Some (c # t) \<Rightarrow> c # t | _ \<Rightarrow> ''server exception'')))"

text \<open>
  \<open>ch_binary_query_settings\<close>: the number of cells allocated (\<open>*n_settings\<close>) and the cells
  written; \<open>None\<close> when iterating the packed settings leaves their buffer.
\<close>

definition driver_settings :: "ch_server_version \<Rightarrow> string \<Rightarrow> chc_query_setting list" where
  "driver_settings version session_timezone =
     (if chfdw_version_ge version 24 10
      then [\<lparr>qs_name = ''output_format_native_write_json_as_string'', qs_value = ''1'', important = True\<rparr>] else [])
     @ (if chfdw_version_ge version 23 6
        then [\<lparr>qs_name = ''session_timezone'', qs_value = session_timezone, important = True\<rparr>] else [])"

definition ch_binary_query_settings ::
    "('b, 'r) ch_binary_connection \<Rightarrow> string \<Rightarrow> kv_list option \<Rightarrow> (nat \<times> chc_query_setting list) option" where
  "ch_binary_query_settings conn session_timezone settings =
     (let version = ch_binary_server_version (Some conn);
          n = (case settings of None \<Rightarrow> 0 | Some s \<Rightarrow> kv_len s)
              + (if chfdw_version_ge version 24 10 then 1 else 0) + (if chfdw_version_ge version 23 6 then 1 else 0)
      in if n = 0 then Some (0, [])
         else map_option
                (\<lambda>ps. (n, map (\<lambda>(k, v). \<lparr>qs_name = k, qs_value = v, important = True\<rparr>) ps
                          @ driver_settings version session_timezone))
                (kv_pairs settings))"

definition param_char :: "char \<Rightarrow> string" where
  "param_char ch =
     (if ch = NUL then BSLASH # ''x00''
      else if ch = CHR 0x08 then BSLASH # ''x08''
      else if ch = CHR 0x09 then BSLASH # ''t''
      else if ch = CHR 0x0A then BSLASH # ''n''
      else if ch = SQUOTE then BSLASH # ''x27''
      else if ch = BSLASH then [BSLASH, BSLASH]
      else [ch])"

definition param_value :: "string option \<Rightarrow> string" where
  "param_value raw = (case raw of
       Some s \<Rightarrow> SQUOTE # concat (map param_char s) @ [SQUOTE]
     | None \<Rightarrow> [SQUOTE, BSLASH, CHR ''N'', SQUOTE])"

definition query_params :: "string option list \<Rightarrow> (string \<times> string) list" where
  "query_params ps = map (\<lambda>i. (CHR ''p'' # show_nat (i + 1), param_value (ps ! i))) [0..<length ps]"

section \<open>Receiving\<close>

definition mark_broken :: "('b, 'r) ch_binary_connection \<Rightarrow> ('b, 'r) ch_binary_connection" where
  "mark_broken conn = conn\<lparr>broken_conn := True\<rparr>"

definition send_msg :: "'r client_msg \<Rightarrow> ('b, 'r) ch_binary_connection \<Rightarrow> ('b, 'r) ch_binary_connection" where
  "send_msg m conn = conn\<lparr>sent := sent conn @ [m]\<rparr>"

text \<open>\<open>ch_binary_drain\<close>: the connection and \<open>*out_msg\<close>, by recursion on what is received.\<close>

fun drain_wire ::
    "('b recv \<times> bool) list \<Rightarrow> ('b, 'r) ch_binary_connection
      \<Rightarrow> (('b, 'r) ch_binary_connection \<times> string option) option" where
  "drain_wire [] conn = None"
| "drain_wire ((r, _) # w) conn =
     (case r of
        RecvFailed m \<Rightarrow> Some (mark_broken (conn\<lparr>wire := w\<rparr>), Some (if m \<noteq> [] then m else ''recv_packet failed''))
      | Received pkt \<Rightarrow>
          (case pkt of
             CHC_PKT_EXCEPTION ex \<Rightarrow> Some (mark_broken (conn\<lparr>wire := w\<rparr>), Some (ch_binary_exception_message ex))
           | CHC_PKT_END_OF_STREAM \<Rightarrow> Some (conn\<lparr>wire := w\<rparr>, None)
           | _ \<Rightarrow> drain_wire w conn))"

definition ch_binary_drain ::
    "('b, 'r) ch_binary_connection \<Rightarrow> (('b, 'r) ch_binary_connection \<times> string option) option" where
  "ch_binary_drain conn = drain_wire (wire conn) conn"

definition resp_set_error :: "string \<Rightarrow> 'b ch_binary_response \<Rightarrow> 'b ch_binary_response" where
  "resp_set_error msg resp =
     (if error resp \<noteq> None then resp else resp\<lparr>error := Some (if msg \<noteq> [] then msg else ''?'')\<rparr>)"

text \<open>\<open>pump_one\<close> on the next element of the wire.\<close>

definition fold_packet ::
    "'b packet \<Rightarrow> ('b, 'r) ch_binary_connection \<times> 'b ch_binary_response
      \<Rightarrow> ('b, 'r) ch_binary_connection \<times> 'b ch_binary_response" where
  "fold_packet pkt cr = (case cr of (conn, resp) \<Rightarrow>
     (case pkt of
        CHC_PKT_DATA b \<Rightarrow>
          (case b of
             None \<Rightarrow> (conn, resp)
           | Some blk \<Rightarrow>
               if n_columns blk > 0 \<and> staged resp = None then
                 (case validation blk of
                    Some m \<Rightarrow> (mark_broken conn, (resp_set_error m resp)\<lparr>eos := True\<rparr>)
                  | None \<Rightarrow> (conn, resp\<lparr>staged := Some blk\<rparr>))
               else (conn, resp))
      | CHC_PKT_EXCEPTION ex \<Rightarrow>
          (mark_broken conn, (resp_set_error (ch_binary_exception_message ex) resp)\<lparr>eos := True\<rparr>)
      | CHC_PKT_END_OF_STREAM \<Rightarrow> (conn, resp\<lparr>eos := True\<rparr>)
      | CHC_PKT_OTHER \<Rightarrow> (conn, resp)))"

definition pump_one ::
    "('b, 'r) ch_binary_connection \<Rightarrow> 'b ch_binary_response
      \<Rightarrow> (('b, 'r) ch_binary_connection \<times> 'b ch_binary_response) option" where
  "pump_one conn resp =
     (case wire conn of
        [] \<Rightarrow> None
      | (r, cancelled) # w \<Rightarrow>
          (let conn = conn\<lparr>wire := w\<rparr>
           in case r of
                RecvFailed m \<Rightarrow> Some (mark_broken conn, (resp_set_error m resp)\<lparr>eos := True\<rparr>)
              | Received pkt \<Rightarrow>
                  Some (fold_packet pkt (conn,
                    if check_cancel_fn conn \<and> cancelled then resp_set_error ''query was canceled'' resp else resp))))"

lemma pump_one_length:
  "pump_one conn resp = Some (conn', resp') \<Longrightarrow> length (wire conn') < length (wire conn)"
  by (auto simp: pump_one_def fold_packet_def mark_broken_def Let_def
      split: list.splits recv.splits packet.splits option.splits if_splits)

text \<open>The loop of \<open>ch_binary_simple_query\<close> and \<open>ch_binary_response_fetch_next_block\<close>.\<close>

function pump_until ::
    "('b, 'r) ch_binary_connection \<Rightarrow> 'b ch_binary_response
      \<Rightarrow> (('b, 'r) ch_binary_connection \<times> 'b ch_binary_response) option" where
  "pump_until conn resp =
     (if staged resp \<noteq> None \<or> eos resp \<or> error resp \<noteq> None then Some (conn, resp)
      else (case pump_one conn resp of None \<Rightarrow> None | Some (conn', resp') \<Rightarrow> pump_until conn' resp'))"
  by pat_completeness auto
termination
  by (relation "measure (\<lambda>(conn, resp). length (wire conn))") (auto dest: pump_one_length)

declare pump_until.simps [simp del]

definition new_response :: "'b ch_binary_response" where
  "new_response = \<lparr>error = None, eos = False, staged = None\<rparr>"

text \<open>\<open>ch_binary_simple_query\<close>: \<open>send_err\<close> is the error of sending the query, if any.\<close>

definition ch_binary_simple_query ::
    "string option \<Rightarrow> string \<Rightarrow> string \<Rightarrow> string option list \<Rightarrow> kv_list option \<Rightarrow> bool
      \<Rightarrow> ('b, 'r) ch_binary_connection \<Rightarrow> (('b, 'r) ch_binary_connection \<times> 'b ch_binary_response) option" where
  "ch_binary_simple_query send_err tz sql params settings cancellable conn =
     (let conn = conn\<lparr>check_cancel_fn := cancellable\<rparr>
      in case ch_binary_query_settings conn tz settings of
           None \<Rightarrow> None
         | Some (n, qs) \<Rightarrow>
             (case send_err of
                Some m \<Rightarrow> Some (mark_broken conn, (resp_set_error m new_response)\<lparr>eos := True\<rparr>)
              | None \<Rightarrow> pump_until (send_msg (SendQuery sql qs (query_params params)) conn) new_response))"

definition ch_binary_response_fetch_next_block ::
    "('b, 'r) ch_binary_connection \<Rightarrow> 'b ch_binary_response
      \<Rightarrow> (('b, 'r) ch_binary_connection \<times> 'b ch_binary_response \<times> 'b block option) option" where
  "ch_binary_response_fetch_next_block conn resp =
     (case pump_until conn resp of
        None \<Rightarrow> None
      | Some (conn, resp) \<Rightarrow> Some (conn, resp\<lparr>staged := None\<rparr>, staged resp))"

text \<open>
  \<open>drain_until_eos\<close> and \<open>ch_binary_response_free\<close>: \<open>cancel_ok\<close> is the success of sending
  Cancel. The deadline that bounds the drain shows as a failed receive.
\<close>

definition drain_until_eos ::
    "bool \<Rightarrow> ('b, 'r) ch_binary_connection \<Rightarrow> 'b ch_binary_response
      \<Rightarrow> (('b, 'r) ch_binary_connection \<times> 'b ch_binary_response) option" where
  "drain_until_eos cancel_ok conn resp =
     (if eos resp then Some (conn, resp)
      else (let resp = resp\<lparr>eos := True\<rparr>
            in if \<not> cancel_ok then Some (mark_broken conn, resp)
               else (case ch_binary_drain (send_msg SendCancel (conn\<lparr>check_cancel_fn := False\<rparr>)) of
                       None \<Rightarrow> None
                     | Some (conn, _) \<Rightarrow> Some (conn, resp))))"

definition ch_binary_response_free ::
    "bool \<Rightarrow> ('b, 'r) ch_binary_connection \<Rightarrow> 'b ch_binary_response option \<Rightarrow> ('b, 'r) ch_binary_connection option" where
  "ch_binary_response_free cancel_ok conn resp =
     (case resp of
        None \<Rightarrow> Some conn
      | Some resp \<Rightarrow>
          (case drain_until_eos cancel_ok conn resp of
             None \<Rightarrow> None
           | Some (conn, _) \<Rightarrow> Some (conn\<lparr>check_cancel_fn := False\<rparr>)))"

section \<open>INSERT\<close>

text \<open>
  The handle of an INSERT: attached to its connection or not (\<open>conn != NULL\<close>), the names of
  the server's columns, the rows in its writer, and whether it was finalized.
\<close>

record 'r ch_binary_insert_handle =
  attached :: bool
  names :: "string list"
  rows :: "'r list"
  finalized :: bool

text \<open>A connection with the handles ever opened on it; \<open>inserts\<close> of the connection refers to them.\<close>

record ('b, 'r) insert_state =
  bconn :: "('b, 'r) ch_binary_connection"
  handles :: "'r ch_binary_insert_handle list"

definition prepare_error :: "string \<Rightarrow> pg_error" where
  "prepare_error m = Ereport ERRCODE_FDW_ERROR (''pg_clickhouse: could not prepare insert - '' @ m) []"

definition closed_error :: pg_error where
  "closed_error = Ereport ERRCODE_CONNECTION_FAILURE ''pg_clickhouse: connection closed during INSERT'' []"

text \<open>\<open>recv_initial_block\<close>: the first Data block with columns, by recursion on the wire.\<close>

fun recv_initial ::
    "('b recv \<times> bool) list \<Rightarrow> ('b, 'r) ch_binary_connection
      \<Rightarrow> (('b, 'r) ch_binary_connection \<times> 'b block pg) option" where
  "recv_initial [] conn = None"
| "recv_initial ((r, _) # w) conn =
     (case r of
        RecvFailed m \<Rightarrow> Some (mark_broken (conn\<lparr>wire := w\<rparr>), Inl (prepare_error m))
      | Received pkt \<Rightarrow>
          (case pkt of
             CHC_PKT_EXCEPTION ex \<Rightarrow>
               Some (mark_broken (conn\<lparr>wire := w\<rparr>), Inl (prepare_error (ch_binary_exception_message ex)))
           | CHC_PKT_DATA b \<Rightarrow>
               (case b of
                  None \<Rightarrow> recv_initial w conn
                | Some blk \<Rightarrow> if n_columns blk > 0 then Some (conn\<lparr>wire := w\<rparr>, Inr blk) else recv_initial w conn)
           | _ \<Rightarrow> recv_initial w conn))"

definition ch_binary_detach_inserts :: "('b, 'r) insert_state \<Rightarrow> ('b, 'r) insert_state" where
  "ch_binary_detach_inserts st =
     st\<lparr>handles := fold (\<lambda>i hs. hs[i := (hs ! i)\<lparr>attached := False\<rparr>]) (inserts (bconn st)) (handles st),
        bconn := (bconn st)\<lparr>inserts := []\<rparr>\<rparr>"

definition drain_aborted_insert ::
    "bool \<Rightarrow> ('b, 'r) ch_binary_connection \<Rightarrow> ('b, 'r) ch_binary_connection option" where
  "drain_aborted_insert send_ok conn =
     (if \<not> send_ok then Some (mark_broken conn)
      else map_option fst (ch_binary_drain (send_msg (SendData None) conn)))"

text \<open>
  \<open>ch_binary_begin_insert\<close>: \<open>send_err\<close> is the error of sending the query, \<open>writer_err\<close> what
  building the writer over the block raises, \<open>abort_ok\<close> the success of the empty block sent
  after that. Returns the position of the new handle.
\<close>

definition ch_binary_begin_insert ::
    "string option \<Rightarrow> ('b block \<Rightarrow> pg_error option) \<Rightarrow> bool \<Rightarrow> ('b block \<Rightarrow> string list) \<Rightarrow> string \<Rightarrow> string
      \<Rightarrow> kv_list option \<Rightarrow> ('b, 'r) insert_state \<Rightarrow> (('b, 'r) insert_state \<times> nat pg) option" where
  "ch_binary_begin_insert send_err writer_err abort_ok column_names tz sql settings st =
     (let conn = bconn st
      in case ch_binary_query_settings conn tz settings of
           None \<Rightarrow> None
         | Some (n, qs) \<Rightarrow>
             (case send_err of
                Some m \<Rightarrow> Some (st\<lparr>bconn := mark_broken conn\<rparr>, Inl (prepare_error m))
              | None \<Rightarrow>
                  (let conn = send_msg (SendQuery (sql @ '' VALUES'') qs []) conn
                   in case recv_initial (wire conn) conn of
                        None \<Rightarrow> None
                      | Some (conn, Inl err) \<Rightarrow> Some (st\<lparr>bconn := conn\<rparr>, Inl err)
                      | Some (conn, Inr blk) \<Rightarrow>
                          (case writer_err blk of
                             Some err \<Rightarrow>
                               map_option (\<lambda>conn. (st\<lparr>bconn := conn\<rparr>, Inl err)) (drain_aborted_insert abort_ok conn)
                           | None \<Rightarrow>
                               (let i = length (handles st)
                                in Some (st\<lparr>bconn := conn\<lparr>inserts := i # inserts conn\<rparr>,
                                            handles := handles st @ [\<lparr>attached = True, names = column_names blk,
                                                                      rows = [], finalized = False\<rparr>]\<rparr>,
                                         Inr i))))))"

definition ch_binary_insert_column_name :: "'r ch_binary_insert_handle \<Rightarrow> nat \<Rightarrow> string" where
  "ch_binary_insert_column_name h i = (if i < length (names h) then names h ! i else [])"

definition ch_binary_flush_block ::
    "string option \<Rightarrow> nat \<Rightarrow> ('b, 'r) insert_state \<Rightarrow> ('b, 'r) insert_state \<times> unit pg" where
  "ch_binary_flush_block send_err i st =
     (let h = handles st ! i
      in if \<not> attached h then (st, Inl closed_error)
         else (case send_err of
                 Some m \<Rightarrow> (st\<lparr>bconn := mark_broken (bconn st)\<rparr>,
                            Inl (Ereport ERRCODE_FDW_ERROR (''pg_clickhouse: could not insert columns - '' @ m) []))
               | None \<Rightarrow> (st\<lparr>bconn := send_msg (SendData (Some (rows h))) (bconn st),
                             handles := (handles st)[i := h\<lparr>rows := []\<rparr>]\<rparr>, Inr ())))"

definition finish_error :: "string \<Rightarrow> pg_error" where
  "finish_error m = Ereport ERRCODE_FDW_ERROR (''pg_clickhouse: could not finish INSERT - '' @ m) []"

definition ch_binary_finalize_insert ::
    "string option \<Rightarrow> nat \<Rightarrow> ('b, 'r) insert_state \<Rightarrow> (('b, 'r) insert_state \<times> unit pg) option" where
  "ch_binary_finalize_insert send_err i st =
     (let h = handles st ! i
      in if finalized h then Some (st, Inr ())
         else if \<not> attached h then Some (st, Inl closed_error)
         else
           (let st = st\<lparr>handles := (handles st)[i := h\<lparr>finalized := True\<rparr>]\<rparr>
            in case send_err of
                 Some m \<Rightarrow> Some (st\<lparr>bconn := mark_broken (bconn st)\<rparr>,
                                 Inl (finish_error (if m \<noteq> [] then m else ''send_data failed'')))
               | None \<Rightarrow>
                   (case ch_binary_drain (send_msg (SendData None) (bconn st)) of
                      None \<Rightarrow> None
                    | Some (conn, msg) \<Rightarrow>
                        Some (st\<lparr>bconn := conn\<rparr>, case msg of None \<Rightarrow> Inr () | Some m \<Rightarrow> Inl (finish_error m)))))"

text \<open>
  \<open>ch_binary_release_insert\<close> unlinks the handle from the connection; the handle is not used
  again (its memory is deleted), which the model shows by detaching it.
\<close>

definition ch_binary_release_insert :: "nat \<Rightarrow> ('b, 'r) insert_state \<Rightarrow> ('b, 'r) insert_state" where
  "ch_binary_release_insert i st =
     (let h = handles st ! i
      in if \<not> attached h then st
         else (let conn = (if \<not> finalized h then mark_broken (bconn st) else bconn st)
               in st\<lparr>bconn := conn\<lparr>inserts := remove1 i (inserts conn)\<rparr>,
                     handles := (handles st)[i := h\<lparr>attached := False\<rparr>]\<rparr>))"

text \<open>
  \<open>binary_insert_tuple\<close> of \<open>src/pglink.c\<close>: \<open>bytes\<close> is the size of the buffered rows and
  \<open>limit\<close> is \<open>INSERT_FLUSH_BYTES\<close>; the NULL slot is \<open>None\<close>.
\<close>

definition binary_insert_tuple ::
    "('r list \<Rightarrow> nat) \<Rightarrow> nat \<Rightarrow> string option \<Rightarrow> nat \<Rightarrow> 'r option \<Rightarrow> ('b, 'r) insert_state
      \<Rightarrow> ('b, 'r) insert_state \<times> unit pg" where
  "binary_insert_tuple bytes limit send_err i slot st =
     (case slot of
        None \<Rightarrow> ch_binary_flush_block send_err i st
      | Some r \<Rightarrow>
          (let h = (handles st ! i)\<lparr>rows := rows (handles st ! i) @ [r]\<rparr>;
               st = st\<lparr>handles := (handles st)[i := h]\<rparr>
           in if bytes (rows h) < limit then (st, Inr ()) else ch_binary_flush_block send_err i st))"

text \<open>\<open>binary_finalize_insert\<close> and the part of \<open>clickhouseEndForeignInsert\<close> (\<open>src/fdw.c\<close>) that ends an INSERT.\<close>

definition end_foreign_insert ::
    "('r list \<Rightarrow> nat) \<Rightarrow> nat \<Rightarrow> nat \<Rightarrow> ('b, 'r) insert_state \<Rightarrow> (('b, 'r) insert_state \<times> unit pg) option" where
  "end_foreign_insert bytes limit i st =
     (case binary_insert_tuple bytes limit None i None st of
        (st, Inl err) \<Rightarrow> Some (st, Inl err)
      | (st, Inr _) \<Rightarrow> ch_binary_finalize_insert None i st)"

section \<open>Reading literals of query parameters\<close>

text \<open>
  The documented escapes of a dumped string value: hexadecimal bytes, tab, line feed and
  backslash. The value and the text after the closing quote.
\<close>

definition hex_digit :: "char \<Rightarrow> nat option" where
  "hex_digit c = (if isdigit c then Some (of_char c - 48)
     else if 97 \<le> (of_char c :: nat) \<and> (of_char c :: nat) \<le> 102 then Some (of_char c - 87) else None)"

fun read_dumped :: "string \<Rightarrow> (string \<times> string) option" where
  "read_dumped [] = None"
| "read_dumped (c # s) =
     (if c = SQUOTE then Some ([], s)
      else if c = BSLASH then
        (case s of
           [] \<Rightarrow> None
         | d # s' \<Rightarrow>
             if d = CHR ''x'' then
               (case s' of
                  a # b # s'' \<Rightarrow>
                    (case (hex_digit a, hex_digit b) of
                       (Some x, Some y) \<Rightarrow> map_option (apfst (Cons (char_of (16 * x + y)))) (read_dumped s'')
                     | _ \<Rightarrow> None)
                | _ \<Rightarrow> None)
             else map_option (apfst (Cons (if d = CHR ''t'' then CHR 0x09 else if d = CHR ''n'' then CHR 0x0A else d)))
                    (read_dumped s'))
      else map_option (apfst (Cons c)) (read_dumped s))"

section \<open>Lemmas: the response\<close>

text \<open>The elements of a wire that end a response, and those that do not.\<close>

fun ends_response :: "'b recv \<times> bool \<Rightarrow> bool" where
  "ends_response (Received CHC_PKT_END_OF_STREAM, c) = True"
| "ends_response (Received (CHC_PKT_EXCEPTION ex), c) = True"
| "ends_response (RecvFailed m, c) = True"
| "ends_response (r, c) = False"

definition is_eos :: "'b recv \<times> bool \<Rightarrow> bool" where
  "is_eos rc \<longleftrightarrow> (case fst rc of Received CHC_PKT_END_OF_STREAM \<Rightarrow> True | _ \<Rightarrow> False)"

text \<open>
  Reading one response, whose last element is \<open>t\<close> and after which \<open>rest\<close> follows: not finished
  and the elements up to \<open>t\<close> still to be read, or finished with nothing of it left unless the
  connection is marked broken.
\<close>

definition in_response ::
    "'b recv \<times> bool \<Rightarrow> ('b recv \<times> bool) list \<Rightarrow> ('b, 'r) ch_binary_connection \<Rightarrow> 'b ch_binary_response \<Rightarrow> bool" where
  "in_response t rest conn resp \<longleftrightarrow>
     (if eos resp then broken_conn conn \<or> (is_eos t \<and> wire conn = rest)
      else \<exists>ws. wire conn = ws @ t # rest \<and> list_all (\<lambda>r. \<not> ends_response r) ws)"

lemma conn_upd [simp]:
  "broken_conn (mark_broken conn)" "wire (mark_broken conn) = wire conn"
  "wire (send_msg m conn) = wire conn" "broken_conn (send_msg m conn) = broken_conn conn"
  "inserts (mark_broken conn) = inserts conn" "inserts (send_msg m conn) = inserts conn"
  "sent (mark_broken conn) = sent conn" "sent (send_msg m conn) = sent conn @ [m]"
  "check_cancel_fn (mark_broken conn) = check_cancel_fn conn"
  "check_cancel_fn (send_msg m conn) = check_cancel_fn conn"
  by (simp_all add: mark_broken_def send_msg_def)

lemma resp_set_error_eos [simp]: "eos (resp_set_error m resp) = eos resp" "staged (resp_set_error m resp) = staged resp"
  by (simp_all add: resp_set_error_def)

lemma drain_wire_ends:
  assumes "list_all (\<lambda>r. \<not> ends_response r) ws" and "ends_response t"
  shows "\<exists>conn' m. drain_wire (ws @ t # rest) conn = Some (conn', m) \<and> wire conn' = rest
    \<and> sent conn' = sent conn \<and> inserts conn' = inserts conn
    \<and> (if is_eos t then m = None \<and> conn' = conn\<lparr>wire := rest\<rparr> else m \<noteq> None \<and> broken_conn conn')"
  using assms
proof (induction ws)
  case Nil
  obtain r c where t: "t = (r, c)" by fastforce
  show ?case
    using Nil(2) by (cases "(r, c)" rule: ends_response.cases) (auto simp: t is_eos_def)
next
  case (Cons w ws)
  then obtain r c where w: "w = (r, c)" by fastforce
  have "drain_wire (w # ws @ t # rest) conn = drain_wire (ws @ t # rest) conn"
    using Cons.prems(1) unfolding w by (cases "(r, c)" rule: ends_response.cases) auto
  with Cons show ?case by simp
qed

lemma in_responseI:
  "\<not> eos resp \<Longrightarrow> wire conn = ws @ t # rest \<Longrightarrow> list_all (\<lambda>r. \<not> ends_response r) ws \<Longrightarrow> in_response t rest conn resp"
  "eos resp \<Longrightarrow> broken_conn conn \<or> is_eos t \<and> wire conn = rest \<Longrightarrow> in_response t rest conn resp"
  by (auto simp: in_response_def)

lemma fold_packet_continues:
  assumes "\<not> ends_response (Received pkt, c)" and "fold_packet pkt (conn, resp) = (conn', resp')" and "\<not> eos resp"
  shows "wire conn' = wire conn \<and> (eos resp' \<longrightarrow> broken_conn conn')"
  using assms by (cases pkt) (auto simp: fold_packet_def split: option.splits if_splits)

lemma fold_packet_ends:
  assumes "ends_response (Received pkt, c)" and "fold_packet pkt (conn, resp) = (conn', resp')"
  shows "wire conn' = wire conn \<and> eos resp' \<and> (broken_conn conn' \<or> is_eos (Received pkt, c))"
  using assms by (cases pkt) (auto simp: fold_packet_def is_eos_def)

lemma pump_one_in_response:
  assumes "in_response t rest conn resp" and "ends_response t" and "\<not> eos resp"
  shows "\<exists>conn' resp'. pump_one conn resp = Some (conn', resp') \<and> in_response t rest conn' resp'"
proof -
  obtain ws where ws: "wire conn = ws @ t # rest" "list_all (\<lambda>r. \<not> ends_response r) ws"
    using assms by (auto simp: in_response_def)
  obtain rc w where rc: "wire conn = rc # w" using ws(1) by (cases ws) auto
  obtain r c where "rc = (r, c)" by fastforce
  with rc have w: "wire conn = (r, c) # w" by simp
  show ?thesis
  proof (cases r)
    case (RecvFailed m)
    with ws w have "t = (r, c)" "w = rest" by (cases ws; auto)+
    with RecvFailed w show ?thesis by (auto simp: pump_one_def intro!: in_responseI(2))
  next
    case (Received pkt)
    define resp0 where "resp0 = (if check_cancel_fn conn \<and> c then resp_set_error ''query was canceled'' resp else resp)"
    obtain conn' resp' where f: "fold_packet pkt (conn\<lparr>wire := w\<rparr>, resp0) = (conn', resp')" by fastforce
    have p: "pump_one conn resp = Some (conn', resp')"
      using f w Received by (simp add: pump_one_def resp0_def)
    have e0: "\<not> eos resp0" using assms(3) by (simp add: resp0_def)
    have "in_response t rest conn' resp'"
    proof (cases ws)
      case Nil
      with ws w Received have t: "t = (Received pkt, c)" "w = rest" by auto
      with fold_packet_ends [OF _ f, of c] assms(2) show ?thesis by (auto intro: in_responseI)
    next
      case (Cons v vs)
      with ws w Received have "\<not> ends_response (Received pkt, c)" "w = vs @ t # rest" "list_all (\<lambda>r. \<not> ends_response r) vs"
        by auto
      with fold_packet_continues [OF _ f e0, of c] show ?thesis
        by (cases "eos resp'") (auto intro: in_responseI)
    qed
    with p show ?thesis by blast
  qed
qed

lemma pump_until_in_response:
  assumes "ends_response t"
  shows "in_response t rest conn resp \<Longrightarrow>
    \<exists>conn' resp'. pump_until conn resp = Some (conn', resp') \<and> in_response t rest conn' resp'
      \<and> (staged resp' \<noteq> None \<or> eos resp' \<or> error resp' \<noteq> None)"
proof (induction conn resp rule: pump_until.induct)
  case (1 conn resp)
  show ?case
  proof (cases "staged resp \<noteq> None \<or> eos resp \<or> error resp \<noteq> None")
    case True
    with 1(2) show ?thesis by (subst pump_until.simps) auto
  next
    case False
    obtain conn' resp' where p: "pump_one conn resp = Some (conn', resp')" "in_response t rest conn' resp'"
      using pump_one_in_response [OF 1(2) assms] False by blast
    from 1(1) [OF False p(1) refl p(2)] show ?thesis
      using p(1) False by (subst pump_until.simps) auto
  qed
qed

text \<open>A client that fetches at most \<open>k\<close> blocks.\<close>

fun fetch_blocks ::
    "nat \<Rightarrow> ('b, 'r) ch_binary_connection \<Rightarrow> 'b ch_binary_response
      \<Rightarrow> (('b, 'r) ch_binary_connection \<times> 'b ch_binary_response \<times> 'b block list) option" where
  "fetch_blocks 0 conn resp = Some (conn, resp, [])"
| "fetch_blocks (Suc k) conn resp =
     (case ch_binary_response_fetch_next_block conn resp of
        None \<Rightarrow> None
      | Some (conn, resp, None) \<Rightarrow> Some (conn, resp, [])
      | Some (conn, resp, Some blk) \<Rightarrow>
          map_option (\<lambda>(conn, resp, bs). (conn, resp, blk # bs)) (fetch_blocks k conn resp))"

lemma fetch_next_in_response:
  assumes "in_response t rest conn resp" and "ends_response t"
  shows "\<exists>conn' resp' b. ch_binary_response_fetch_next_block conn resp = Some (conn', resp', b)
    \<and> in_response t rest conn' resp'"
proof -
  obtain conn' resp' where p: "pump_until conn resp = Some (conn', resp')" "in_response t rest conn' resp'"
    using pump_until_in_response [OF assms(2,1)] by blast
  then have "in_response t rest conn' (resp'\<lparr>staged := None\<rparr>)" by (simp add: in_response_def)
  with p(1) show ?thesis by (auto simp: ch_binary_response_fetch_next_block_def)
qed

lemma query_settings_defined:
  "kv_pairs settings \<noteq> None \<Longrightarrow> \<exists>n qs. ch_binary_query_settings conn tz settings = Some (n, qs)"
proof -
  assume "kv_pairs settings \<noteq> None"
  then have "ch_binary_query_settings conn tz settings \<noteq> None"
    unfolding ch_binary_query_settings_def Let_def by (simp split: if_split)
  then show ?thesis by auto
qed

lemma fetch_blocks_in_response:
  assumes t: "ends_response t"
  shows "in_response t rest conn resp \<Longrightarrow>
    \<exists>conn' resp' bs. fetch_blocks k conn resp = Some (conn', resp', bs) \<and> in_response t rest conn' resp'"
proof (induction k arbitrary: conn resp)
  case (Suc k)
  obtain conn' resp' b where f: "ch_binary_response_fetch_next_block conn resp = Some (conn', resp', b)"
    "in_response t rest conn' resp'" using fetch_next_in_response [OF Suc.prems t] by blast
  show ?case using f Suc.IH [OF f(2)] by (cases b) auto
qed auto

lemma response_free_in_response:
  assumes "in_response t rest conn resp" and "ends_response t"
  shows "\<exists>conn'. ch_binary_response_free cancel_ok conn (Some resp) = Some conn'
    \<and> (broken_conn conn' \<or> is_eos t \<and> wire conn' = rest)"
proof (cases "eos resp \<or> \<not> cancel_ok")
  case True
  then show ?thesis
    using assms(1) by (auto simp: ch_binary_response_free_def drain_until_eos_def in_response_def)
next
  case False
  then obtain ws where ws: "wire conn = ws @ t # rest" "list_all (\<lambda>r. \<not> ends_response r) ws"
    using assms(1) by (auto simp: in_response_def)
  from drain_wire_ends [OF ws(2) assms(2), of rest "send_msg SendCancel (conn\<lparr>check_cancel_fn := False\<rparr>)"] ws(1) False
  show ?thesis
    by (auto simp: ch_binary_response_free_def drain_until_eos_def ch_binary_drain_def split: if_splits)
qed

section \<open>Properties of SELECT\<close>

text \<open>
  C28: No response is left on a reusable connection. When a query is sent and the server's
  answer ends somewhere (end of stream, exception or transport failure), then however many
  blocks the client fetches, and whether Cancel can be sent or not, freeing the response
  terminates and leaves the connection either marked broken or with exactly what follows the
  end of stream still to be read.
\<close>

theorem binary_response_drained:
  assumes "wire conn = ws @ t # rest" and "list_all (\<lambda>r. \<not> ends_response r) ws" and "ends_response t"
    and "kv_pairs settings \<noteq> None"
  shows "\<exists>c1 r1 c2 r2 bs c3.
      ch_binary_simple_query None tz sql params settings cancellable conn = Some (c1, r1)
    \<and> fetch_blocks k c1 r1 = Some (c2, r2, bs)
    \<and> ch_binary_response_free cancel_ok c2 (Some r2) = Some c3
    \<and> (broken_conn c3 \<or> is_eos t \<and> wire c3 = rest)"
proof -
  let ?c = "conn\<lparr>check_cancel_fn := cancellable\<rparr>"
  obtain n qs where s: "ch_binary_query_settings ?c tz settings = Some (n, qs)"
    using query_settings_defined [OF assms(4)] by blast
  let ?c' = "send_msg (SendQuery sql qs (query_params params)) ?c"
  have "in_response t rest ?c' new_response"
    using assms(1,2) by (auto simp: in_response_def new_response_def)
  from pump_until_in_response [OF assms(3) this] obtain c1 r1
    where q: "pump_until ?c' new_response = Some (c1, r1)" "in_response t rest c1 r1" by blast
  from fetch_blocks_in_response [OF assms(3) q(2)] obtain c2 r2 bs
    where f: "fetch_blocks k c1 r1 = Some (c2, r2, bs)" "in_response t rest c2 r2" by blast
  from response_free_in_response [OF f(2) assms(3)] q(1) f(1) s show ?thesis
    by (auto simp: ch_binary_simple_query_def)
qed

definition demo_block :: "nat \<Rightarrow> nat block" where
  "demo_block n = \<lparr>n_columns = 1, validation = None, payload = n\<rparr>"

definition demo_binary :: "(nat recv \<times> bool) list \<Rightarrow> (nat, nat) ch_binary_connection" where
  "demo_binary w = \<lparr>wire = w, sent = [], server_info = Some (24, 10, 1), check_cancel_fn = False,
     broken_conn = False, inserts = []\<rparr>"

definition demo_wire :: "(nat recv \<times> bool) list" where
  "demo_wire = map (\<lambda>p. (Received p, False))
     [CHC_PKT_DATA (Some (demo_block 1)), CHC_PKT_OTHER, CHC_PKT_DATA (Some (demo_block 2)), CHC_PKT_DATA None]"

lemma binary_response_drained_witness:
  "\<exists>c1 r1 c2 r2 bs c3.
      ch_binary_simple_query None ''UTC'' ''SELECT 1'' [] None True
        (demo_binary (demo_wire @ (Received CHC_PKT_END_OF_STREAM, False) # [])) = Some (c1, r1)
    \<and> fetch_blocks 1 c1 r1 = Some (c2, r2, bs)
    \<and> ch_binary_response_free True c2 (Some r2) = Some c3 \<and> (broken_conn c3 \<or> wire c3 = [])"
proof -
  have "kv_pairs None \<noteq> None" by code_simp
  then show ?thesis
    using binary_response_drained [of "demo_binary (demo_wire @ (Received CHC_PKT_END_OF_STREAM, False) # [])"
        demo_wire "(Received CHC_PKT_END_OF_STREAM, False)" "[]" None "''UTC''" "''SELECT 1''" "[]" True 1 True]
    by (simp add: demo_binary_def demo_wire_def is_eos_def)
qed

text \<open>The blocks with columns that a response carries.\<close>

fun data_blocks :: "('b recv \<times> bool) list \<Rightarrow> 'b block list" where
  "data_blocks [] = []"
| "data_blocks ((Received (CHC_PKT_DATA (Some b)), c) # w) =
     (if n_columns b > 0 then b # data_blocks w else data_blocks w)"
| "data_blocks (rc # w) = data_blocks w"

definition fine :: "'b recv \<times> bool \<Rightarrow> bool" where
  "fine rc \<longleftrightarrow> \<not> ends_response rc \<and> \<not> snd rc
     \<and> (case fst rc of Received (CHC_PKT_DATA (Some b)) \<Rightarrow> validation b = None | _ \<Rightarrow> True)"

definition clean_response :: "'b ch_binary_response \<Rightarrow> bool" where
  "clean_response resp \<longleftrightarrow> error resp = None \<and> \<not> eos resp \<and> staged resp = None"

definition skipped :: "'b packet \<Rightarrow> bool" where
  "skipped pkt \<longleftrightarrow> (case pkt of CHC_PKT_DATA b \<Rightarrow> (case b of None \<Rightarrow> True | Some blk \<Rightarrow> n_columns blk = 0)
     | CHC_PKT_OTHER \<Rightarrow> True | _ \<Rightarrow> False)"

lemma skipped_packet:
  assumes "skipped pkt"
  shows "fold_packet pkt cr = cr" "data_blocks ((Received pkt, c) # w) = data_blocks w"
  using assms by (cases pkt; auto simp: skipped_def fold_packet_def split: option.splits)+

lemma fine_cases:
  assumes "fine rc"
  shows "(\<exists>b. rc = (Received (CHC_PKT_DATA (Some b)), False) \<and> n_columns b > 0 \<and> validation b = None)
    \<or> (\<exists>pkt. rc = (Received pkt, False) \<and> skipped pkt)"
proof -
  obtain r where rc: "rc = (r, False)" using assms by (cases rc) (auto simp: fine_def)
  show ?thesis
    using assms unfolding rc
    by (cases "(r, False)" rule: ends_response.cases) (auto simp: fine_def skipped_def split: option.splits)
qed

lemma fetch_next_clean:
  assumes "clean_response resp" and "wire conn = ws @ (Received CHC_PKT_END_OF_STREAM, c) # rest" and "list_all fine ws"
  shows "(case data_blocks ws of
      [] \<Rightarrow> ch_binary_response_fetch_next_block conn resp = Some (conn\<lparr>wire := rest\<rparr>,
              resp\<lparr>eos := True\<rparr>, None) \<or> c \<and> check_cancel_fn conn
    | b # bs \<Rightarrow> \<exists>vs. ch_binary_response_fetch_next_block conn resp = Some (conn\<lparr>wire := vs @ (Received CHC_PKT_END_OF_STREAM, c) # rest\<rparr>, resp, Some b)
              \<and> list_all fine vs \<and> data_blocks vs = bs)"
  using assms
proof (induction ws arbitrary: conn)
  case Nil
  have p: "pump_one conn resp = Some (conn\<lparr>wire := rest\<rparr>, (if check_cancel_fn conn \<and> c
      then resp_set_error ''query was canceled'' resp else resp)\<lparr>eos := True\<rparr>)"
    using Nil(2) by (simp add: pump_one_def fold_packet_def)
  show ?case
    using p Nil(1)
    by (auto simp: ch_binary_response_fetch_next_block_def clean_response_def pump_until.simps [of conn]
        pump_until.simps [of "conn\<lparr>wire := rest\<rparr>"])
next
  case (Cons w ws)
  have go: "pump_until conn resp = (case pump_one conn resp of None \<Rightarrow> None | Some (conn', resp') \<Rightarrow> pump_until conn' resp')"
    using Cons.prems(1) by (subst pump_until.simps) (simp add: clean_response_def)
  have "fine w" using Cons.prems(3) by simp
  from fine_cases [OF this] consider (blk) b where "w = (Received (CHC_PKT_DATA (Some b)), False)" "n_columns b > 0" "validation b = None"
    | (skip) pkt where "w = (Received pkt, False)" "skipped pkt" by blast
  then show ?case
  proof cases
    case (blk b)
    let ?c = "conn\<lparr>wire := ws @ (Received CHC_PKT_END_OF_STREAM, c) # rest\<rparr>"
    have "pump_one conn resp = Some (?c, resp\<lparr>staged := Some b\<rparr>)"
      using Cons.prems blk by (simp add: pump_one_def fold_packet_def clean_response_def)
    then have "ch_binary_response_fetch_next_block conn resp = Some (?c, resp, Some b)"
      using go Cons.prems(1) by (simp add: ch_binary_response_fetch_next_block_def pump_until.simps clean_response_def)
    with blk Cons.prems(3) show ?thesis by auto
  next
    case (skip pkt)
    let ?c = "conn\<lparr>wire := ws @ (Received CHC_PKT_END_OF_STREAM, c) # rest\<rparr>"
    have "pump_one conn resp = Some (?c, resp)"
      using Cons.prems skip by (simp add: pump_one_def skipped_packet)
    then have "ch_binary_response_fetch_next_block conn resp = ch_binary_response_fetch_next_block ?c resp"
      using go by (simp add: ch_binary_response_fetch_next_block_def)
    with Cons.IH [of ?c] Cons.prems skip show ?thesis by (auto simp: skipped_packet split: list.splits)
  qed
qed

lemma fetch_blocks_clean:
  assumes "clean_response resp"
  shows "wire conn = ws @ (Received CHC_PKT_END_OF_STREAM, False) # rest \<Longrightarrow> list_all fine ws \<Longrightarrow>
    length (data_blocks ws) < k \<Longrightarrow>
    fetch_blocks k conn resp = Some (conn\<lparr>wire := rest\<rparr>, resp\<lparr>eos := True\<rparr>, data_blocks ws)"
proof (induction k arbitrary: conn ws)
  case (Suc k)
  note F = fetch_next_clean [OF assms Suc.prems(1,2)]
  show ?case
  proof (cases "data_blocks ws")
    case Nil
    with F show ?thesis by simp
  next
    case (Cons b bs)
    with F obtain vs where f: "ch_binary_response_fetch_next_block conn resp
        = Some (conn\<lparr>wire := vs @ (Received CHC_PKT_END_OF_STREAM, False) # rest\<rparr>, resp, Some b)"
      and vs: "list_all fine vs" "data_blocks vs = bs" by auto
    from Suc.IH [of "conn\<lparr>wire := vs @ (Received CHC_PKT_END_OF_STREAM, False) # rest\<rparr>" vs] vs Cons Suc.prems(3)
    show ?thesis by (simp add: f)
  qed
qed simp

lemma pump_until_twice: "pump_until conn resp = Some (c, r) \<Longrightarrow> pump_until c r = Some (c, r)"
proof (induction conn resp rule: pump_until.induct)
  case (1 conn resp)
  show ?case
  proof (cases "staged resp \<noteq> None \<or> eos resp \<or> error resp \<noteq> None")
    case True
    then have "pump_until conn resp = Some (conn, resp)" by (subst pump_until.simps) auto
    with 1(2) show ?thesis by simp
  next
    case False
    with 1(2) obtain conn' resp' where p: "pump_one conn resp = Some (conn', resp')" "pump_until conn' resp' = Some (c, r)"
      by (subst (asm) pump_until.simps) (auto split: option.splits)
    from 1(1) [OF False p(1) refl p(2)] show ?thesis .
  qed
qed

text \<open>
  C31: A complete result. When the answer consists of valid data blocks and packets that carry no
  data, without an error or a cancellation, then fetching after the query returns exactly the
  blocks that have columns, in order, then the end, and the connection is clean and usable.
\<close>

theorem binary_select_blocks:
  assumes "wire conn = ws @ (Received CHC_PKT_END_OF_STREAM, False) # rest" and "list_all fine ws"
    and "kv_pairs settings \<noteq> None" and "\<not> broken_conn conn"
  shows "\<exists>c1 r1 c2 r2. ch_binary_simple_query None tz sql params settings cancellable conn = Some (c1, r1)
    \<and> fetch_blocks (Suc (length (data_blocks ws))) c1 r1 = Some (c2, r2, data_blocks ws)
    \<and> error r2 = None \<and> eos r2 \<and> wire c2 = rest \<and> \<not> broken_conn c2"
proof -
  let ?c = "conn\<lparr>check_cancel_fn := cancellable\<rparr>"
  obtain n qs where s: "ch_binary_query_settings ?c tz settings = Some (n, qs)"
    using query_settings_defined [OF assms(3)] by blast
  let ?c' = "send_msg (SendQuery sql qs (query_params params)) ?c"
  let ?k = "Suc (length (data_blocks ws))"
  have cl: "clean_response new_response" by (simp add: clean_response_def new_response_def)
  have f: "fetch_blocks ?k ?c' new_response = Some (?c'\<lparr>wire := rest\<rparr>, new_response\<lparr>eos := True\<rparr>, data_blocks ws)"
    by (rule fetch_blocks_clean [OF cl]) (use assms in auto)
  then obtain c1 r1 where p: "pump_until ?c' new_response = Some (c1, r1)"
    by (auto simp: ch_binary_response_fetch_next_block_def split: option.splits)
  have "fetch_blocks ?k c1 r1 = fetch_blocks ?k ?c' new_response"
    using p pump_until_twice [OF p] by (simp add: ch_binary_response_fetch_next_block_def)
  with f p s assms(4) show ?thesis by (auto simp: ch_binary_simple_query_def new_response_def)
qed

lemma binary_select_blocks_witness:
  "\<exists>c1 r1 c2 r2. ch_binary_simple_query None ''UTC'' ''SELECT 1'' [] None True
      (demo_binary (demo_wire @ (Received CHC_PKT_END_OF_STREAM, False) # [])) = Some (c1, r1)
    \<and> fetch_blocks 3 c1 r1 = Some (c2, r2, [demo_block 1, demo_block 2]) \<and> wire c2 = [] \<and> \<not> broken_conn c2"
proof -
  have k: "kv_pairs None \<noteq> None" by code_simp
  have f: "list_all fine demo_wire" by code_simp
  have d: "data_blocks demo_wire = [demo_block 1, demo_block 2]" by code_simp
  show ?thesis
    using binary_select_blocks [of "demo_binary (demo_wire @ (Received CHC_PKT_END_OF_STREAM, False) # [])"
        demo_wire "[]" None "''UTC''" "''SELECT 1''" "[]" True] k f unfolding d
    by (simp add: demo_binary_def eval_nat_numeral del: fetch_blocks.simps) blast
qed

section \<open>Properties of settings and parameters\<close>

lemma hex_digits [simp]:
  "hex_digit (CHR ''0'') = Some 0" "hex_digit (CHR ''8'') = Some 8" "hex_digit (CHR ''2'') = Some 2"
  "hex_digit (CHR ''7'') = Some 7"
  by (simp_all add: hex_digit_def isdigit_def)

lemma read_param_char:
  "read_dumped (param_char ch @ s) = map_option (apfst (Cons ch)) (read_dumped s)"
proof -
  have "char_of (16 * 0 + 8 :: nat) = CHR 0x08" "char_of (16 * 2 + 7 :: nat) = SQUOTE" "char_of (16 * 0 + 0 :: nat) = NUL"
    by code_simp+
  then show ?thesis by (simp add: param_char_def)
qed

lemma read_param_chars:
  "read_dumped (concat (map param_char s) @ SQUOTE # rest) = Some (s, rest)"
  by (induction s) (simp_all add: read_param_char)

lemma param_chars_length: "length (concat (map param_char s)) \<le> 4 * length s"
  by (induction s) (auto simp: param_char_def)

text \<open>
  C37: Query parameters. The text of a parameter fits its buffer of \<open>4 * len + 3\<close> bytes with its
  NUL, the server reads it back as exactly the value and ends at its closing quote, and no
  value is written like NULL.
\<close>

theorem binary_param_roundtrip:
  "\<exists>body. param_value (Some s) = SQUOTE # body \<and> read_dumped (body @ rest) = Some (s, rest)
    \<and> length (param_value (Some s)) + 1 \<le> 4 * length s + 3 \<and> param_value (Some s) \<noteq> param_value None"
proof -
  have "read_dumped (concat (map param_char s) @ SQUOTE # rest) = Some (s, rest)" by (rule read_param_chars)
  moreover have "param_value (Some s) \<noteq> param_value None"
  proof
    assume "param_value (Some s) = param_value None"
    then have e: "concat (map param_char s) @ [SQUOTE] = [BSLASH, CHR ''N'', SQUOTE]" by (simp add: param_value_def)
    with read_param_chars [of s "[]"] have "Some (s, []) = read_dumped [BSLASH, CHR ''N'', SQUOTE]" by simp
    then have "s = [CHR ''N'']" by simp
    with e show False by (simp add: param_char_def)
  qed
  ultimately show ?thesis using param_chars_length [of s] by (simp add: param_value_def)
qed

text \<open>
  Query settings. Packing settings and collecting them for a query fills exactly the cells
  that were allocated: the query's settings in order, then those of the driver, so for a name
  the driver sets its value is the last one.
\<close>

theorem binary_query_settings_exact:
  assumes "\<forall>p \<in> set ps. cpair p"
  shows "\<exists>cells. ch_binary_query_settings conn tz (Some (kv_pack ps)) = Some (length cells, cells)
    \<and> map (\<lambda>c. (qs_name c, qs_value c)) (take (length ps) cells) = ps
    \<and> (chfdw_version_ge (ch_binary_server_version (Some conn)) 23 6 \<longrightarrow>
         map_of (rev (map (\<lambda>c. (qs_name c, qs_value c)) cells)) ''session_timezone'' = Some tz)
    \<and> (chfdw_version_ge (ch_binary_server_version (Some conn)) 24 10 \<longrightarrow>
         map_of (rev (map (\<lambda>c. (qs_name c, qs_value c)) cells)) ''output_format_native_write_json_as_string'' = Some ''1'')"
proof -
  let ?v = "ch_binary_server_version (Some conn)"
  have kv: "kv_pairs (Some (kv_pack ps)) = Some ps" by (rule kv.iterate_build) (use assms in auto)
  let ?cells = "map (\<lambda>(k, v). \<lparr>qs_name = k, qs_value = v, important = True\<rparr>) ps @ driver_settings ?v tz"
  have len: "length (driver_settings ?v tz) = (if chfdw_version_ge ?v 24 10 then 1 else 0) + (if chfdw_version_ge ?v 23 6 then 1 else 0)"
    by (simp add: driver_settings_def)
  have "ch_binary_query_settings conn tz (Some (kv_pack ps)) = Some (length ?cells, ?cells)"
  proof (cases "length ?cells = 0")
    case True
    then have "ps = []" "\<not> chfdw_version_ge ?v 24 10" "\<not> chfdw_version_ge ?v 23 6"
      by (auto simp: driver_settings_def split: if_splits)
    then show ?thesis by (simp add: ch_binary_query_settings_def driver_settings_def kv_pack_def)
  next
    case False
    with kv len show ?thesis unfolding ch_binary_query_settings_def Let_def
      by (auto simp: kv_pack_def driver_settings_def)
  qed
  moreover have "map (\<lambda>c. (qs_name c, qs_value c)) (take (length ps) ?cells) = ps"
    by (simp add: comp_def case_prod_beta)
  moreover have "chfdw_version_ge ?v 24 10 \<Longrightarrow> chfdw_version_ge ?v 23 6"
    by (rule chfdw_version_ge_mono) auto
  ultimately show ?thesis by (intro exI [of _ ?cells]) (auto simp: driver_settings_def)
qed

lemma binary_query_settings_exact_witness:
  "\<exists>cells. ch_binary_query_settings (demo_binary []) ''UTC'' (Some (kv_pack [(''session_timezone'', ''x'')])) = Some (3, cells)
     \<and> map_of (rev (map (\<lambda>c. (qs_name c, qs_value c)) cells)) ''session_timezone'' = Some ''UTC''"
proof -
  have p: "\<forall>p \<in> set [(''session_timezone'', ''x'')]. cpair p" by (simp add: cpair_def cstring_def)
  have v: "chfdw_version_ge (ch_binary_server_version (Some (demo_binary []))) 23 6" by code_simp
  have n: "map_option fst (ch_binary_query_settings (demo_binary []) ''UTC'' (Some (kv_pack [(''session_timezone'', ''x'')]))) = Some 3"
    by code_simp
  show ?thesis using binary_query_settings_exact [OF p, of "demo_binary []" "''UTC''"] v n by auto
qed

section \<open>Properties of INSERT\<close>

fun insert_rows ::
    "('r list \<Rightarrow> nat) \<Rightarrow> nat \<Rightarrow> nat \<Rightarrow> 'r list \<Rightarrow> ('b, 'r) insert_state \<Rightarrow> ('b, 'r) insert_state \<times> unit pg" where
  "insert_rows bytes limit i [] st = (st, Inr ())"
| "insert_rows bytes limit i (r # rs) st =
     (case binary_insert_tuple bytes limit None i (Some r) st of
        (st, Inl err) \<Rightarrow> (st, Inl err)
      | (st, Inr _) \<Rightarrow> insert_rows bytes limit i rs st)"

text \<open>The rows in the messages sent so far.\<close>

fun sent_rows :: "'r client_msg list \<Rightarrow> 'r list" where
  "sent_rows [] = []"
| "sent_rows (SendData (Some rs) # ms) = rs @ sent_rows ms"
| "sent_rows (m # ms) = sent_rows ms"

lemma sent_rows_append [simp]: "sent_rows (a @ b) = sent_rows a @ sent_rows b"
  by (induction a rule: sent_rows.induct) auto

text \<open>An INSERT in progress, with what was sent and buffered since it began.\<close>

definition inserting :: "nat \<Rightarrow> ('b, 'r) insert_state \<Rightarrow> bool" where
  "inserting i st \<longleftrightarrow> i < length (handles st) \<and> attached (handles st ! i) \<and> \<not> finalized (handles st ! i)"

definition delivered :: "nat \<Rightarrow> ('b, 'r) insert_state \<Rightarrow> 'r list" where
  "delivered i st = sent_rows (sent (bconn st)) @ rows (handles st ! i)"

lemma flush_block_ok:
  assumes "inserting i st"
  shows "\<exists>st'. ch_binary_flush_block None i st = (st', Inr ()) \<and> inserting i st'
    \<and> delivered i st' = delivered i st \<and> rows (handles st' ! i) = []
    \<and> wire (bconn st') = wire (bconn st) \<and> broken_conn (bconn st') = broken_conn (bconn st)"
  using assms by (auto simp: ch_binary_flush_block_def inserting_def delivered_def Let_def)

lemma insert_tuple_ok:
  assumes "inserting i st"
  shows "\<exists>st'. binary_insert_tuple bytes limit None i (Some r) st = (st', Inr ()) \<and> inserting i st'
    \<and> delivered i st' = delivered i st @ [r]
    \<and> wire (bconn st') = wire (bconn st) \<and> broken_conn (bconn st') = broken_conn (bconn st)"
proof -
  let ?h = "(handles st ! i)\<lparr>rows := rows (handles st ! i) @ [r]\<rparr>"
  let ?s = "st\<lparr>handles := (handles st)[i := ?h]\<rparr>"
  have s: "inserting i ?s" "delivered i ?s = delivered i st @ [r]"
    using assms by (auto simp: inserting_def delivered_def)
  show ?thesis
  proof (cases "bytes (rows ?h) < limit")
    case True
    with s show ?thesis by (simp add: binary_insert_tuple_def)
  next
    case False
    then have "binary_insert_tuple bytes limit None i (Some r) st = ch_binary_flush_block None i ?s"
      by (simp add: binary_insert_tuple_def Let_def)
    with flush_block_ok [OF s(1)] s(2) show ?thesis by auto
  qed
qed

lemma insert_rows_ok:
  "inserting i st \<Longrightarrow> \<exists>st'. insert_rows bytes limit i rs st = (st', Inr ()) \<and> inserting i st'
    \<and> delivered i st' = delivered i st @ rs
    \<and> wire (bconn st') = wire (bconn st) \<and> broken_conn (bconn st') = broken_conn (bconn st)"
proof (induction rs arbitrary: st)
  case (Cons r rs)
  obtain st' where s: "binary_insert_tuple bytes limit None i (Some r) st = (st', Inr ())" "inserting i st'"
    "delivered i st' = delivered i st @ [r]" "wire (bconn st') = wire (bconn st)"
    "broken_conn (bconn st') = broken_conn (bconn st)" using insert_tuple_ok [OF Cons.prems] by blast
  from Cons.IH [OF s(2)] s show ?case by auto
qed auto

text \<open>
  C29: Inserted rows arrive once and in order. Whatever the sizes that trigger a flush, inserting
  rows and ending the INSERT sends exactly these rows in order and then the final empty block;
  when the server's answer ends with end of stream the INSERT succeeds and the connection is
  clean, and when it ends with an exception or a failure an error is raised and the
  connection is marked broken.
\<close>

theorem binary_insert_delivers:
  assumes "inserting i st" and "rows (handles st ! i) = []"
    and "wire (bconn st) = ws @ t # rest" and "list_all (\<lambda>r. \<not> ends_response r) ws" and "ends_response t"
  shows "\<exists>st1 st2 r msgs. insert_rows bytes limit i rs st = (st1, Inr ())
    \<and> end_foreign_insert bytes limit i st1 = Some (st2, r)
    \<and> sent (bconn st2) = msgs @ [SendData None]
    \<and> sent_rows msgs = sent_rows (sent (bconn st)) @ rs
    \<and> (if is_eos t then r = Inr () \<and> wire (bconn st2) = rest \<and> broken_conn (bconn st2) = broken_conn (bconn st)
       else \<not> (\<exists>u. r = Inr u) \<and> broken_conn (bconn st2))"
proof -
  obtain st1 where s1: "insert_rows bytes limit i rs st = (st1, Inr ())" "inserting i st1"
    "delivered i st1 = delivered i st @ rs" "wire (bconn st1) = wire (bconn st)"
    "broken_conn (bconn st1) = broken_conn (bconn st)" using insert_rows_ok [OF assms(1)] by blast
  obtain st2 where s2: "ch_binary_flush_block None i st1 = (st2, Inr ())" "inserting i st2"
    "delivered i st2 = delivered i st1" "rows (handles st2 ! i) = []" "wire (bconn st2) = wire (bconn st1)"
    "broken_conn (bconn st2) = broken_conn (bconn st1)" using flush_block_ok [OF s1(2)] by blast
  let ?s = "st2\<lparr>handles := (handles st2)[i := (handles st2 ! i)\<lparr>finalized := True\<rparr>]\<rparr>"
  let ?c = "send_msg (SendData None) (bconn st2)"
  from drain_wire_ends [OF assms(4,5), of rest ?c] obtain c m where
    d: "drain_wire (ws @ t # rest) ?c = Some (c, m)" "sent c = sent ?c"
    "if is_eos t then m = None \<and> c = ?c\<lparr>wire := rest\<rparr> else m \<noteq> None \<and> broken_conn c" by blast
  have "end_foreign_insert bytes limit i st1
      = Some (?s\<lparr>bconn := c\<rparr>, case m of None \<Rightarrow> Inr () | Some e \<Rightarrow> Inl (finish_error e))"
    using s1(4) s2 d(1) assms(3)
    by (simp add: end_foreign_insert_def binary_insert_tuple_def ch_binary_finalize_insert_def inserting_def
        ch_binary_drain_def Let_def)
  moreover have "sent_rows (sent (bconn st2)) = sent_rows (sent (bconn st)) @ rs"
    using s1(3) s2(3,4) assms(2) by (simp add: delivered_def)
  ultimately show ?thesis
    using s1(1,5) s2(6) d(2,3)
    by (intro exI [of _ st1] exI [of _ "?s\<lparr>bconn := c\<rparr>"] exI conjI)
       (auto split: if_splits option.splits)
qed

definition demo_insert :: "(nat recv \<times> bool) list \<Rightarrow> (nat, nat) insert_state" where
  "demo_insert w = \<lparr>bconn = (demo_binary w)\<lparr>inserts := [0]\<rparr>,
     handles = [\<lparr>attached = True, names = [''a''], rows = [], finalized = False\<rparr>]\<rparr>"

lemma binary_insert_delivers_witness:
  "\<exists>st1 st2. insert_rows length 2 0 [5, 6, 7] (demo_insert ([] @ (Received CHC_PKT_END_OF_STREAM, False) # [])) = (st1, Inr ())
    \<and> end_foreign_insert length 2 0 st1 = Some (st2, Inr ())
    \<and> sent_rows (sent (bconn st2)) = [5, 6, 7] \<and> wire (bconn st2) = []"
proof -
  let ?st = "demo_insert ([] @ (Received CHC_PKT_END_OF_STREAM, False) # [])"
  have "inserting 0 ?st" "rows (handles ?st ! 0) = []" "wire (bconn ?st) = [] @ (Received CHC_PKT_END_OF_STREAM, False) # []"
    "sent (bconn ?st) = []"
    by (simp_all add: demo_insert_def demo_binary_def inserting_def)
  from binary_insert_delivers [OF this(1-3), of length 2 "[5, 6, 7]"] this(4) show ?thesis
    by (auto simp: is_eos_def)
qed

text \<open>The life of the INSERT handles of one connection, as a state machine.\<close>

inductive insert_step :: "('b, 'r) insert_state \<Rightarrow> ('b, 'r) insert_state \<Rightarrow> bool" where
  begin_step: "ch_binary_begin_insert send_err writer_err abort_ok column_names tz sql settings st = Some (st', r) \<Longrightarrow>
     insert_step st st'"
| tuple_step: "i < length (handles st) \<Longrightarrow> attached (handles st ! i) \<Longrightarrow>
     insert_step st (fst (binary_insert_tuple bytes limit send_err i slot st))"
| finalize_step: "i < length (handles st) \<Longrightarrow> ch_binary_finalize_insert send_err i st = Some (st', r) \<Longrightarrow>
     insert_step st st'"
| release_step: "i < length (handles st) \<Longrightarrow> insert_step st (ch_binary_release_insert i st)"

definition insert_inv :: "('b, 'r) insert_state \<Rightarrow> bool" where
  "insert_inv st \<longleftrightarrow> distinct (inserts (bconn st))
     \<and> (\<forall>i. i \<in> set (inserts (bconn st)) \<longleftrightarrow> i < length (handles st) \<and> attached (handles st ! i))
     \<and> (\<forall>i < length (handles st). \<not> attached (handles st ! i) \<and> \<not> finalized (handles st ! i) \<longrightarrow> broken_conn (bconn st))"

definition insert_init :: "('b, 'r) insert_state \<Rightarrow> bool" where
  "insert_init st \<longleftrightarrow> handles st = [] \<and> inserts (bconn st) = []"

lemma recv_initial_keeps:
  "recv_initial w conn = Some (conn', r) \<Longrightarrow> inserts conn' = inserts conn \<and> (broken_conn conn \<longrightarrow> broken_conn conn')"
  by (induction w conn rule: recv_initial.induct)
     (auto split: recv.splits packet.splits option.splits if_splits)

lemma drain_wire_keeps:
  "drain_wire w conn = Some (conn', m) \<Longrightarrow> inserts conn' = inserts conn \<and> (broken_conn conn \<longrightarrow> broken_conn conn')"
  by (induction w conn rule: drain_wire.induct) (auto split: recv.splits packet.splits)

lemma insert_inv_bconn:
  assumes "insert_inv st" and "inserts c = inserts (bconn st)" and "broken_conn (bconn st) \<longrightarrow> broken_conn c"
  shows "insert_inv (st\<lparr>bconn := c\<rparr>)"
  using assms unfolding insert_inv_def by simp

lemma insert_inv_handle:
  assumes "insert_inv st" and "i < length (handles st)" and "attached h = attached (handles st ! i)"
    and "finalized (handles st ! i) \<longrightarrow> finalized h"
  shows "insert_inv (st\<lparr>handles := (handles st)[i := h]\<rparr>)"
  using assms unfolding insert_inv_def by (auto simp: nth_list_update)

lemma begin_insert_inv:
  assumes inv: "insert_inv st"
    and b: "ch_binary_begin_insert send_err writer_err abort_ok column_names tz sql settings st = Some (st', r)"
  shows "insert_inv st'"
proof -
  obtain n qs where q: "ch_binary_query_settings (bconn st) tz settings = Some (n, qs)"
    using b by (cases "ch_binary_query_settings (bconn st) tz settings") (auto simp: ch_binary_begin_insert_def Let_def)
  show ?thesis
  proof (cases send_err)
    case (Some m)
    with b q have "st' = st\<lparr>bconn := mark_broken (bconn st)\<rparr>" by (simp add: ch_binary_begin_insert_def)
    with inv show ?thesis by (auto intro: insert_inv_bconn)
  next
    case None
    let ?c = "send_msg (SendQuery (sql @ '' VALUES'') qs []) (bconn st)"
    obtain c res where rc: "recv_initial (wire (bconn st)) ?c = Some (c, res)"
      using b q None by (cases "recv_initial (wire (bconn st)) ?c") (auto simp: ch_binary_begin_insert_def Let_def)
    note k = recv_initial_keeps [OF rc]
    show ?thesis
    proof (cases res)
      case (Inl err)
      with b q None rc have "st' = st\<lparr>bconn := c\<rparr>" by (simp add: ch_binary_begin_insert_def Let_def)
      with k show ?thesis using inv by (auto intro: insert_inv_bconn)
    next
      case (Inr blk)
      show ?thesis
      proof (cases "writer_err blk")
        case (Some err)
        then obtain c' where "drain_aborted_insert abort_ok c = Some c'" "st' = st\<lparr>bconn := c'\<rparr>"
          using b q None rc Inr by (auto simp: ch_binary_begin_insert_def Let_def)
        with k inv show ?thesis
          by (auto simp: drain_aborted_insert_def ch_binary_drain_def split: if_splits
              intro!: insert_inv_bconn dest!: drain_wire_keeps)
      next
        case None2: None
        let ?i = "length (handles st)"
        have st': "st' = st\<lparr>bconn := c\<lparr>inserts := ?i # inserts c\<rparr>,
            handles := handles st @ [\<lparr>attached = True, names = column_names blk, rows = [], finalized = False\<rparr>]\<rparr>"
          using b q None rc Inr None2 by (auto simp: ch_binary_begin_insert_def Let_def)
        show ?thesis
          using inv k unfolding st' insert_inv_def by (auto simp: nth_append less_Suc_eq)
      qed
    qed
  qed
qed

lemma flush_block_inv:
  "insert_inv st \<Longrightarrow> i < length (handles st) \<Longrightarrow> insert_inv (fst (ch_binary_flush_block send_err i st))"
  unfolding ch_binary_flush_block_def Let_def
  by (auto split: option.splits intro!: insert_inv_bconn insert_inv_handle
      insert_inv_handle [of "st\<lparr>bconn := send_msg (SendData (Some (rows (handles st ! i)))) (bconn st)\<rparr>" i, simplified])

lemma insert_tuple_inv:
  assumes "insert_inv st" and "i < length (handles st)"
  shows "insert_inv (fst (binary_insert_tuple bytes limit send_err i slot st))"
proof (cases slot)
  case None
  with flush_block_inv [OF assms] show ?thesis by (simp add: binary_insert_tuple_def)
next
  case (Some r)
  let ?s = "st\<lparr>handles := (handles st)[i := (handles st ! i)\<lparr>rows := rows (handles st ! i) @ [r]\<rparr>]\<rparr>"
  have "insert_inv ?s" by (rule insert_inv_handle [OF assms]) simp_all
  with flush_block_inv [of ?s i] assms(2) Some show ?thesis by (simp add: binary_insert_tuple_def Let_def)
qed

lemma finalize_insert_inv:
  assumes inv: "insert_inv st" and i: "i < length (handles st)"
    and f: "ch_binary_finalize_insert send_err i st = Some (st', r)"
  shows "insert_inv st'"
proof (cases "finalized (handles st ! i) \<or> \<not> attached (handles st ! i)")
  case True
  with f inv show ?thesis by (auto simp: ch_binary_finalize_insert_def Let_def split: if_splits)
next
  case False
  let ?s = "st\<lparr>handles := (handles st)[i := (handles st ! i)\<lparr>finalized := True\<rparr>]\<rparr>"
  have s: "insert_inv ?s" by (rule insert_inv_handle [OF inv i]) simp_all
  show ?thesis
  proof (cases send_err)
    case (Some m)
    with f False have "st' = ?s\<lparr>bconn := mark_broken (bconn st)\<rparr>" by (auto simp: ch_binary_finalize_insert_def Let_def)
    then show ?thesis using insert_inv_bconn [OF s] by simp
  next
    case None
    with f False obtain c m where "drain_wire (wire (bconn st)) (send_msg (SendData None) (bconn st)) = Some (c, m)"
      and st': "st' = ?s\<lparr>bconn := c\<rparr>"
      by (auto simp: ch_binary_finalize_insert_def ch_binary_drain_def Let_def split: option.splits)
    from drain_wire_keeps [OF this(1)] show ?thesis unfolding st' by (intro insert_inv_bconn [OF s]) auto
  qed
qed

lemma release_insert_inv:
  assumes "insert_inv st" and "i < length (handles st)"
  shows "insert_inv (ch_binary_release_insert i st)"
  using assms unfolding insert_inv_def ch_binary_release_insert_def
  by (auto simp: Let_def nth_list_update split: if_splits)

interpretation ins: inductive_invariant insert_init insert_step insert_inv
proof
  fix s :: "('a, 'b) insert_state"
  show "insert_init s \<Longrightarrow> insert_inv s" by (simp add: insert_init_def insert_inv_def)
next
  fix s s' :: "('a, 'b) insert_state"
  assume "insert_inv s" and "insert_step s s'"
  from this(2,1) show "insert_inv s'"
    by cases (auto intro: begin_insert_inv insert_tuple_inv finalize_insert_inv release_insert_inv)
qed

text \<open>
  C32: Abandoned INSERTs. In every state that beginning, filling, finalizing and releasing INSERTs
  can reach, the connection's list holds exactly the attached handles, each once, and if any
  INSERT was released without having been finalized the connection is marked broken, so it is
  not reused in the middle of an INSERT.
\<close>

theorem abandoned_insert_breaks_connection:
  assumes "reach insert_init insert_step st"
  shows "distinct (inserts (bconn st))
    \<and> (\<forall>i. i \<in> set (inserts (bconn st)) \<longleftrightarrow> i < length (handles st) \<and> attached (handles st ! i))
    \<and> (\<forall>i < length (handles st). \<not> attached (handles st ! i) \<and> \<not> finalized (handles st ! i)
         \<longrightarrow> ch_binary_is_broken (Some (bconn st)))"
  using ins.reach_inv [OF assms] by (simp add: insert_inv_def ch_binary_is_broken_def)

text \<open>An INSERT that is begun and then released without being finalized.\<close>

definition demo_begin :: "((nat, nat) insert_state \<times> nat pg) option" where
  "demo_begin = ch_binary_begin_insert None (\<lambda>_. None) True (\<lambda>_. [''a'']) ''UTC'' ''INSERT INTO t'' None
     \<lparr>bconn = demo_binary [(Received (CHC_PKT_DATA (Some (demo_block 1))), False)], handles = []\<rparr>"

definition demo_abandoned :: "(nat, nat) insert_state" where
  "demo_abandoned = ch_binary_release_insert 0 (fst (the demo_begin))"

lemma demo_begin_handle:
  obtains st where "demo_begin = Some (st, Inr 0)" and "length (handles st) = 1"
    and "attached (handles st ! 0)" and "\<not> finalized (handles st ! 0)"
proof -
  have "case demo_begin of
      Some (st, r) \<Rightarrow> r = Inr 0 \<and> length (handles st) = 1 \<and> attached (handles st ! 0) \<and> \<not> finalized (handles st ! 0)
    | _ \<Rightarrow> False"
    by code_simp
  then show ?thesis by (auto split: option.splits intro: that)
qed

lemma demo_abandoned_handle:
  "length (handles demo_abandoned) = 1 \<and> \<not> attached (handles demo_abandoned ! 0) \<and> \<not> finalized (handles demo_abandoned ! 0)"
proof (rule demo_begin_handle)
  fix st
  assume b: "demo_begin = Some (st, Inr 0)" and h: "length (handles st) = 1" "\<not> finalized (handles st ! 0)"
  show ?thesis unfolding demo_abandoned_def b using h by (simp add: ch_binary_release_insert_def Let_def)
qed

lemma demo_abandoned_reach: "reach insert_init insert_step demo_abandoned"
proof -
  let ?i = "\<lparr>bconn = demo_binary [(Received (CHC_PKT_DATA (Some (demo_block 1))), False)], handles = []\<rparr> :: (nat, nat) insert_state"
  have i: "insert_init ?i" by (simp add: insert_init_def demo_binary_def)
  obtain st where b: "demo_begin = Some (st, Inr 0)" and l: "length (handles st) = 1" by (rule demo_begin_handle)
  then have r: "ch_binary_release_insert 0 st = demo_abandoned" unfolding demo_abandoned_def b by simp
  from reach.reach_init [where init = insert_init and stp = insert_step, OF i]
  have "reach insert_init insert_step st"
    by (rule reach.reach_step) (rule insert_step.begin_step [OF b [unfolded demo_begin_def]])
  then show ?thesis unfolding r [symmetric] by (rule reach.reach_step) (use l in \<open>simp add: insert_step.release_step\<close>)
qed

theorem abandoned_insert_breaks_connection_witness:
  "reach insert_init insert_step demo_abandoned \<and> ch_binary_is_broken (Some (bconn demo_abandoned))"
  using abandoned_insert_breaks_connection [OF demo_abandoned_reach] demo_abandoned_reach demo_abandoned_handle
  by fastforce

lemma detach_handle:
  assumes "i < length hs"
  shows "attached (fold (\<lambda>i hs. hs[i := (hs ! i)\<lparr>attached := False\<rparr>]) js hs ! i) = (attached (hs ! i) \<and> i \<notin> set js)
    \<and> finalized (fold (\<lambda>i hs. hs[i := (hs ! i)\<lparr>attached := False\<rparr>]) js hs ! i) = finalized (hs ! i)"
  using assms
proof (induction js arbitrary: hs)
  case (Cons j js)
  then show ?case by (cases "j = i") auto
qed simp

text \<open>
  Closing a connection under an INSERT. Once the connection has detached its INSERTs, no handle
  refers to it any more: flushing a block or finalizing an INSERT that was not finalized raises
  the connection-closed error, finalizing again an INSERT that was finalized succeeds, releasing
  does nothing, and none of them sends a message or changes the state.
\<close>

theorem closed_connection_rejects_inserts:
  assumes "reach insert_init insert_step st" and "i < length (handles st)"
  shows "ch_binary_flush_block e i (ch_binary_detach_inserts st) = (ch_binary_detach_inserts st, Inl closed_error)
    \<and> ch_binary_finalize_insert e i (ch_binary_detach_inserts st)
        = Some (ch_binary_detach_inserts st, if finalized (handles st ! i) then Inr () else Inl closed_error)
    \<and> ch_binary_release_insert i (ch_binary_detach_inserts st) = ch_binary_detach_inserts st
    \<and> inserts (bconn (ch_binary_detach_inserts st)) = []"
proof -
  define st' where "st' = ch_binary_detach_inserts st"
  have "attached (handles st ! i) \<longrightarrow> i \<in> set (inserts (bconn st))"
    using ins.reach_inv [OF assms(1)] assms(2) by (simp add: insert_inv_def)
  then have "\<not> attached (handles st' ! i)" and "finalized (handles st' ! i) = finalized (handles st ! i)"
    using assms(2) by (auto simp: st'_def ch_binary_detach_inserts_def detach_handle)
  moreover have "inserts (bconn st') = []" by (simp add: st'_def ch_binary_detach_inserts_def)
  ultimately show ?thesis unfolding st'_def [symmetric]
    by (simp add: ch_binary_flush_block_def ch_binary_finalize_insert_def ch_binary_release_insert_def Let_def)
qed

theorem closed_connection_rejects_inserts_witness:
  "ch_binary_flush_block None 0 (ch_binary_detach_inserts demo_abandoned)
     = (ch_binary_detach_inserts demo_abandoned, Inl closed_error)"
  using closed_connection_rejects_inserts [OF demo_abandoned_reach, of 0 None] demo_abandoned_handle by auto

end
