(* ===== verification/Nodes.thy ===== *)
theory Nodes
  imports Prelude
begin

text \<open>
  The expression trees that \<open>src/deparse.c\<close> walks, and what they mean to PostgreSQL.

  The node types are those of the boolean and comparison part of a condition: columns,
  constants, parameters, operators, \<open>ANY\<close>/\<open>ALL\<close> over an array, \<open>AND\<close>/\<open>OR\<close>/\<open>NOT\<close>,
  \<open>IS NULL\<close>, array constructors, \<open>CASE\<close>, casts without a function, and subqueries.
  PostgreSQL's evaluation is SQL's three-valued one; the functions behind operators are a
  parameter.
\<close>

section \<open>Values\<close>

datatype val = VBool bool | VInt int | VStr string | VArr "val option list"

type_synonym sqlval = "val option"

text \<open>The truth value of a condition, unknown for NULL.\<close>

definition tv :: "sqlval \<Rightarrow> bool option" where
  "tv x = (case x of Some (VBool b) \<Rightarrow> Some b | _ \<Rightarrow> None)"

definition sql_bool :: "bool option \<Rightarrow> sqlval" where
  "sql_bool b = map_option VBool b"

lemma tv_sql_bool [simp]: "tv (sql_bool b) = b"
  by (cases b) (simp_all add: tv_def sql_bool_def)

lemma tv_simps [simp]: "tv None = None" "tv (Some (VBool b)) = Some b"
  by (simp_all add: tv_def)

definition and3 :: "bool option list \<Rightarrow> bool option" where
  "and3 bs = (if Some False \<in> set bs then Some False else if None \<in> set bs then None else Some True)"

definition or3 :: "bool option list \<Rightarrow> bool option" where
  "or3 bs = (if Some True \<in> set bs then Some True else if None \<in> set bs then None else Some False)"

definition not3 :: "bool option \<Rightarrow> bool option" where
  "not3 b = map_option Not b"

lemma and3_True: "and3 bs = Some True \<longleftrightarrow> (\<forall>b \<in> set bs. b = Some True)"
proof -
  have "(\<forall>b \<in> set bs. b = Some True) \<longleftrightarrow> Some False \<notin> set bs \<and> None \<notin> set bs"
    by (metis (full_types) not_None_eq option.sel)
  then show ?thesis by (auto simp: and3_def)
qed

lemma and3_or3_Nil [simp]: "and3 [] = Some True" "or3 [] = Some False"
  by (simp_all add: and3_def or3_def)

lemma or3_True: "or3 bs = Some True \<longleftrightarrow> Some True \<in> set bs"
  by (simp add: or3_def)

lemma and3_map_True: "and3 (map f xs) = Some True \<longleftrightarrow> (\<forall>x \<in> set xs. f x = Some True)"
  by (simp add: and3_True)

lemma or3_map_True: "or3 (map f xs) = Some True \<longleftrightarrow> (\<exists>x \<in> set xs. f x = Some True)"
  by (auto simp: or3_True image_iff dest: sym)

lemma not3_simps [simp]: "not3 None = None" "not3 (Some b) = Some (\<not> b)"
  by (simp_all add: not3_def)

lemma not3_True: "not3 b = Some True \<longleftrightarrow> b = Some False"
  by (cases b) (simp_all add: not3_def)

text \<open>SQL equality: unknown as soon as one side is NULL.\<close>

definition eq3 :: "sqlval \<Rightarrow> sqlval \<Rightarrow> bool option" where
  "eq3 x y = (case (x, y) of (Some a, Some b) \<Rightarrow> Some (a = b) | _ \<Rightarrow> None)"

section \<open>Nodes\<close>

record var =
  varno :: nat
  varattno :: int
  varlevelsup :: nat
  vartype :: Oid
  varnulled :: bool

text \<open>
  The value of a \<open>Const\<close>. An array carries a null bitmap (\<open>CArrayNulls\<close>) or none
  (\<open>CArray\<close>); an array without elements has no dimension.
\<close>

datatype constval = CNull | CScalar val | CArray "val list" | CArrayNulls "val option list"

datatype BoolExprType = AND_EXPR | OR_EXPR | NOT_EXPR

datatype SubLinkType =
    EXISTS_SUBLINK | ALL_SUBLINK | ANY_SUBLINK | ROWCOMPARE_SUBLINK | EXPR_SUBLINK
  | MULTIEXPR_SUBLINK | ARRAY_SUBLINK | CTE_SUBLINK

text \<open>
  What the walker asks about an entry of a subquery's FROM list: that it is a plain
  \<open>RangeTblRef\<close> to a foreign table without security quals, its index and its server.
\<close>

record from_item =
  is_rangetblref :: bool
  rtindex :: nat
  is_plain_foreign_table :: bool
  from_serverid :: Oid

text \<open>The parts of a subquery that are not expressions, as present or absent.\<close>

record subquery =
  setOperations :: bool
  cteList :: bool
  windowClause :: bool
  distinctClause :: bool
  sortClause :: bool
  limitOffset :: bool
  limitCount :: bool
  groupingSets :: bool
  hasTargetSRFs :: bool
  init_plans :: bool
  groupClause :: bool
  hasAggs :: bool
  fromlist :: "from_item list"

text \<open>
  A subquery's test expression: its operator and whether it compares two arguments of which
  the second is a \<open>Param\<close>. \<open>parParam\<close> lists the parameters that stand for the correlation
  arguments. The numbers of executor parameters and of external ones are different.
\<close>

record subplan =
  subLinkType :: SubLinkType
  plan_id :: nat
  test_opno :: Oid
  test_shape_ok :: bool
  parParam :: "nat list"
  parse :: subquery

text \<open>
  \<open>SubPlan sp lhs args targets junk quals having\<close>: the left side of the test, the
  correlation arguments, the output columns, the junk columns, WHERE and HAVING as lists
  of conditions.
\<close>

datatype expr =
    Var var
  | Const constval
  | Param (paramid: nat) (paramtype: Oid) (multiexpr: bool)
  | OpExpr (opno: Oid) (opargs: "expr list")
  | ScalarArrayOpExpr (saop_opno: Oid) (useOr: bool) expr expr
  | RelabelType expr
  | BoolExpr BoolExprType "expr list"
  | NullTest (is_null: bool) expr
  | ArrayExpr (multidims: bool) "expr list"
  | CaseExpr (int_result: bool) "expr option" "case_when list" "expr option"
  | CaseTestExpr
  | SubPlan subplan expr "expr list" "expr list" "expr list" "expr list" "expr list"
and case_when = CaseWhen expr expr

definition grouped :: "subplan \<Rightarrow> expr list \<Rightarrow> bool" where
  "grouped sp having \<longleftrightarrow> groupClause (parse sp) \<or> hasAggs (parse sp) \<or> having \<noteq> []"

section \<open>The remote expression\<close>

text \<open>
  What the deparser writes. \<open>ChIn\<close> and \<open>ChNotIn\<close> have an array constant written as a tuple;
  \<open>ChIsOne x\<close> is \<open>x = 1\<close>; \<open>ChConv x\<close> is the conversion to the integer type of a \<open>CASE\<close>;
  \<open>ChSelect id targets quals null_probe having grouped\<close> is the body of a subquery, with the
  condition that the null probe adds. \<open>ChOuter x\<close> is the text \<open>(x)\<close> inside of a subquery with the
  names of the query around it.
\<close>

datatype ch =
    ChVar var | ChConst constval | ChParam nat | ChOp Oid "ch list" | ChParen ch
  | ChNull | ChBool bool | ChNum int | ChArray "ch list" | ChConv ch
  | ChIn ch ch | ChNotIn ch ch
  | ChHas ch ch | ChCountEqual ch ch | ChLength ch | ChNotEmpty ch
  | ChMinus ch ch | ChGt ch ch | ChLt ch ch | ChEqual ch ch | ChIsOne ch
  | ChIsNull ch | ChIsNotNull ch | ChAnd "ch list" | ChOr "ch list" | ChNot ch
  | ChCase "ch option" "ch_when list" "ch option"
  | ChExists ch_query | ChScalar ch_query | ChInQuery ch ch_query | ChNotInQuery ch ch_query
  | ChOuter ch
and ch_when = ChWhen ch ch
and ch_query = ChSelect nat "ch list" "ch list" "ch option" "ch list" bool

section \<open>Evaluation by PostgreSQL\<close>

text \<open>
  An environment: the columns of the current row, the parameters, the value that
  \<open>CaseTestExpr\<close> stands for, and for each subquery the rows of its FROM list, each with
  the environment in which its expressions are evaluated.
\<close>

datatype env = Env (var_val: "var \<Rightarrow> sqlval") (param_val: "nat \<Rightarrow> sqlval") (case_test: sqlval)
  (sub_rows: "nat \<Rightarrow> env list")

definition with_test :: "sqlval \<Rightarrow> env \<Rightarrow> env" where
  "with_test t e = Env (var_val e) (param_val e) t (sub_rows e)"

fun const_value :: "constval \<Rightarrow> sqlval" where
  "const_value CNull = None"
| "const_value (CScalar v) = Some v"
| "const_value (CArray vs) = Some (VArr (map Some vs))"
| "const_value (CArrayNulls vs) = Some (VArr vs)"

text \<open>
  \<open>ExecEvalScalarArrayOp\<close>: the comparisons of the scalar with every element, combined by OR
  for \<open>ANY\<close> and by AND for \<open>ALL\<close>; NULL for a NULL array.
\<close>

definition saop_value :: "bool \<Rightarrow> (sqlval \<Rightarrow> sqlval) \<Rightarrow> sqlval \<Rightarrow> bool option" where
  "saop_value any cmp arr = (case arr of
       Some (VArr xs) \<Rightarrow> (if any then or3 else and3) (map (\<lambda>e. tv (cmp e)) xs)
     | _ \<Rightarrow> None)"

definition case_value :: "(bool option \<times> sqlval) list \<Rightarrow> sqlval \<Rightarrow> sqlval" where
  "case_value ws d = (case find (\<lambda>(c, r). c = Some True) ws of Some (c, r) \<Rightarrow> r | None \<Rightarrow> d)"

text \<open>
  The operators' functions and the grouping of a subquery's rows (one environment for each
  group) are parameters.
\<close>

record sql_params =
  opfun :: "Oid \<Rightarrow> sqlval list \<Rightarrow> sqlval"
  group_rows :: "nat \<Rightarrow> env list \<Rightarrow> env list"

fun pg_eval :: "sql_params \<Rightarrow> env \<Rightarrow> expr \<Rightarrow> sqlval"
and pg_when :: "sql_params \<Rightarrow> env \<Rightarrow> env \<Rightarrow> case_when \<Rightarrow> bool option \<times> sqlval" where
  "pg_eval F e (Var v) = var_val e v"
| "pg_eval F e (Const c) = const_value c"
| "pg_eval F e (Param i t m) = param_val e i"
| "pg_eval F e (OpExpr op args) = opfun F op (map (pg_eval F e) args)"
| "pg_eval F e (ScalarArrayOpExpr op any x arr) =
     sql_bool (saop_value any (\<lambda>y. opfun F op [pg_eval F e x, y]) (pg_eval F e arr))"
| "pg_eval F e (RelabelType x) = pg_eval F e x"
| "pg_eval F e (BoolExpr b args) =
     (let vs = map (\<lambda>x. tv (pg_eval F e x)) args
      in sql_bool (case b of AND_EXPR \<Rightarrow> and3 vs | OR_EXPR \<Rightarrow> or3 vs
                   | NOT_EXPR \<Rightarrow> (case vs of v # _ \<Rightarrow> not3 v | [] \<Rightarrow> None)))"
| "pg_eval F e (NullTest isnull x) = Some (VBool ((pg_eval F e x = None) = isnull))"
| "pg_eval F e (ArrayExpr m xs) = Some (VArr (map (pg_eval F e) xs))"
| "pg_eval F e (CaseExpr i arg ws d) =
     (let test = (case arg of None \<Rightarrow> case_test e | Some x \<Rightarrow> pg_eval F e x)
      in case_value (map (pg_when F (with_test test e) e) ws)
           (case d of None \<Rightarrow> None | Some x \<Rightarrow> pg_eval F e x))"
| "pg_eval F e CaseTestExpr = case_test e"
| "pg_eval F e (SubPlan sp lhs args targets junk quals having) =
     (let rows = filter (\<lambda>r. list_all (\<lambda>q. tv (pg_eval F r q) = Some True) quals) (sub_rows e (plan_id sp));
          rows = (if grouped sp having
                  then filter (\<lambda>r. list_all (\<lambda>q. tv (pg_eval F r q) = Some True) having)
                         (group_rows F (plan_id sp) rows)
                  else rows);
          out = (\<lambda>r. case targets of [] \<Rightarrow> None | t # _ \<Rightarrow> pg_eval F r t)
      in case subLinkType sp of
           EXISTS_SUBLINK \<Rightarrow> Some (VBool (rows \<noteq> []))
         | ANY_SUBLINK \<Rightarrow> sql_bool (or3 (map (\<lambda>r. tv (opfun F (test_opno sp) [pg_eval F e lhs, out r])) rows))
         | EXPR_SUBLINK \<Rightarrow> (case rows of [] \<Rightarrow> None | r # _ \<Rightarrow> out r)
         | _ \<Rightarrow> None)"
| "pg_when F et e (CaseWhen c r) = (tv (pg_eval F et c), pg_eval F e r)"

end
