(* ===== verification/CustomObjects.thy ===== *)
theory CustomObjects
  imports Literals
begin

text \<open>
  Functions, types and operators that ClickHouse knows under other names or in other forms
  (\<open>src/custom_types.c\<close>): the tables of built-in functions and operators, the functions of the
  extensions that are known, and the session's cache of these definitions with its invalidation.

  The system catalogs are a parameter, the OIDs behind the names of \<open>fmgroids.h\<close> among them; a
  lookup in them may raise an error. The state is the cache and its flags. What the cached
  lookups are to compute is stated without a cache, and the invariant of the cache relates both.
\<close>

section \<open>Definitions of custom objects\<close>

datatype custom_object_type =
    CF_USUAL | CF_SIGN_SUM | CF_SIGN_AVG | CF_SIGN_COUNT | CF_DATE_TRUNC | CF_DATE_PART |
    CF_DATETIME_PL_INTERVAL | CF_DATETIME_MI_INTERVAL | CF_TIMEZONE | CF_HSTORE_FETCHVAL | CF_INTARRAY_IDX |
    CF_CH_FUNCTION | CF_MATCH | CF_SPLIT_BY_REGEX | CF_REPLACE_REGEX | CF_REGEX_MATCH | CF_REGEX_PG_MATCH |
    CF_REGEX_NO_MATCH | CF_REGEX_ICASE_MATCH | CF_REGEX_ICASE_NO_MATCH | CF_JSON_FETCHVAL |
    CF_JSON_FETCHVAL_TEXT | CF_JSON_EXTRACT_PATH_TEXT | CF_JSON_EXTRACT_PATH | CF_STRING_AGG |
    CF_CURRENT_DATABASE | CF_CURRENT_SCHEMA | CF_CLOCK_TIMESTAMP | CF_TO_TIMESTAMP | CF_ARRAY_LENGTH |
    CF_ARRAY_POSITION | CF_ARRAY_PREPEND | CF_STRING_TO_ARRAY | CF_STRING_TO_ARRAY_PART | CF_TRIM_ARRAY |
    CF_ARRAY_SORT_DESC | CF_ARRAY_FILL | CF_ARRAY_CONTAINED_BY | CF_TO_CHAR | CF_PARAM_LIST_AGG | CF_ENCODE |
    CF_DIGEST | CF_REGR_AGG | CF_PGVECTOR | CF_VECTOR_NEG_IP | CF_VECTOR_DOT | CF_OPERATOR_FUNC

record CustomObjectDef =
  cf_oid :: Oid
  cf_type :: custom_object_type
  custom_name :: string
  paren_count :: nat

text \<open>The name that stands for a name which the deparser writes itself.\<close>

abbreviation MANY_NAMES :: string where "MANY_NAMES \<equiv> [CHR 0x01]"

abbreviation NAMEDATALEN :: nat where "NAMEDATALEN \<equiv> 64"

text \<open>\<open>strlcpy\<close> into the field of the name.\<close>

definition name_field :: "string \<Rightarrow> string" where
  "name_field n = take (NAMEDATALEN - 1) n"

definition init_custom_entry :: "Oid \<Rightarrow> CustomObjectDef" where
  "init_custom_entry oid = \<lparr>cf_oid = oid, cf_type = CF_USUAL, custom_name = '''', paren_count = 1\<rparr>"

definition FirstUnpinnedObjectId :: Oid where "FirstUnpinnedObjectId = 12000"

definition chfdw_is_builtin :: "Oid \<Rightarrow> bool" where
  "chfdw_is_builtin oid \<longleftrightarrow> oid < FirstUnpinnedObjectId"

datatype ObjectClass = ProcedureRelationId | TypeRelationId | OperatorRelationId

record pg_proc =
  proname :: string
  proargtypes :: "Oid list"
  prorettype :: Oid

record pg_operator =
  op_name :: string
  oprleft :: Oid
  oprright :: Oid

text \<open>
  The catalogs: the name of the extension that an object belongs to, the rows of functions and
  operators, the function behind an operator, the element type of an array type, the type of
  vectors as the client library recognizes it, and the OIDs of \<open>fmgroids.h\<close>.
\<close>

record syscache =
  extension_of :: "ObjectClass \<Rightarrow> Oid \<Rightarrow> string option pg"
  proc_row :: "Oid \<Rightarrow> pg_proc option"
  oper_row :: "Oid \<Rightarrow> pg_operator option"
  get_opcode :: "Oid \<Rightarrow> Oid"
  get_element_type :: "Oid \<Rightarrow> Oid"
  pgch_is_pgvector_type :: "Oid \<Rightarrow> bool"
  fmgroids :: "string \<Rightarrow> Oid"

section \<open>Built-in functions and operators\<close>

type_synonym builtin_func_def = "custom_object_type \<times> string option \<times> nat"

text \<open>
  The labels of \<open>lookup_builtin_func\<close>, by the names of \<open>fmgroids.h\<close> in lower case. A row has the
  type, the name in ClickHouse where it differs, and the number of parentheses to close.
\<close>

definition builtin_funcs_scalar :: "(string list \<times> builtin_func_def) list" where
  "builtin_funcs_scalar = [
     ([''date_trunc_text_timestamptz'', ''date_trunc_text_timestamp''],
        CF_DATE_TRUNC, Some MANY_NAMES, 1),
     ([''date_part_text_timestamptz'', ''date_part_text_timestamp'', ''date_part_text_date'',
      ''extract_text_timestamp'', ''extract_text_timestamptz'', ''extract_text_date''],
        CF_DATE_PART, Some MANY_NAMES, 1),
     ([''timezone_text_timestamp'', ''timezone_text_timestamptz''],
        CF_TIMEZONE, Some ''toDateTime64'', 1),
     ([''array_position_anycompatiblearray_anycompatible'',
      ''array_position_anycompatiblearray_anycompatible_int4''],
        CF_ARRAY_POSITION, Some MANY_NAMES, 1),
     ([''btrim_text_text'', ''btrim_text''],
        CF_USUAL, Some ''trimBoth'', 1),
     ([''strpos''],
        CF_USUAL, Some ''positionUTF8'', 1),
     ([''lower_text''],
        CF_USUAL, Some ''lowerUTF8'', 1),
     ([''upper_text''],
        CF_USUAL, Some ''upperUTF8'', 1),
     ([''substr_text_int4_int4'', ''substr_text_int4'', ''substring_text_int4_int4'', ''substring_text_int4''],
        CF_USUAL, Some ''substringUTF8'', 1),
     ([''substr_bytea_int4_int4'', ''substr_bytea_int4'', ''substring_bytea_int4_int4'',
      ''substring_bytea_int4''],
        CF_USUAL, Some ''substring'', 1),
     ([''regexp_like_text_text'', ''regexp_like_text_text_text''],
        CF_MATCH, Some ''match'', 1),
     ([''regexp_match_text_text'', ''regexp_match_text_text_text''],
        CF_REGEX_PG_MATCH, Some MANY_NAMES, 1),
     ([''regexp_split_to_array_text_text'', ''regexp_split_to_array_text_text_text''],
        CF_SPLIT_BY_REGEX, Some ''splitByRegexp'', 1),
     ([''regexp_replace_text_text_text'', ''regexp_replace_text_text_text_text''],
        CF_REPLACE_REGEX, Some MANY_NAMES, 1),
     ([''percentile_cont_float8_float8'', ''percentile_cont_float8_interval''],
        CF_USUAL, Some ''quantile'', 1),
     ([''percentile_cont__float8_float8'', ''percentile_cont__float8_interval''],
        CF_PARAM_LIST_AGG, Some ''quantiles'', 1),
     ([''percentile_disc_float8_anyelement''],
        CF_USUAL, Some ''quantileExactLow'', 1),
     ([''percentile_disc__float8_anyelement''],
        CF_PARAM_LIST_AGG, Some ''quantilesExactLow'', 1),
     ([''array_agg_anynonarray''],
        CF_USUAL, Some ''groupArray'', 1),
     ([''md5_bytea'', ''md5_text''],
        CF_USUAL, Some ''lower(hex(MD5'', 3),
     ([''sha224''],
        CF_USUAL, Some ''SHA224'', 1),
     ([''sha256''],
        CF_USUAL, Some ''SHA256'', 1),
     ([''sha384''],
        CF_USUAL, Some ''SHA384'', 1),
     ([''sha512''],
        CF_USUAL, Some ''SHA512'', 1),
     ([''encode''],
        CF_ENCODE, Some MANY_NAMES, 1),
     ([''reverse_text''],
        CF_USUAL, Some ''reverseUTF8'', 1),
     ([''length_text''],
        CF_USUAL, Some ''lengthUTF8'', 1),
     ([''octet_length_text'', ''octet_length_bpchar'', ''octet_length_bytea''],
        CF_USUAL, Some ''length'', 1),
     ([''bit_and_int2'', ''bit_and_int4'', ''bit_and_int8''],
        CF_USUAL, Some ''groupBitAnd'', 1),
     ([''bit_or_int2'', ''bit_or_int4'', ''bit_or_int8''],
        CF_USUAL, Some ''groupBitOr'', 1),
     ([''bit_xor_int2'', ''bit_xor_int4'', ''bit_xor_int8''],
        CF_USUAL, Some ''groupBitXor'', 1)]"

definition builtin_funcs_more :: "(string list \<times> builtin_func_def) list" where
  "builtin_funcs_more = [
     ([''bit_count_bytea''],
        CF_USUAL, Some ''bitCount'', 1),
     ([''mod_int2_int2'', ''mod_int4_int4'', ''mod_int8_int8'', ''mod_numeric_numeric''],
        CF_USUAL, Some ''modulo'', 1),
     ([''pow_float8_float8'', ''power_float8_float8''],
        CF_USUAL, Some ''pow'', 1),
     ([''to_timestamp_float8''],
        CF_TO_TIMESTAMP, Some MANY_NAMES, 1),
     ([''to_char_timestamp_text'', ''to_char_timestamptz_text''],
        CF_TO_CHAR, Some ''formatDateTime'', 1),
     ([''jsonb_extract_path_text'', ''json_extract_path_text''],
        CF_JSON_EXTRACT_PATH_TEXT, Some MANY_NAMES, 1),
     ([''jsonb_extract_path'', ''json_extract_path''],
        CF_JSON_EXTRACT_PATH, Some MANY_NAMES, 1),
     ([''now''],
        CF_USUAL, Some ''now64'', 1),
     ([''statement_timestamp'', ''transaction_timestamp'', ''clock_timestamp''],
        CF_CLOCK_TIMESTAMP, Some MANY_NAMES, 1),
     ([''current_schema''],
        CF_CURRENT_SCHEMA, Some MANY_NAMES, 1),
     ([''current_database''],
        CF_CURRENT_DATABASE, Some MANY_NAMES, 1),
     ([''array_cat''],
        CF_USUAL, Some ''arrayConcat'', 1),
     ([''array_append''],
        CF_USUAL, Some ''arrayPushBack'', 1),
     ([''array_remove''],
        CF_USUAL, Some ''arrayRemove'', 1),
     ([''array_to_string_anyarray_text''],
        CF_USUAL, Some ''arrayStringConcat'', 1),
     ([''array_length''],
        CF_ARRAY_LENGTH, Some MANY_NAMES, 1),
     ([''cardinality''],
        CF_USUAL, Some ''length'', 1),
     ([''array_reverse''],
        CF_USUAL, Some ''arrayReverse'', 1),
     ([''array_sort_anyarray''],
        CF_USUAL, Some ''arraySort'', 1),
     ([''array_shuffle''],
        CF_USUAL, Some ''arrayShuffle'', 1),
     ([''array_sample''],
        CF_USUAL, Some ''arrayRandomSample'', 1),
     ([''array_prepend''],
        CF_ARRAY_PREPEND, Some ''arrayPushFront'', 1),
     ([''string_to_array_text_text''],
        CF_STRING_TO_ARRAY, Some ''splitByString'', 1),
     ([''split_part''],
        CF_STRING_TO_ARRAY_PART, Some ''splitByString'', 1),
     ([''trim_array''],
        CF_TRIM_ARRAY, Some ''arrayResize'', 1),
     ([''array_fill_anyelement__int4''],
        CF_ARRAY_FILL, Some ''arrayWithConstant'', 1),
     ([''array_sort_anyarray_bool''],
        CF_ARRAY_SORT_DESC, Some MANY_NAMES, 1),
     ([''stddev_int2'', ''stddev_int4'', ''stddev_int8'', ''stddev_float4'', ''stddev_float8'',
      ''stddev_numeric''],
        CF_USUAL, Some ''stddev_samp'', 1),
     ([''variance_int2'', ''variance_int4'', ''variance_int8'', ''variance_float4'', ''variance_float8'',
      ''variance_numeric''],
        CF_USUAL, Some ''var_samp'', 1),
     ([''any_value''],
        CF_USUAL, Some ''any'', 1)]"

definition builtin_funcs_same :: "(string list \<times> builtin_func_def) list" where
  "builtin_funcs_same = [
     ([''regr_avgx'', ''regr_avgy'', ''regr_count'', ''regr_intercept'', ''regr_r2'', ''regr_slope'',
      ''regr_sxx'', ''regr_sxy'', ''regr_syy''],
        CF_REGR_AGG, None, 1),
     ([''array_agg_anyarray'', ''avg_int8'', ''avg_int4'', ''avg_int2'', ''avg_numeric'', ''avg_float4'',
      ''avg_float8'', ''avg_interval'', ''sum_int8'', ''sum_int4'', ''sum_int2'', ''sum_float4'',
      ''sum_float8'', ''sum_interval'', ''sum_numeric'', ''count_any'', ''count_'', ''min_int8'',
      ''min_int4'', ''min_int2'', ''min_float4'', ''min_float8'', ''min_date'', ''min_timestamp'',
      ''min_timestamptz'', ''min_interval'', ''min_text'', ''min_numeric'', ''min_bpchar'', ''max_int8'',
      ''max_int4'', ''max_int2'', ''max_float4'', ''max_float8'', ''max_date'', ''max_timestamp'',
      ''max_timestamptz'', ''max_interval'', ''max_text'', ''max_numeric'', ''max_bpchar'', ''bool_and'',
      ''bool_or'', ''every'', ''string_agg_text_text'', ''corr'', ''covar_pop'', ''covar_samp'',
      ''stddev_samp_int2'', ''stddev_samp_int4'', ''stddev_samp_int8'', ''stddev_samp_float4'',
      ''stddev_samp_float8'', ''stddev_samp_numeric'', ''stddev_pop_int2'', ''stddev_pop_int4'',
      ''stddev_pop_int8'', ''stddev_pop_float4'', ''stddev_pop_float8'', ''stddev_pop_numeric'',
      ''var_pop_int2'', ''var_pop_int4'', ''var_pop_int8'', ''var_pop_float4'', ''var_pop_float8'',
      ''var_pop_numeric'', ''var_samp_int2'', ''var_samp_int4'', ''var_samp_int8'', ''var_samp_float4'',
      ''var_samp_float8'', ''var_samp_numeric'', ''row_number'', ''rank_'', ''dense_rank_'',
      ''percent_rank_'', ''cume_dist_'', ''ntile'', ''sin'', ''cos'', ''tan'', ''atan'', ''atan2'',
      ''sinh'', ''cosh'', ''tanh'', ''asinh'', ''degrees'', ''radians'', ''pi'', ''reverse_bytea'',
      ''abs_int2'', ''abs_int4'', ''abs_int8'', ''abs_float4'', ''abs_float8'', ''abs_numeric'',
      ''round_float8'', ''round_numeric'', ''round_numeric_int4'', ''factorial'', ''ltrim_text'',
      ''ltrim_text_text'', ''rtrim_text'', ''rtrim_text_text'', ''concat_ws'', ''length_bytea'',
      ''date_timestamp'', ''date_timestamptz'', ''lead_anyelement'', ''lead_anyelement_int4'',
      ''lead_anycompatible_int4_anycompatible'', ''lag_anyelement'', ''lag_anyelement_int4'',
      ''lag_anycompatible_int4_anycompatible''],
        CF_USUAL, None, 1)]"

definition lookup_builtin_func :: "syscache \<Rightarrow> Oid \<Rightarrow> builtin_func_def option" where
  "lookup_builtin_func S funcid =
     map_option snd (find (\<lambda>(labels, _). funcid \<in> fmgroids S ` set labels)
       (builtin_funcs_scalar @ builtin_funcs_more @ builtin_funcs_same))"

definition builtin_operators :: "(string list \<times> custom_object_type \<times> string option) list" where
  "builtin_operators = [
     ([''textregexeq''], CF_REGEX_MATCH, None),
     ([''textregexne''], CF_REGEX_NO_MATCH, None),
     ([''texticregexeq''], CF_REGEX_ICASE_MATCH, None),
     ([''texticregexne''], CF_REGEX_ICASE_NO_MATCH, None),
     ([''jsonb_object_field'', ''json_object_field''], CF_JSON_FETCHVAL, None),
     ([''jsonb_object_field_text'', ''json_object_field_text''], CF_JSON_FETCHVAL_TEXT, None),
     ([''arraycontains''], CF_OPERATOR_FUNC, Some ''hasAll''),
     ([''arraycontained''], CF_ARRAY_CONTAINED_BY, None),
     ([''arrayoverlap''], CF_OPERATOR_FUNC, Some ''hasAny''),
     ([''date_pl_interval'', ''timestamptz_pl_interval'', ''timestamp_pl_interval''], CF_DATETIME_PL_INTERVAL, None),
     ([''date_mi_interval'', ''timestamptz_mi_interval'', ''timestamp_mi_interval''], CF_DATETIME_MI_INTERVAL, None),
     ([''dpow''], CF_OPERATOR_FUNC, Some ''pow''),
     ([''dsqrt''], CF_OPERATOR_FUNC, Some ''sqrt''),
     ([''dcbrt''], CF_OPERATOR_FUNC, Some ''cbrt''),
     ([''int2abs'', ''int4abs'', ''int8abs'', ''float4abs'', ''float8abs'', ''numeric_abs''], CF_OPERATOR_FUNC, Some ''abs''),
     ([''int2div'', ''int4div'', ''int8div'', ''int24div'', ''int42div'', ''int28div'', ''int82div'',
      ''int48div'', ''int84div''], CF_OPERATOR_FUNC, Some ''intDiv''),
     ([''int2and'', ''int4and'', ''int8and''], CF_OPERATOR_FUNC, Some ''bitAnd''),
     ([''int2or'', ''int4or'', ''int8or''], CF_OPERATOR_FUNC, Some ''bitOr''),
     ([''int2xor'', ''int4xor'', ''int8xor''], CF_OPERATOR_FUNC, Some ''bitXor''),
     ([''int2not'', ''int4not'', ''int8not''], CF_OPERATOR_FUNC, Some ''bitNot''),
     ([''int2shl'', ''int4shl'', ''int8shl''], CF_OPERATOR_FUNC, Some ''bitShiftLeft''),
     ([''int2shr'', ''int4shr'', ''int8shr''], CF_OPERATOR_FUNC, Some ''bitShiftRight'')]"

definition classify_builtin_operator :: "syscache \<Rightarrow> Oid \<Rightarrow> custom_object_type \<times> string option" where
  "classify_builtin_operator S opoid =
     (case find (\<lambda>(labels, _). get_opcode S opoid \<in> fmgroids S ` set labels) builtin_operators of
        Some (_, d) \<Rightarrow> d
      | None \<Rightarrow> (CF_USUAL, None))"

section \<open>Functions and operators of extensions\<close>

definition re2_func_map :: "(string \<times> string) list" where
  "re2_func_map =
     [(''countmatches'', ''countMatches''), (''countmatchescaseinsensitive'', ''countMatchesCaseInsensitive''),
      (''extractall'', ''extractAll''), (''extractallgroupshorizontal'', ''extractAllGroupsHorizontal''),
      (''extractallgroupsvertical'', ''extractAllGroupsVertical''), (''extractgroups'', ''extractGroups''),
      (''multimatchallindices'', ''multiMatchAllIndices''), (''multimatchany'', ''multiMatchAny''),
      (''multimatchanyindex'', ''multiMatchAnyIndex''), (''regexpextract'', ''regexpExtract''),
      (''regexpquotemeta'', ''regexpQuoteMeta''), (''replaceregexpall'', ''replaceRegexpAll''),
      (''replaceregexpone'', ''replaceRegexpOne''), (''splitbyregexp'', ''splitByRegexp'')]"

definition re2_func_name :: "string \<Rightarrow> string" where
  "re2_func_name name = (case map_of re2_func_map (drop 3 name) of Some n \<Rightarrow> n | None \<Rightarrow> drop 3 name)"

definition ch_func_map :: "(string \<times> string) list" where
  "ch_func_map =
     [(''argmax'', ''argMax''), (''argmin'', ''argMin''), (''dictget'', ''dictGet''), (''quantile'', ''quantile''),
      (''quantileexact'', ''quantileExact''), (''touint128'', ''toUInt128''), (''touint16'', ''toUInt16''),
      (''touint32'', ''toUInt32''), (''touint64'', ''toUInt64''), (''touint8'', ''toUInt8''), (''uniq'', ''uniq''),
      (''uniqcombined'', ''uniqCombined''), (''uniqcombined64'', ''uniqCombined64''), (''uniqexact'', ''uniqExact''),
      (''uniqhll12'', ''uniqHLL12''), (''uniqtheta'', ''uniqTheta'')]"

definition ch_func_name :: "string \<Rightarrow> string option" where
  "ch_func_name name = map_of ch_func_map name"

definition digest_func_map :: "(string \<times> string) list" where
  "digest_func_map =
     [(''md5'', ''MD5''), (''sha1'', ''SHA1''), (''sha224'', ''SHA224''), (''sha256'', ''SHA256''),
      (''sha384'', ''SHA384''), (''sha512'', ''SHA512'')]"

definition chfdw_digest_func_name :: "string \<Rightarrow> string option" where
  "chfdw_digest_func_name algorithm = map_option snd (find (\<lambda>(a, _). strcaseeq algorithm a) digest_func_map)"

text \<open>The type and the name of a vector function by its name and the number of its arguments.\<close>

definition pgvector_name :: "pg_proc \<Rightarrow> (custom_object_type \<times> string) option" where
  "pgvector_name p =
     (if length (proargtypes p) = 2 then
        (if proname p = ''l2_distance'' then Some (CF_CH_FUNCTION, ''L2Distance'')
         else if proname p = ''cosine_distance'' then Some (CF_CH_FUNCTION, ''cosineDistance'')
         else if proname p = ''l1_distance'' then Some (CF_CH_FUNCTION, ''L1Distance'')
         else if proname p = ''inner_product'' then Some (CF_VECTOR_DOT, ''dotProduct'')
         else None)
      else if length (proargtypes p) = 1 \<and> proname p = ''vector_dims'' then Some (CF_CH_FUNCTION, ''length'')
      else None)"

abbreviation TEXTOID :: Oid where "TEXTOID \<equiv> 25"
abbreviation BYTEAOID :: Oid where "BYTEAOID \<equiv> 17"

text \<open>
  The functions of the other extensions: the type and the name, where a function that is known
  under its own name keeps what the entry was initialised with.
\<close>

definition extension_function :: "string \<Rightarrow> pg_proc \<Rightarrow> (custom_object_type \<times> string) option" where
  "extension_function ext p =
     (if ext = ''intarray'' \<and> proname p = ''idx'' then Some (CF_INTARRAY_IDX, ''indexOf'')
      else if ext = ''re2'' then Some (CF_CH_FUNCTION, re2_func_name (proname p))
      else if ext = ''fuzzystrmatch'' then
        (if proname p = ''levenshtein'' \<and> length (proargtypes p) = 2 then Some (CF_USUAL, ''editDistanceUTF8'')
         else if proname p \<noteq> ''soundex'' then None
         else Some (CF_USUAL, ''''))
      else if ext = ''pgcrypto'' \<and> proname p = ''digest'' \<and> length (proargtypes p) = 2
              \<and> (proargtypes p ! 0 = TEXTOID \<or> proargtypes p ! 0 = BYTEAOID) \<and> proargtypes p ! 1 = TEXTOID
              \<and> prorettype p = BYTEAOID then Some (CF_DIGEST, MANY_NAMES)
      else if ext = ''pg_clickhouse'' then map_option (\<lambda>n. (CF_CH_FUNCTION, n)) (ch_func_name (proname p))
      else None)"

definition pgvector_operator_type :: "string \<Rightarrow> (custom_object_type \<times> string option) option" where
  "pgvector_operator_type name =
     (if name = ''='' \<or> name = ''<>'' then Some (CF_USUAL, None)
      else if name = ''<#>'' then Some (CF_VECTOR_NEG_IP, None)
      else if name = ''<->'' then Some (CF_OPERATOR_FUNC, Some ''L2Distance'')
      else if name = ''<=>'' then Some (CF_OPERATOR_FUNC, Some ''cosineDistance'')
      else if name = ''<+>'' then Some (CF_OPERATOR_FUNC, Some ''L1Distance'')
      else None)"

section \<open>The cache\<close>

record custom_cache =
  objects :: "(Oid \<rightharpoonup> CustomObjectDef) option"
  custom_objects_stale :: bool

definition create_custom_objects_cache :: "custom_cache \<Rightarrow> custom_cache" where
  "create_custom_objects_cache st =
     (if objects st = None then st\<lparr>objects := Some Map.empty, custom_objects_stale := False\<rparr> else st)"

definition hash_find :: "custom_cache \<Rightarrow> Oid \<Rightarrow> CustomObjectDef option" where
  "hash_find st oid = Option.bind (objects st) (\<lambda>m. m oid)"

definition hash_enter :: "Oid \<Rightarrow> CustomObjectDef \<Rightarrow> custom_cache \<Rightarrow> custom_cache" where
  "hash_enter oid e st = st\<lparr>objects := map_option (\<lambda>m. m(oid \<mapsto> e)) (objects st)\<rparr>"

definition hash_remove :: "Oid \<Rightarrow> custom_cache \<Rightarrow> custom_cache" where
  "hash_remove oid st = st\<lparr>objects := map_option (\<lambda>m. m(oid := None)) (objects st)\<rparr>"

text \<open>The callbacks: a change of an object marks the cache, and the end of a transaction drops a marked one.\<close>

definition invalidate_custom_objects_cache :: "custom_cache \<Rightarrow> custom_cache" where
  "invalidate_custom_objects_cache st = st\<lparr>custom_objects_stale := True\<rparr>"

definition drop_stale_custom_objects :: "custom_cache \<Rightarrow> custom_cache" where
  "drop_stale_custom_objects st =
     (if custom_objects_stale st \<and> objects st \<noteq> None then st\<lparr>objects := None, custom_objects_stale := False\<rparr> else st)"

definition chfdw_check_for_custom_type ::
    "syscache \<Rightarrow> Oid \<Rightarrow> custom_cache \<Rightarrow> custom_cache \<times> CustomObjectDef option pg" where
  "chfdw_check_for_custom_type S t st =
     (let st = create_custom_objects_cache st
      in if chfdw_is_builtin t then (st, Inr None)
         else (case hash_find st t of
             Some e \<Rightarrow> (st, Inr (Some e))
           | None \<Rightarrow>
               (let elem = get_element_type S t
                in case extension_of S TypeRelationId (if OidIsValid elem then elem else t) of
                     Inl err \<Rightarrow> (st, Inl err)
                   | Inr ext \<Rightarrow>
                       (let vector = (ext \<noteq> None \<and> pgch_is_pgvector_type S t);
                            known = (ext = None \<or> ext = Some ''hstore'' \<or> vector);
                            e = (init_custom_entry t)\<lparr>cf_type := if vector then CF_PGVECTOR else CF_USUAL\<rparr>
                        in if known then (hash_enter t e st, Inr (Some e)) else (st, Inr None)))))"

definition chfdw_is_pgvector_type :: "syscache \<Rightarrow> Oid \<Rightarrow> custom_cache \<Rightarrow> custom_cache \<times> bool pg" where
  "chfdw_is_pgvector_type S t st =
     apsnd (map_sum id (\<lambda>d. case d of Some e \<Rightarrow> cf_type e = CF_PGVECTOR | None \<Rightarrow> False))
       (chfdw_check_for_custom_type S t st)"

text \<open>The types of a list are asked about until one is not a vector.\<close>

fun all_pgvector :: "syscache \<Rightarrow> Oid list \<Rightarrow> custom_cache \<Rightarrow> custom_cache \<times> bool pg" where
  "all_pgvector S [] st = (st, Inr True)"
| "all_pgvector S (t # ts) st = (case chfdw_is_pgvector_type S t st of
       (st, Inl err) \<Rightarrow> (st, Inl err)
     | (st, Inr b) \<Rightarrow> if b then all_pgvector S ts st else (st, Inr False))"

definition pgvector_function :: "syscache \<Rightarrow> pg_proc \<Rightarrow> custom_cache \<Rightarrow> custom_cache \<times> (custom_object_type \<times> string) option pg" where
  "pgvector_function S p st = (case all_pgvector S (proargtypes p) st of
       (st, Inl err) \<Rightarrow> (st, Inl err)
     | (st, Inr b) \<Rightarrow> (st, Inr (if b then pgvector_name p else None)))"

text \<open>
  \<open>chfdw_check_for_custom_function\<close> enters the function before it asks the catalogs about it: an
  error of the catalogs leaves the entry as it was initialised.
\<close>

definition chfdw_check_for_custom_function ::
    "syscache \<Rightarrow> Oid \<Rightarrow> custom_cache \<Rightarrow> custom_cache \<times> CustomObjectDef option pg" where
  "chfdw_check_for_custom_function S funcid st =
     (let builtin = chfdw_is_builtin funcid; def = lookup_builtin_func S funcid
      in if builtin \<and> def = None then (st, Inr None)
         else (let st = create_custom_objects_cache st in case hash_find st funcid of
             Some e \<Rightarrow> (st, Inr (Some e))
           | None \<Rightarrow>
               (let entry = init_custom_entry funcid; st = hash_enter funcid entry st in
                if builtin then (case def of
                    None \<Rightarrow> (st, Inr None)
                  | Some (ty, name, parens) \<Rightarrow>
                      (let entry = entry\<lparr>cf_type := ty, paren_count := parens,
                             custom_name := (case name of Some n \<Rightarrow> name_field n | None \<Rightarrow> '''')\<rparr>
                       in (hash_enter funcid entry st, Inr (Some entry))))
                else (case extension_of S ProcedureRelationId funcid of
                    Inl err \<Rightarrow> (st, Inl err)
                  | Inr None \<Rightarrow> (hash_remove funcid st, Inr None)
                  | Inr (Some ext) \<Rightarrow>
                      (case proc_row S funcid of
                         None \<Rightarrow> (st, Inl (Ereport ERRCODE_INTERNAL_ERROR ''cache lookup failed for function'' []))
                       | Some p \<Rightarrow>
                           (case (if ext = ''vector'' then pgvector_function S p st else (st, Inr (extension_function ext p))) of
                              (st, Inl err) \<Rightarrow> (st, Inl err)
                            | (st, Inr None) \<Rightarrow> (hash_remove funcid st, Inr None)
                            | (st, Inr (Some (ty, name))) \<Rightarrow>
                                (let entry = entry\<lparr>cf_type := ty, custom_name := name_field name\<rparr>
                                 in (hash_enter funcid entry st, Inr (Some entry)))))))))"

text \<open>
  An operator of an extension: what \<open>chfdw_check_for_custom_operator\<close> makes of the extension and
  the operator's row. The types of the arguments count for a vector operator that is known.
\<close>

definition extension_operator ::
    "syscache \<Rightarrow> string option \<Rightarrow> pg_operator \<Rightarrow> custom_cache \<Rightarrow> custom_cache \<times> (custom_object_type \<times> string option) option pg" where
  "extension_operator S ext form st =
     (if ext = Some ''hstore'' \<and> op_name form = ''->'' then (st, Inr (Some (CF_HSTORE_FETCHVAL, None)))
      else if ext = Some ''re2'' \<and> op_name form = ''@~'' then (st, Inr (Some (CF_OPERATOR_FUNC, Some ''match'')))
      else if ext = Some ''vector'' \<and> pgvector_operator_type (op_name form) \<noteq> None then
        (case all_pgvector S [oprleft form, oprright form] st of
           (st, Inl err) \<Rightarrow> (st, Inl err)
         | (st, Inr b) \<Rightarrow> (st, Inr (if b then pgvector_operator_type (op_name form) else None)))
      else (st, Inr None))"

definition chfdw_check_for_custom_operator ::
    "syscache \<Rightarrow> Oid \<Rightarrow> custom_cache \<Rightarrow> custom_cache \<times> CustomObjectDef option pg" where
  "chfdw_check_for_custom_operator S opoid st =
     (let st = create_custom_objects_cache st;
          (ctype, ch_name) = (if chfdw_is_builtin opoid then classify_builtin_operator S opoid else (CF_USUAL, None))
      in if chfdw_is_builtin opoid \<and> ctype = CF_USUAL then (st, Inr None)
         else (case oper_row S opoid of
             None \<Rightarrow> (st, Inl (Ereport ERRCODE_INTERNAL_ERROR ''cache lookup failed for operator'' []))
           | Some form \<Rightarrow>
               (case hash_find st opoid of
                  Some e \<Rightarrow> (st, Inr (Some e))
                | None \<Rightarrow>
                    (let entry = init_custom_entry opoid; st = hash_enter opoid entry st;
                         named = (\<lambda>ty name. entry\<lparr>cf_type := ty,
                           custom_name := (case name of Some n \<Rightarrow> name_field n | None \<Rightarrow> '''')\<rparr>)
                     in if ctype \<noteq> CF_USUAL then (hash_enter opoid (named ctype ch_name) st, Inr (Some (named ctype ch_name)))
                        else (case extension_of S OperatorRelationId opoid of
                            Inl err \<Rightarrow> (st, Inl err)
                          | Inr ext \<Rightarrow>
                              (case extension_operator S ext form st of
                                 (st, Inl err) \<Rightarrow> (st, Inl err)
                               | (st, Inr None) \<Rightarrow> (hash_remove opoid st, Inr None)
                               | (st, Inr (Some (ty, name))) \<Rightarrow>
                                   (hash_enter opoid (named ty name) st, Inr (Some (named ty name)))))))))"


section \<open>What the cached lookups compute\<close>

text \<open>The definition of a type, of a function and of an operator by the catalogs alone.\<close>

definition type_def :: "syscache \<Rightarrow> Oid \<Rightarrow> CustomObjectDef option pg" where
  "type_def S t =
     (if chfdw_is_builtin t then Inr None
      else rbind (extension_of S TypeRelationId (if OidIsValid (get_element_type S t) then get_element_type S t else t))
        (\<lambda>ext. Inr (case ext of
             None \<Rightarrow> Some (init_custom_entry t)
           | Some x \<Rightarrow>
               if pgch_is_pgvector_type S t then Some ((init_custom_entry t)\<lparr>cf_type := CF_PGVECTOR\<rparr>)
               else if x = ''hstore'' then Some (init_custom_entry t) else None)))"

definition vector_type :: "syscache \<Rightarrow> Oid \<Rightarrow> bool pg" where
  "vector_type S t = rbind (type_def S t) (\<lambda>d. Inr (case d of Some e \<Rightarrow> cf_type e = CF_PGVECTOR | None \<Rightarrow> False))"

fun vector_types :: "syscache \<Rightarrow> Oid list \<Rightarrow> bool pg" where
  "vector_types S [] = Inr True"
| "vector_types S (t # ts) = rbind (vector_type S t) (\<lambda>b. if b then vector_types S ts else Inr False)"

definition entry_def :: "Oid \<Rightarrow> (custom_object_type \<times> string) option \<Rightarrow> CustomObjectDef option" where
  "entry_def oid = map_option (\<lambda>(ty, name). (init_custom_entry oid)\<lparr>cf_type := ty, custom_name := name_field name\<rparr>)"

definition function_def :: "syscache \<Rightarrow> Oid \<Rightarrow> CustomObjectDef option pg" where
  "function_def S f =
     (if chfdw_is_builtin f then
        Inr (map_option (\<lambda>(ty, name, parens). (init_custom_entry f)\<lparr>cf_type := ty, paren_count := parens,
               custom_name := (case name of Some n \<Rightarrow> name_field n | None \<Rightarrow> '''')\<rparr>) (lookup_builtin_func S f))
      else rbind (extension_of S ProcedureRelationId f) (\<lambda>ext. case ext of
          None \<Rightarrow> Inr None
        | Some x \<Rightarrow> (case proc_row S f of
              None \<Rightarrow> Inl (Ereport ERRCODE_INTERNAL_ERROR ''cache lookup failed for function'' [])
            | Some p \<Rightarrow>
                if x = ''vector''
                then rbind (vector_types S (proargtypes p)) (\<lambda>b. Inr (entry_def f (if b then pgvector_name p else None)))
                else Inr (entry_def f (extension_function x p)))))"

definition named_entry :: "Oid \<Rightarrow> custom_object_type \<times> string option \<Rightarrow> CustomObjectDef" where
  "named_entry oid d = (init_custom_entry oid)\<lparr>cf_type := fst d,
     custom_name := (case snd d of Some n \<Rightarrow> name_field n | None \<Rightarrow> '''')\<rparr>"

definition operator_def :: "syscache \<Rightarrow> Oid \<Rightarrow> CustomObjectDef option pg" where
  "operator_def S op =
     (let b = classify_builtin_operator S op
      in if chfdw_is_builtin op \<and> fst b = CF_USUAL then Inr None
         else (case oper_row S op of
             None \<Rightarrow> Inl (Ereport ERRCODE_INTERNAL_ERROR ''cache lookup failed for operator'' [])
           | Some form \<Rightarrow>
               if chfdw_is_builtin op then Inr (Some (named_entry op b))
               else rbind (extension_of S OperatorRelationId op) (\<lambda>ext.
                 rbind (if ext = Some ''hstore'' \<and> op_name form = ''->'' then Inr (Some (CF_HSTORE_FETCHVAL, None))
                    else if ext = Some ''re2'' \<and> op_name form = ''@~'' then Inr (Some (CF_OPERATOR_FUNC, Some ''match''))
                    else if ext = Some ''vector'' \<and> pgvector_operator_type (op_name form) \<noteq> None
                    then rbind (vector_types S [oprleft form, oprright form])
                           (\<lambda>v. Inr (if v then pgvector_operator_type (op_name form) else None))
                    else Inr None) (\<lambda>d. Inr (map_option (named_entry op) d)))))"

definition object_def :: "syscache \<Rightarrow> ObjectClass \<Rightarrow> Oid \<Rightarrow> CustomObjectDef option pg" where
  "object_def S c = (case c of ProcedureRelationId \<Rightarrow> function_def S | TypeRelationId \<Rightarrow> type_def S | OperatorRelationId \<Rightarrow> operator_def S)"

definition check_object :: "syscache \<Rightarrow> ObjectClass \<Rightarrow> Oid \<Rightarrow> custom_cache \<Rightarrow> custom_cache \<times> CustomObjectDef option pg" where
  "check_object S c = (case c of ProcedureRelationId \<Rightarrow> chfdw_check_for_custom_function S
     | TypeRelationId \<Rightarrow> chfdw_check_for_custom_type S | OperatorRelationId \<Rightarrow> chfdw_check_for_custom_operator S)"

text \<open>
  One table holds functions, types and operators by OID. \<open>kind\<close> says which OIDs name objects of
  which class: the argument types of the catalog rows are types.
\<close>

definition kinds_ok :: "(Oid \<Rightarrow> ObjectClass) \<Rightarrow> syscache \<Rightarrow> bool" where
  "kinds_ok kind S \<longleftrightarrow>
     (\<forall>f p. proc_row S f = Some p \<longrightarrow> (\<forall>t \<in> set (proargtypes p). chfdw_is_builtin t \<or> kind t = TypeRelationId))
     \<and> (\<forall>op r. oper_row S op = Some r \<longrightarrow> (\<forall>t \<in> {oprleft r, oprright r}. chfdw_is_builtin t \<or> kind t = TypeRelationId))"

text \<open>
  Every entry other than those of \<open>skip\<close>, one of which is being made and the others of which an error
  has left behind, is what the catalogs define. Types are never entered before they are known.
\<close>

definition no_types :: "(Oid \<Rightarrow> ObjectClass) \<Rightarrow> Oid set \<Rightarrow> bool" where
  "no_types kind skip \<longleftrightarrow> (\<forall>oid \<in> skip. kind oid \<noteq> TypeRelationId)"

definition entries_right :: "(Oid \<Rightarrow> ObjectClass) \<Rightarrow> syscache \<Rightarrow> Oid set \<Rightarrow> custom_cache \<Rightarrow> bool" where
  "entries_right kind S skip st \<longleftrightarrow>
     (\<forall>oid e. hash_find st oid = Some e \<longrightarrow> oid \<notin> skip \<longrightarrow> object_def S (kind oid) oid = Inr (Some e))"

lemma hash_simps [simp]:
  "objects st \<noteq> None \<Longrightarrow> hash_find (hash_enter a e st) b = (if b = a then Some e else hash_find st b)"
  "hash_find (hash_remove a st) b = (if b = a then None else hash_find st b)"
  "objects (hash_enter a e st) = None \<longleftrightarrow> objects st = None"
  "objects (hash_remove a st) = None \<longleftrightarrow> objects st = None"
  "(\<exists>m. objects (hash_enter a e st) = Some m) \<longleftrightarrow> (\<exists>m. objects st = Some m)"
  "(\<exists>m. objects (hash_remove a st) = Some m) \<longleftrightarrow> (\<exists>m. objects st = Some m)"
  "custom_objects_stale (hash_enter a e st) = custom_objects_stale st"
  "custom_objects_stale (hash_remove a st) = custom_objects_stale st"
  by (auto simp: hash_find_def hash_enter_def hash_remove_def split: Option.bind_split)

lemma create_cache_simps [simp]:
  "objects (create_custom_objects_cache st) \<noteq> None"
  "\<exists>m. objects (create_custom_objects_cache st) = Some m"
  "hash_find (create_custom_objects_cache st) oid = hash_find st oid"
  "custom_objects_stale (create_custom_objects_cache st) \<longleftrightarrow> objects st \<noteq> None \<and> custom_objects_stale st"
  by (auto simp: create_custom_objects_cache_def hash_find_def)

definition marked :: "custom_cache \<Rightarrow> bool" where
  "marked st \<longleftrightarrow> custom_objects_stale st \<and> objects st \<noteq> None"

lemma marked_simps [simp]:
  "marked (hash_enter a e st) = marked st" "marked (hash_remove a st) = marked st"
  "marked (create_custom_objects_cache st) = marked st"
  by (auto simp: marked_def)

text \<open>What a call owes: its answer, the entries, and that the mark is not taken back.\<close>

definition call_right ::
    "(Oid \<Rightarrow> ObjectClass) \<Rightarrow> syscache \<Rightarrow> Oid set \<Rightarrow> custom_cache \<Rightarrow> 'a pg \<Rightarrow> custom_cache \<times> 'a pg \<Rightarrow> bool" where
  "call_right kind S skip st answer r \<longleftrightarrow>
     snd r = answer \<and> entries_right kind S skip (fst r) \<and> objects (fst r) \<noteq> None
     \<and> (marked (fst r) \<longrightarrow> marked st)
     \<and> (\<forall>oid \<in> skip. hash_find (fst r) oid = hash_find st oid)"

lemma init_entry_simps [simp]:
  "(init_custom_entry oid)\<lparr>cf_type := CF_USUAL\<rparr> = init_custom_entry oid"
  "cf_type (init_custom_entry oid) = CF_USUAL"
  by (simp_all add: init_custom_entry_def)

lemma call_right_keep:
  assumes "entries_right kind S skip st"
  shows "call_right kind S skip st answer (create_custom_objects_cache st, answer)"
  using assms by (auto simp: call_right_def entries_right_def)

lemma call_right_enter:
  assumes "entries_right kind S skip st" and "object_def S (kind t) t = Inr (Some e)" and "t \<notin> skip"
  shows "call_right kind S skip st (Inr (Some e)) (hash_enter t e (create_custom_objects_cache st), Inr (Some e))"
  using assms by (auto simp: call_right_def entries_right_def)

lemma check_type_right:
  assumes "entries_right kind S skip st" and "chfdw_is_builtin t \<or> kind t = TypeRelationId"
    and "t \<notin> skip \<or> chfdw_is_builtin t"
  shows "call_right kind S skip st (type_def S t) (chfdw_check_for_custom_type S t st)"
proof (cases "chfdw_is_builtin t")
  case True
  with assms show ?thesis
    by (auto simp: call_right_def chfdw_check_for_custom_type_def type_def_def entries_right_def)
next
  case False
  show ?thesis
  proof (cases "hash_find st t")
    case (Some e)
    have "t \<notin> skip" and "kind t = TypeRelationId" using assms False by auto
    with assms(1) Some have "type_def S t = Inr (Some e)" unfolding entries_right_def object_def_def by fastforce
    with False Some assms(1) show ?thesis
      by (auto simp: call_right_def chfdw_check_for_custom_type_def entries_right_def)
  next
    case None
    let ?oid = "if OidIsValid (get_element_type S t) then get_element_type S t else t"
    have k: "object_def S (kind t) t = type_def S t" "t \<notin> skip" using assms False by (auto simp: object_def_def)
    consider err where "extension_of S TypeRelationId ?oid = Inl err" | ext where "extension_of S TypeRelationId ?oid = Inr ext"
      by (cases "extension_of S TypeRelationId ?oid") blast+
    then show ?thesis
    proof cases
      case 1
      with False None call_right_keep [OF assms(1)] show ?thesis
        by (simp add: chfdw_check_for_custom_type_def type_def_def Let_def)
    next
      case 2
      have r: "chfdw_check_for_custom_type S t st = (case type_def S t of
          Inr (Some e) \<Rightarrow> (hash_enter t e (create_custom_objects_cache st), type_def S t)
        | _ \<Rightarrow> (create_custom_objects_cache st, type_def S t))"
        using False None 2 by (auto simp: chfdw_check_for_custom_type_def type_def_def Let_def split: option.splits)
      show ?thesis
      proof (cases "type_def S t")
        case (Inr d)
        with r k call_right_keep [OF assms(1)] call_right_enter [OF assms(1), of t] show ?thesis by (cases d) simp_all
      qed (simp add: r call_right_keep [OF assms(1)])
    qed
  qed
qed


lemma is_pgvector_right:
  assumes "entries_right kind S skip st" and "chfdw_is_builtin t \<or> kind t = TypeRelationId"
    and "t \<notin> skip \<or> chfdw_is_builtin t"
  shows "call_right kind S skip st (vector_type S t) (chfdw_is_pgvector_type S t st)"
  using check_type_right [OF assms]
  by (cases "type_def S t") (auto simp: call_right_def chfdw_is_pgvector_type_def vector_type_def apsnd_def map_prod_def split: prod.splits option.splits)

lemma all_pgvector_right:
  assumes "entries_right kind S skip st" and "objects st \<noteq> None"
    and "\<forall>t \<in> set ts. chfdw_is_builtin t \<or> kind t = TypeRelationId" and "\<forall>t \<in> set ts. t \<notin> skip \<or> chfdw_is_builtin t"
  shows "call_right kind S skip st (vector_types S ts) (all_pgvector S ts st)"
  using assms
proof (induction ts arbitrary: st)
  case Nil
  then show ?case by (simp add: call_right_def)
next
  case (Cons t ts)
  obtain st1 r1 where 1: "chfdw_is_pgvector_type S t st = (st1, r1)" by fastforce
  from is_pgvector_right [of kind S skip st t] Cons.prems
  have c: "call_right kind S skip st (vector_type S t) (st1, r1)" by (simp add: 1)
  show ?case
  proof (cases r1)
    case (Inl err)
    with c have "vector_type S t = Inl err" by (simp add: call_right_def)
    with Inl c 1 show ?thesis by (auto simp: call_right_def)
  next
    case (Inr b)
    have "call_right kind S skip st1 (vector_types S ts) (all_pgvector S ts st1)"
      using Cons.IH [of st1] Cons.prems c by (simp add: call_right_def)
    moreover from Inr c have "vector_type S t = Inr b" by (simp add: call_right_def)
    ultimately show ?thesis using c 1 Inr by (auto simp: call_right_def)
  qed
qed


text \<open>Entering an object, asking about it, and keeping or removing its entry.\<close>

lemma entries_right_enter_init:
  "entries_right kind S P st \<Longrightarrow> entries_right kind S (insert oid P) (hash_enter oid e (create_custom_objects_cache st))"
  by (auto simp: entries_right_def)

lemma entries_right_remove: "entries_right kind S (insert oid P) st \<Longrightarrow> entries_right kind S P (hash_remove oid st)"
  by (auto simp: entries_right_def)

lemma entries_right_enter:
  assumes "entries_right kind S (insert oid P) st" and "objects st \<noteq> None" and "object_def S (kind oid) oid = Inr (Some e)"
  shows "entries_right kind S P (hash_enter oid e st)"
  using assms by (auto simp: entries_right_def)

lemma entries_right_create [simp]:
  "entries_right kind S skip (create_custom_objects_cache st) = entries_right kind S skip st"
  by (simp add: entries_right_def)

text \<open>
  What a check of a function or an operator owes: the answer of the catalogs, and right entries;
  after an error all other entries are right.
\<close>

definition check_right :: "(Oid \<Rightarrow> ObjectClass) \<Rightarrow> syscache \<Rightarrow> Oid set \<Rightarrow> Oid \<Rightarrow> custom_cache \<Rightarrow> custom_cache \<times> CustomObjectDef option pg \<Rightarrow> bool" where
  "check_right kind S P oid st r \<longleftrightarrow>
     snd r = object_def S (kind oid) oid
     \<and> entries_right kind S (case snd r of Inl _ \<Rightarrow> insert oid P | Inr _ \<Rightarrow> P) (fst r)
     \<and> (marked (fst r) \<longrightarrow> marked st)"

lemma function_object_def: "kind f = ProcedureRelationId \<Longrightarrow> object_def S (kind f) f = function_def S f"
  by (simp add: object_def_def)

lemma check_builtin_function_right:
  assumes "entries_right kind S P st" and "kind f = ProcedureRelationId" and "hash_find st f = None" and "chfdw_is_builtin f"
  shows "check_right kind S P f st (chfdw_check_for_custom_function S f st)"
proof -
  note od = function_object_def [of kind f, OF assms(2)]
  note new = entries_right_enter_init [OF assms(1), of f "init_custom_entry f"]
  show ?thesis
  proof (cases "lookup_builtin_func S f")
    case (Some d)
    obtain ty name parens where d: "d = (ty, name, parens)" by (cases d)
    with assms(4) Some have "function_def S f = Inr (Some ((init_custom_entry f)\<lparr>cf_type := ty, paren_count := parens,
        custom_name := (case name of Some n \<Rightarrow> name_field n | None \<Rightarrow> '''')\<rparr>))"
      by (simp add: function_def_def)
    with assms(3,4) Some d new od show ?thesis
      by (auto simp: check_right_def chfdw_check_for_custom_function_def Let_def intro!: entries_right_enter)
  qed (use assms od in \<open>auto simp: check_right_def chfdw_check_for_custom_function_def function_def_def\<close>)
qed

text \<open>A function of an extension, whose row decides.\<close>

lemma check_extension_function_right:
  assumes "kinds_ok kind S \<and> no_types kind P" and "entries_right kind S P st" and "kind f = ProcedureRelationId" and "hash_find st f = None"
    and "\<not> chfdw_is_builtin f" and "extension_of S ProcedureRelationId f = Inr (Some e)" and "proc_row S f = Some p"
  shows "check_right kind S P f st (chfdw_check_for_custom_function S f st)"
proof -
  let ?new = "hash_enter f (init_custom_entry f) (create_custom_objects_cache st)"
  let ?r = "if e = ''vector'' then pgvector_function S p ?new else (?new, Inr (extension_function e p))"
  let ?a = "if e = ''vector'' then rbind (vector_types S (proargtypes p)) (\<lambda>b. Inr (if b then pgvector_name p else None))
            else Inr (extension_function e p)"
  note new = entries_right_enter_init [OF assms(2), of f "init_custom_entry f"]
  have def: "function_def S f = rbind ?a (\<lambda>d. Inr (entry_def f d))"
    using assms(5-7) by (simp add: function_def_def rbind_assoc)
  have types: "\<forall>t \<in> set (proargtypes p). chfdw_is_builtin t \<or> kind t = TypeRelationId"
    using assms(1,7) by (auto simp: kinds_ok_def)
  moreover from types assms(1,3) have "\<forall>t \<in> set (proargtypes p). t \<notin> insert f P \<or> chfdw_is_builtin t" by (auto simp: no_types_def)
  ultimately have c: "call_right kind S (insert f P) ?new (vector_types S (proargtypes p)) (all_pgvector S (proargtypes p) ?new)"
    using all_pgvector_right [OF new] by simp
  have r: "snd ?r = ?a \<and> entries_right kind S (insert f P) (fst ?r) \<and> objects (fst ?r) \<noteq> None
      \<and> (marked (fst ?r) \<longrightarrow> marked st)"
  proof (cases "e = ''vector''")
    case True
    obtain s1 where ap: "all_pgvector S (proargtypes p) ?new = (s1, vector_types S (proargtypes p))"
      using c by (metis call_right_def prod.collapse)
    with c True show ?thesis
      by (cases "vector_types S (proargtypes p)") (auto simp: pgvector_function_def call_right_def)
  qed (use new in simp)
  have step: "chfdw_check_for_custom_function S f st = (case ?r of
      (s, Inl err) \<Rightarrow> (s, Inl err)
    | (s, Inr None) \<Rightarrow> (hash_remove f s, Inr None)
    | (s, Inr (Some (ty, name))) \<Rightarrow>
        (let entry = (init_custom_entry f)\<lparr>cf_type := ty, custom_name := name_field name\<rparr>
         in (hash_enter f entry s, Inr (Some entry))))"
    unfolding chfdw_check_for_custom_function_def Let_def using assms(4-7) by simp
  obtain s a where sa: "?r = (s, a)" by fastforce
  with r have s: "a = ?a" "entries_right kind S (insert f P) s" "objects s \<noteq> None"
    "marked s \<longrightarrow> marked st" by auto
  have fd: "function_def S f = rbind a (\<lambda>d. Inr (entry_def f d))" using def s(1) by simp
  show ?thesis unfolding step sa prod.case
    using s(2-4) fd
    by (auto simp: check_right_def function_object_def [of kind f, OF assms(3)] entry_def_def Let_def split: sum.splits option.splits
        intro: entries_right_remove entries_right_enter)
qed

lemma check_function_right:
  assumes "kinds_ok kind S \<and> no_types kind P" and "entries_right kind S P st" and "kind f = ProcedureRelationId"
    and "hash_find st f = None \<or> f \<notin> P"
  shows "check_right kind S P f st (chfdw_check_for_custom_function S f st)"
proof (cases "hash_find st f")
  note od = function_object_def [of kind f, OF assms(3)]
  case (Some e)
  with assms(2,4) have "object_def S (kind f) f = Inr (Some e)" by (auto simp: entries_right_def)
  with Some assms(2) show ?thesis
    by (auto simp: check_right_def od chfdw_check_for_custom_function_def function_def_def split: if_splits)
next
  note od = function_object_def [of kind f, OF assms(3)]
  note new = entries_right_enter_init [OF assms(2), of f "init_custom_entry f"]
  case None
  show ?thesis
  proof (cases "chfdw_is_builtin f")
    case nb: False
    consider (err) e where "extension_of S ProcedureRelationId f = Inl e" | (none) "extension_of S ProcedureRelationId f = Inr None"
      | (norow) e where "extension_of S ProcedureRelationId f = Inr (Some e)" "proc_row S f = None"
      | (row) e p where "extension_of S ProcedureRelationId f = Inr (Some e)" "proc_row S f = Some p"
      by (metis not_None_eq obj_sumE)
    then show ?thesis
    proof cases
      case none
      with nb None new show ?thesis
        by (auto simp: check_right_def od chfdw_check_for_custom_function_def function_def_def Let_def intro!: entries_right_remove)
    next
      case row
      then show ?thesis by (rule check_extension_function_right [OF assms(1-3) None nb])
    qed (use nb None new in \<open>auto simp: check_right_def od chfdw_check_for_custom_function_def function_def_def Let_def\<close>)
  qed (rule check_builtin_function_right [OF assms(2,3) None])
qed


lemma extension_operator_right:
  assumes "kinds_ok kind S \<and> no_types kind P" and "entries_right kind S (insert op P) st" and "objects st \<noteq> None"
    and "kind op = OperatorRelationId" and "oper_row S op = Some form"
    and "extension_operator S ext form st = (s, a)"
  shows "entries_right kind S (insert op P) s \<and> objects s \<noteq> None \<and> (marked s \<longrightarrow> marked st)"
    and "a = (if ext = Some ''hstore'' \<and> op_name form = ''->'' then Inr (Some (CF_HSTORE_FETCHVAL, None))
              else if ext = Some ''re2'' \<and> op_name form = ''@~'' then Inr (Some (CF_OPERATOR_FUNC, Some ''match''))
              else if ext = Some ''vector'' \<and> pgvector_operator_type (op_name form) \<noteq> None
              then rbind (vector_types S [oprleft form, oprright form])
                     (\<lambda>v. Inr (if v then pgvector_operator_type (op_name form) else None))
              else Inr None)"
proof -
  have types: "\<forall>t \<in> set [oprleft form, oprright form]. chfdw_is_builtin t \<or> kind t = TypeRelationId"
    using assms(1,5) by (auto simp: kinds_ok_def)
  moreover from types assms(1,4) have "\<forall>t \<in> set [oprleft form, oprright form]. t \<notin> insert op P \<or> chfdw_is_builtin t" by (auto simp: no_types_def)
  ultimately have c: "call_right kind S (insert op P) st (vector_types S [oprleft form, oprright form])
      (all_pgvector S [oprleft form, oprright form] st)"
    by (intro all_pgvector_right assms(2,3))
  then obtain s1 where ap: "all_pgvector S [oprleft form, oprright form] st = (s1, vector_types S [oprleft form, oprright form])"
    by (metis call_right_def prod.collapse)
  note defs = extension_operator_def call_right_def
  show "entries_right kind S (insert op P) s \<and> objects s \<noteq> None \<and> (marked s \<longrightarrow> marked st)"
    using assms(2,3,6) c unfolding defs ap
    by (cases "vector_types S [oprleft form, oprright form]") (auto split: if_splits)
  show "a = (if ext = Some ''hstore'' \<and> op_name form = ''->'' then Inr (Some (CF_HSTORE_FETCHVAL, None))
              else if ext = Some ''re2'' \<and> op_name form = ''@~'' then Inr (Some (CF_OPERATOR_FUNC, Some ''match''))
              else if ext = Some ''vector'' \<and> pgvector_operator_type (op_name form) \<noteq> None
              then rbind (vector_types S [oprleft form, oprright form])
                     (\<lambda>v. Inr (if v then pgvector_operator_type (op_name form) else None))
              else Inr None)"
    using assms(6) unfolding defs ap
    by (cases "vector_types S [oprleft form, oprright form]") (auto split: if_splits simp del: vector_types.simps)
qed


lemma check_extension_operator_right:
  assumes "kinds_ok kind S \<and> no_types kind P" and "entries_right kind S P st" and "kind op = OperatorRelationId" and "hash_find st op = None"
    and "\<not> chfdw_is_builtin op" and "extension_of S OperatorRelationId op = Inr ext" and "oper_row S op = Some form"
  shows "check_right kind S P op st (chfdw_check_for_custom_operator S op st)"
proof -
  let ?new = "hash_enter op (init_custom_entry op) (create_custom_objects_cache st)"
  have od: "object_def S (kind op) op = operator_def S op" by (simp add: object_def_def assms(3))
  have new: "entries_right kind S (insert op P) ?new" by (rule entries_right_enter_init [OF assms(2)])
  obtain s a where sa: "extension_operator S ext form ?new = (s, a)" by fastforce
  have n: "objects ?new \<noteq> None" by simp
  note x = extension_operator_right [OF assms(1) new n assms(3,7) sa]
  have def: "operator_def S op = rbind a (\<lambda>d. Inr (map_option (named_entry op) d))"
    using assms(5-7) unfolding operator_def_def x(2) by (simp add: Let_def)
  have step: "chfdw_check_for_custom_operator S op st = (case (s, a) of
      (s, Inl err) \<Rightarrow> (s, Inl err)
    | (s, Inr None) \<Rightarrow> (hash_remove op s, Inr None)
    | (s, Inr (Some d)) \<Rightarrow> (hash_enter op (named_entry op d) s, Inr (Some (named_entry op d))))"
    unfolding chfdw_check_for_custom_operator_def Let_def sa [symmetric] using assms(4-7)
    by (auto simp: sa named_entry_def split: prod.splits sum.splits option.splits)
  show ?thesis unfolding step prod.case
    using x(1) def
    by (auto simp: check_right_def od split: sum.splits option.splits intro: entries_right_remove entries_right_enter)
qed

lemma check_operator_right:
  assumes "kinds_ok kind S \<and> no_types kind P" and "entries_right kind S P st" and "kind op = OperatorRelationId"
    and "hash_find st op = None \<or> op \<notin> P"
  shows "check_right kind S P op st (chfdw_check_for_custom_operator S op st)"
proof -
  have od: "object_def S (kind op) op = operator_def S op" by (simp add: object_def_def assms(3))
  let ?b = "classify_builtin_operator S op"
  note new = entries_right_enter_init [OF assms(2), of op "init_custom_entry op"]
  note defs = check_right_def od chfdw_check_for_custom_operator_def operator_def_def Let_def case_prod_beta
  show ?thesis
  proof (cases "chfdw_is_builtin op \<and> fst ?b = CF_USUAL")
    case True
    with assms(2) show ?thesis by (auto simp: defs)
  next
    case False
    consider (norow) "oper_row S op = None" | (row) form where "oper_row S op = Some form" by (cases "oper_row S op") auto
    then show ?thesis
    proof cases
      case norow
      with False assms(2) show ?thesis by (auto simp: defs entries_right_def)
    next
      case row
      show ?thesis
      proof (cases "hash_find st op")
        case (Some e)
        with assms(2,4) have "object_def S (kind op) op = Inr (Some e)" by (auto simp: entries_right_def)
        with Some False row assms(2) show ?thesis
          by (auto simp: check_right_def chfdw_check_for_custom_operator_def Let_def case_prod_beta)
      next
        case None
        show ?thesis
        proof (cases "chfdw_is_builtin op")
          case True
          with False row None new show ?thesis
            by (auto simp: defs named_entry_def intro!: entries_right_enter)
        next
          case nb: False
          show ?thesis
          proof (cases "extension_of S OperatorRelationId op")
            case (Inl err)
            with nb row None new show ?thesis by (auto simp: defs)
          qed (rule check_extension_operator_right [OF assms(1-3) None nb _ row])
        qed
      qed
    qed
  qed
qed


section \<open>The cache over time\<close>

lemma check_object_right:
  assumes "kinds_ok kind S \<and> no_types kind P" and "entries_right kind S P st" and "hash_find st oid = None \<or> oid \<notin> P"
  shows "check_right kind S P oid st (check_object S (kind oid) oid st)"
proof (cases "kind oid")
  case ProcedureRelationId
  with check_function_right [OF assms(1,2) _ assms(3)] show ?thesis by (simp add: check_object_def)
next
  case OperatorRelationId
  with check_operator_right [OF assms(1,2) _ assms(3)] show ?thesis by (simp add: check_object_def)
next
  case TypeRelationId
  then have "oid \<notin> P" using assms(1) by (auto simp: no_types_def)
  with TypeRelationId have c: "call_right kind S P st (type_def S oid) (chfdw_check_for_custom_type S oid st)"
    by (intro check_type_right assms(2)) simp_all
  then have "entries_right kind S P (fst (chfdw_check_for_custom_type S oid st))" by (simp add: call_right_def)
  then have "entries_right kind S (insert oid P) (fst (chfdw_check_for_custom_type S oid st))"
    by (simp add: entries_right_def)
  with c TypeRelationId show ?thesis
    by (simp add: check_object_def check_right_def call_right_def object_def_def split: sum.splits)
qed

text \<open>An object whose entry an error has left behind is answered from that entry, which stays.\<close>

lemma check_known_object:
  assumes "kind oid \<noteq> TypeRelationId" and "hash_find st oid = Some e"
  shows "\<exists>r. check_object S (kind oid) oid st = (st, r) \<or> check_object S (kind oid) oid st = (create_custom_objects_cache st, r)"
  using assms
  by (cases "kind oid") (auto simp: check_object_def chfdw_check_for_custom_function_def chfdw_check_for_custom_operator_def Let_def
      split: option.splits prod.splits)

text \<open>
  Every check, of whatever object, keeps the other entries right; an error leaves at most the entry
  of the object wrong, and none when the object is a type.
\<close>

definition left_behind :: "(Oid \<Rightarrow> ObjectClass) \<Rightarrow> Oid \<Rightarrow> Oid set" where
  "left_behind kind oid = (if kind oid = TypeRelationId then {} else {oid})"

lemma no_types_left_behind: "no_types kind P \<Longrightarrow> no_types kind (left_behind kind oid \<union> P)"
  by (auto simp: no_types_def left_behind_def)

lemma check_object_keeps:
  assumes "kinds_ok kind S \<and> no_types kind P" and "entries_right kind S P st" and "check_object S (kind oid) oid st = (st', r)"
  shows "entries_right kind S (case r of Inl _ \<Rightarrow> left_behind kind oid \<union> P | Inr _ \<Rightarrow> P) st'"
proof (cases "oid \<in> P \<and> hash_find st oid \<noteq> None")
  case True
  then obtain e where e: "hash_find st oid = Some e" by blast
  have "kind oid \<noteq> TypeRelationId" using True assms(1) by (auto simp: no_types_def)
  from check_known_object [of kind, OF this e, of S] assms(2,3) have "entries_right kind S P st'" by auto
  then show ?thesis by (auto simp: entries_right_def split: sum.split)
next
  case False
  then have h: "hash_find st oid = None \<or> oid \<notin> P" by blast
  show ?thesis
  proof (cases "kind oid = TypeRelationId")
    case True
    then have "oid \<notin> P" using assms(1) by (auto simp: no_types_def)
    with True have "call_right kind S P st (type_def S oid) (chfdw_check_for_custom_type S oid st)"
      by (intro check_type_right assms(2)) simp_all
    with True assms(3) show ?thesis by (auto simp: check_object_def call_right_def left_behind_def split: sum.split)
  next
    case no_type: False
    with check_object_right [OF assms(1,2) h] assms(3) show ?thesis
      by (auto simp: check_right_def left_behind_def split: sum.splits)
  qed
qed

text \<open>
  The life of a session: objects are checked, with or without an error, the catalogs change, which
  the callback notes, and transactions end. The set is the one of the functions and operators whose
  check raised an error since the cache was last emptied.
\<close>

inductive objects_reachable :: "(Oid \<Rightarrow> ObjectClass) \<Rightarrow> syscache \<Rightarrow> Oid set \<Rightarrow> custom_cache \<Rightarrow> bool" for kind where
  start: "kinds_ok kind S \<Longrightarrow> objects_reachable kind S {} \<lparr>objects = None, custom_objects_stale = False\<rparr>"
| check: "objects_reachable kind S P st \<Longrightarrow> check_object S (kind oid) oid st = (st', Inr d) \<Longrightarrow> objects_reachable kind S P st'"
| failed: "objects_reachable kind S P st \<Longrightarrow> check_object S (kind oid) oid st = (st', Inl err) \<Longrightarrow>
    objects_reachable kind S (left_behind kind oid \<union> P) st'"
| change: "objects_reachable kind S P st \<Longrightarrow> kinds_ok kind S' \<Longrightarrow> objects_reachable kind S' P (invalidate_custom_objects_cache st)"
| xact_end: "objects_reachable kind S P st \<Longrightarrow>
    objects_reachable kind S (if custom_objects_stale st then {} else P) (drop_stale_custom_objects st)"

text \<open>No check takes the mark back or sets it.\<close>

lemma check_type_marked: "chfdw_check_for_custom_type S t st = (st', r) \<Longrightarrow> marked st' = marked st"
  by (auto simp: chfdw_check_for_custom_type_def Let_def split: option.splits sum.splits if_splits)

lemma is_pgvector_marked: "chfdw_is_pgvector_type S t st = (st', r) \<Longrightarrow> marked st' = marked st"
  by (cases "chfdw_check_for_custom_type S t st") (auto simp: chfdw_is_pgvector_type_def dest: check_type_marked)

lemma all_pgvector_marked: "all_pgvector S ts st = (st', r) \<Longrightarrow> marked st' = marked st"
  by (induction ts arbitrary: st) (auto split: prod.splits sum.splits if_splits dest!: is_pgvector_marked)

lemma pgvector_function_marked: "pgvector_function S p st = (st', r) \<Longrightarrow> marked st' = marked st"
  by (auto simp: pgvector_function_def split: prod.splits sum.splits dest!: all_pgvector_marked)

lemma extension_operator_marked: "extension_operator S ext form st = (st', r) \<Longrightarrow> marked st' = marked st"
  by (auto simp: extension_operator_def simp del: all_pgvector.simps split: prod.splits sum.splits if_splits
      dest!: all_pgvector_marked)

lemma check_function_marked: "chfdw_check_for_custom_function S f st = (st', r) \<Longrightarrow> marked st' = marked st"
  unfolding chfdw_check_for_custom_function_def Let_def
  by (auto split: prod.splits sum.splits option.splits if_splits dest!: pgvector_function_marked)

lemma check_operator_marked: "chfdw_check_for_custom_operator S op st = (st', r) \<Longrightarrow> marked st' = marked st"
  unfolding chfdw_check_for_custom_operator_def Let_def
  by (auto split: prod.splits sum.splits option.splits if_splits dest!: extension_operator_marked)

lemma check_object_marked: "check_object S c oid st = (st', r) \<Longrightarrow> marked st' = marked st"
  by (cases c) (auto simp: check_object_def dest: check_function_marked check_operator_marked check_type_marked)

lemma entries_right_empty [simp]: "objects st = None \<Longrightarrow> entries_right kind S P st"
  by (simp add: entries_right_def hash_find_def)

text \<open>A transaction end empties a cache that is marked, and with it the entries that were left behind.\<close>

lemma drop_stale_right:
  assumes "marked st \<or> entries_right kind S P st"
  shows "entries_right kind S (if custom_objects_stale st then {} else P) (drop_stale_custom_objects st)"
  using assms by (auto simp: drop_stale_custom_objects_def marked_def)

lemma objects_reachable_inv:
  assumes "objects_reachable kind S P st"
  shows "(kinds_ok kind S \<and> no_types kind P) \<and> (marked st \<or> entries_right kind S P st)"
  using assms
proof (induction rule: objects_reachable.induct)
  case (check S P st oid st' d)
  then show ?case using check_object_keeps [of kind S P st oid st' "Inr d"] check_object_marked [of S "kind oid" oid st st'] by auto
next
  case (failed S P st oid st' err)
  then show ?case
    using check_object_keeps [of kind S P st oid st' "Inl err"] check_object_marked [of S "kind oid" oid st st']
      no_types_left_behind [of kind P oid] by auto
next
  case (change S P st S')
  then show ?case
    by (cases "objects st") (auto simp: marked_def invalidate_custom_objects_cache_def)
next
  case (xact_end S P st)
  then show ?case using drop_stale_right [of st kind S P] by (auto simp: no_types_def)
qed (simp add: no_types_def)

text \<open>
  The cache of custom objects is invisible. In every state that a session reaches with
  checks, catalog changes and transaction ends, and in which no change of the current transaction
  is pending, a check of any function, type or operator answers what the catalogs define now,
  errors included, provided that OIDs of functions, types and operators are different and no
  earlier check of the same function or operator raised an error.
\<close>

theorem custom_objects_cache_exact:
  assumes "objects_reachable kind S P st" and "\<not> custom_objects_stale st" and "oid \<notin> P"
  shows "snd (check_object S (kind oid) oid st) = object_def S (kind oid) oid"
proof -
  have "kinds_ok kind S \<and> no_types kind P" "entries_right kind S P st"
    using objects_reachable_inv [OF assms(1)] assms(2) by (auto simp: marked_def)
  from check_object_right [OF this] assms(3) show ?thesis by (simp add: check_right_def)
qed

text \<open>A catalog with the function \<open>digest\<close> of pgcrypto, and without it after the extension is dropped.\<close>

definition ex_syscache :: "bool \<Rightarrow> syscache" where
  "ex_syscache crypto = \<lparr>extension_of = (\<lambda>_ oid. Inr (if crypto \<and> oid = 20001 then Some ''pgcrypto'' else None)),
     proc_row = (\<lambda>oid. if oid = 20001 then Some \<lparr>proname = ''digest'', proargtypes = [TEXTOID, TEXTOID], prorettype = BYTEAOID\<rparr>
                       else None),
     oper_row = (\<lambda>_. None), get_opcode = (\<lambda>_. 0), get_element_type = (\<lambda>_. 0),
     pgch_is_pgvector_type = (\<lambda>_. False), fmgroids = (\<lambda>_. 1)\<rparr>"

theorem custom_objects_cache_exact_witness:
  "\<exists>st. snd (check_object (ex_syscache True) ProcedureRelationId 20001 \<lparr>objects = None, custom_objects_stale = False\<rparr>)
       = Inr (Some \<lparr>cf_oid = 20001, cf_type = CF_DIGEST, custom_name = MANY_NAMES, paren_count = 1\<rparr>)
     \<and> fst (check_object (ex_syscache True) ProcedureRelationId 20001 \<lparr>objects = None, custom_objects_stale = False\<rparr>) = st
     \<and> snd (check_object (ex_syscache False) ProcedureRelationId 20001 (invalidate_custom_objects_cache st))
         = Inr (Some \<lparr>cf_oid = 20001, cf_type = CF_DIGEST, custom_name = MANY_NAMES, paren_count = 1\<rparr>)
     \<and> snd (check_object (ex_syscache False) ProcedureRelationId 20001 (drop_stale_custom_objects (invalidate_custom_objects_cache st)))
         = Inr None"
proof -
  let ?kind = "\<lambda>_::Oid. ProcedureRelationId" and ?s0 = "\<lparr>objects = None, custom_objects_stale = False\<rparr> :: custom_cache"
  let ?d = "\<lparr>cf_oid = 20001, cf_type = CF_DIGEST, custom_name = MANY_NAMES, paren_count = 1\<rparr> :: CustomObjectDef"
  have k: "kinds_ok ?kind (ex_syscache b)" for b
    by (auto simp: kinds_ok_def ex_syscache_def chfdw_is_builtin_def FirstUnpinnedObjectId_def split: if_splits)
  obtain st where st: "check_object (ex_syscache True) ProcedureRelationId 20001 ?s0 = (st, Inr (Some ?d))"
    and stale: "snd (check_object (ex_syscache False) ProcedureRelationId 20001 (invalidate_custom_objects_cache st)) = Inr (Some ?d)"
    and some: "objects st \<noteq> None"
    by (auto simp: check_object_def chfdw_check_for_custom_function_def Let_def ex_syscache_def chfdw_is_builtin_def
        FirstUnpinnedObjectId_def create_custom_objects_cache_def hash_find_def hash_enter_def extension_function_def
        init_custom_entry_def name_field_def invalidate_custom_objects_cache_def)
  let ?new = "drop_stale_custom_objects (invalidate_custom_objects_cache st)"
  have "objects_reachable ?kind (ex_syscache False) {} (invalidate_custom_objects_cache st)"
    by (rule objects_reachable.change, rule objects_reachable.check, rule objects_reachable.start) (rule k st)+
  then have r: "objects_reachable ?kind (ex_syscache False) {} ?new"
    using objects_reachable.xact_end by fastforce
  have "\<not> custom_objects_stale ?new"
    using some by (auto simp: drop_stale_custom_objects_def invalidate_custom_objects_cache_def)
  from custom_objects_cache_exact [OF r this, of 20001]
  have "snd (check_object (ex_syscache False) ProcedureRelationId 20001 ?new) = Inr None"
    by (simp add: object_def_def function_def_def chfdw_is_builtin_def FirstUnpinnedObjectId_def ex_syscache_def)
  with st stale show ?thesis by simp
qed

section \<open>The columns of foreign tables\<close>

datatype ch_aggregate_func_type = CF_AGGR_USUAL | CF_AGGR_FUNC | CF_AGGR_SIMPLE

record CustomColumnInfo =
  colname :: "string option"
  is_AggregateFunction :: ch_aggregate_func_type
  engine_of_table :: table_engine

text \<open>The catalog of columns: for a table whether each column is dropped, and the options of a column.\<close>

record column_catalog =
  dropped_columns :: "Oid \<Rightarrow> bool list"
  column_options :: "Oid \<Rightarrow> nat \<Rightarrow> (string \<times> string) list"

type_synonym columns_cache = "Oid \<times> nat \<rightharpoonup> CustomColumnInfo"

fun apply_column_options :: "(string \<times> string) list \<Rightarrow> CustomColumnInfo \<Rightarrow> CustomColumnInfo" where
  "apply_column_options [] e = e"
| "apply_column_options ((name, value) # ds) e = apply_column_options ds
     (if name = ''column_name'' then e\<lparr>colname := Some value\<rparr>
      else if name = ''aggregatefunction'' then e\<lparr>is_AggregateFunction := CF_AGGR_FUNC\<rparr>
      else if name = ''simpleaggregatefunction'' then e\<lparr>is_AggregateFunction := CF_AGGR_SIMPLE\<rparr>
      else e)"

definition populate_custom_column_entry :: "column_catalog \<Rightarrow> Oid \<Rightarrow> nat \<Rightarrow> table_engine \<Rightarrow> CustomColumnInfo" where
  "populate_custom_column_entry K relid attnum engine = apply_column_options (column_options K relid attnum)
     \<lparr>colname = None, is_AggregateFunction = CF_AGGR_USUAL, engine_of_table = engine\<rparr>"

definition chfdw_get_custom_column_info ::
    "column_catalog \<Rightarrow> Oid \<Rightarrow> nat \<Rightarrow> columns_cache \<Rightarrow> columns_cache \<times> CustomColumnInfo option" where
  "chfdw_get_custom_column_info K relid attno m = (case m (relid, attno) of
       Some e \<Rightarrow> (m, Some e)
     | None \<Rightarrow>
         if 0 < attno \<and> attno \<le> length (dropped_columns K relid) \<and> \<not> dropped_columns K relid ! (attno - 1)
         then (let e = populate_custom_column_entry K relid attno CH_DEFAULT in (m((relid, attno) \<mapsto> e), Some e))
         else (m, None))"

text \<open>The loop of \<open>chfdw_apply_custom_table_options\<close> over the columns of a table whose engine is known.\<close>

definition prime_columns :: "column_catalog \<Rightarrow> Oid \<Rightarrow> table_engine \<Rightarrow> columns_cache \<Rightarrow> columns_cache" where
  "prime_columns K relid engine m = foldl
     (\<lambda>m n. case m (relid, n) of Some _ \<Rightarrow> m | None \<Rightarrow> m((relid, n) \<mapsto> populate_custom_column_entry K relid n engine))
     m [1 ..< Suc (length (dropped_columns K relid))]"

definition invalidate_custom_columns_cache :: "columns_cache \<Rightarrow> columns_cache" where
  "invalidate_custom_columns_cache m = Map.empty"

inductive columns_reachable :: "column_catalog \<Rightarrow> columns_cache \<Rightarrow> bool" where
  "columns_reachable K Map.empty"
| "columns_reachable K m \<Longrightarrow> columns_reachable K (fst (chfdw_get_custom_column_info K relid attno m))"
| "columns_reachable K m \<Longrightarrow> columns_reachable K (prime_columns K relid engine m)"
| "columns_reachable K m \<Longrightarrow> columns_reachable K' (invalidate_custom_columns_cache m)"

lemma apply_column_options_engine:
  "apply_column_options ds \<lparr>colname = c, is_AggregateFunction = a, engine_of_table = g\<rparr>
    = (apply_column_options ds \<lparr>colname = c, is_AggregateFunction = a, engine_of_table = g'\<rparr>)\<lparr>engine_of_table := g\<rparr>"
proof (induction ds arbitrary: c a)
  case (Cons d ds)
  then show ?case by (cases d) simp
qed simp

definition columns_right :: "column_catalog \<Rightarrow> columns_cache \<Rightarrow> bool" where
  "columns_right K m \<longleftrightarrow> (\<forall>relid n e. m (relid, n) = Some e \<longrightarrow> (\<exists>g. e = populate_custom_column_entry K relid n g))"

lemma prime_columns_right: "columns_right K m \<Longrightarrow> columns_right K (prime_columns K relid g m)"
proof -
  have "columns_right K m \<Longrightarrow> columns_right K (foldl
     (\<lambda>m n. case m (relid, n) of Some _ \<Rightarrow> m | None \<Rightarrow> m((relid, n) \<mapsto> populate_custom_column_entry K relid n g)) m ns)" for ns
  proof (induction ns arbitrary: m)
    case (Cons n ns)
    then have "columns_right K (case m (relid, n) of Some _ \<Rightarrow> m | None \<Rightarrow> m((relid, n) \<mapsto> populate_custom_column_entry K relid n g))"
      by (auto simp: columns_right_def split: option.splits)
    from Cons.IH [OF this] show ?case by simp
  qed simp
  then show "columns_right K m \<Longrightarrow> columns_right K (prime_columns K relid g m)" by (simp add: prime_columns_def)
qed

lemma columns_reachable_right: "columns_reachable K m \<Longrightarrow> columns_right K m"
proof (induction rule: columns_reachable.induct)
  case (2 K m relid attno)
  then show ?case by (auto simp: columns_right_def chfdw_get_custom_column_info_def Let_def split: option.splits)
next
  case (3 K m relid engine)
  then show ?case by (simp add: prime_columns_right)
qed (auto simp: columns_right_def invalidate_custom_columns_cache_def)

text \<open>
  The name and the aggregate mark of a column of a table are the ones of its options, whether a
  scan with its engine or an INSERT without one entered the column first.
\<close>

lemma custom_column_exact:
  assumes "columns_reachable K m" and "0 < n" and "n \<le> length (dropped_columns K relid)"
    and "\<not> dropped_columns K relid ! (n - 1)"
  shows "\<exists>g. snd (chfdw_get_custom_column_info K relid n m) = Some (populate_custom_column_entry K relid n g)"
  using columns_reachable_right [OF assms(1)] assms(2-)
  by (auto simp: columns_right_def chfdw_get_custom_column_info_def Let_def split: option.splits)

lemma populate_engine_only:
  "populate_custom_column_entry K relid n g = (populate_custom_column_entry K relid n CH_DEFAULT)\<lparr>engine_of_table := g\<rparr>"
  unfolding populate_custom_column_entry_def by (rule apply_column_options_engine)

end
