(* ===== verification/Nullness.thy ===== *)
theory Nullness
  imports Nodes CustomObjects
begin

text \<open>
  What \<open>src/deparse.c\<close> can prove at plan time about NULL: \<open>chfdw_is_equal_op\<close>,
  \<open>expr_never_null\<close>, \<open>is_non_nullable_op\<close>, \<open>op_expr_never_null\<close>, \<open>saop_array_nulls\<close>,
  \<open>notin_prove_nullability\<close> and \<open>classify_notin_subplan\<close>, with the soundness of these proofs
  for every row that obeys the catalog's NOT NULL marks.

  The system catalog is a parameter: the names of operators, the OIDs behind the names of
  \<open>fmgroids.h\<close>, and for each scope (the outer query or a subquery) which columns of its
  range table are plain relation columns marked NOT NULL. The code for servers from 16 on is
  modelled, where a \<open>Var\<close> says itself whether an outer join may have nulled it.
\<close>

section \<open>Catalog and context\<close>

datatype CHEqualOp = CH_OP_NONE | CH_OP_EQ | CH_OP_NE

record catalog =
  oprname :: "Oid \<Rightarrow> string option"
  oprcode :: "Oid \<Rightarrow> Oid"
  fmgr_oid :: "string \<Rightarrow> Oid"
  custom_operator :: "Oid \<Rightarrow> custom_object_type option"
  attnotnull :: "nat option \<Rightarrow> nat \<Rightarrow> int \<Rightarrow> bool"

text \<open>
  \<open>foreign_glob_cxt\<close> and \<open>deparse_expr_cxt\<close>: the scope whose range table resolves columns
  (\<open>root\<close>), and the relations of the scan. While the body of a subquery is written, \<open>outer_arg\<close>
  gives for a correlation parameter what the scope around it writes for its argument
  (\<open>context->subplan\<close> and \<open>context->parent_ctx\<close>).
\<close>

record glob_cxt =
  root :: "nat option"
  relids :: "nat list"
  outer_arg :: "nat \<Rightarrow> ch pg option"

section \<open>Operators\<close>

definition chfdw_is_equal_op :: "catalog \<Rightarrow> Oid \<Rightarrow> CHEqualOp pg" where
  "chfdw_is_equal_op C op = (case oprname C op of
       None \<Rightarrow> Inl (Ereport ERRCODE_INTERNAL_ERROR ''cache lookup failed for operator'' [])
     | Some n \<Rightarrow>
         Inr (if n = ''='' then CH_OP_EQ
              else if take 2 n = ''<>'' then CH_OP_NE else CH_OP_NONE))"

definition never_null_opfuncs :: "catalog \<Rightarrow> Oid list" where
  "never_null_opfuncs C = map (fmgr_oid C)
     [''int2pl'', ''int4pl'', ''int8pl'', ''int24pl'', ''int42pl'', ''int28pl'', ''int82pl'', ''int48pl'',
      ''int84pl'', ''float4pl'', ''float8pl'', ''float48pl'', ''float84pl'', ''numeric_add'',
      ''int2mi'', ''int4mi'', ''int8mi'', ''int24mi'', ''int42mi'', ''int28mi'', ''int82mi'', ''int48mi'',
      ''int84mi'', ''float4mi'', ''float8mi'', ''float48mi'', ''float84mi'', ''numeric_sub'',
      ''int2mul'', ''int4mul'', ''int8mul'', ''int24mul'', ''int42mul'', ''int28mul'', ''int82mul'',
      ''int48mul'', ''int84mul'', ''float4mul'', ''float8mul'', ''float48mul'', ''float84mul'', ''numeric_mul'',
      ''int2um'', ''int4um'', ''int8um'', ''float4um'', ''float8um'', ''numeric_uminus'']"

text \<open>
  \<open>sort_never_null_opfuncs\<close> sorts the array in place at load time; \<open>bsearch\<close> of the C
  library halves the range between \<open>lo\<close> and \<open>hi\<close>.
\<close>

definition sort_never_null_opfuncs :: "Oid list \<Rightarrow> Oid list" where
  "sort_never_null_opfuncs xs = sort xs"

function bsearch :: "'a::linorder \<Rightarrow> 'a list \<Rightarrow> nat \<Rightarrow> nat \<Rightarrow> bool" where
  "bsearch key xs lo hi =
     (if lo < hi then
        (let mid = (lo + hi) div 2
         in if key < xs ! mid then bsearch key xs lo mid
            else if xs ! mid < key then bsearch key xs (Suc mid) hi
            else True)
      else False)"
  by pat_completeness auto
termination
  by (relation "measure (\<lambda>(key, xs, lo, hi). hi - lo)") auto

declare bsearch.simps [simp del]

definition is_non_nullable_op :: "catalog \<Rightarrow> Oid \<Rightarrow> bool" where
  "is_non_nullable_op C f =
     (let xs = sort_never_null_opfuncs (never_null_opfuncs C) in bsearch f xs 0 (length xs))"

section \<open>Expressions\<close>

fun expr_never_null :: "catalog \<Rightarrow> glob_cxt \<Rightarrow> expr \<Rightarrow> bool" where
  "expr_never_null C g (RelabelType x) = expr_never_null C g x"
| "expr_never_null C g (Const c) = (c \<noteq> CNull)"
| "expr_never_null C g (Var v) =
     (if varlevelsup v \<noteq> 0 \<or> varattno v \<le> 0 \<or> varno v \<notin> set (relids g) then False
      else if varnulled v then False
      else attnotnull C (root g) (varno v) (varattno v))"
| "expr_never_null C g (OpExpr op args) =
     (is_non_nullable_op C (oprcode C op) \<and> list_all (expr_never_null C g) args)"
| "expr_never_null C g _ = False"

datatype SaopArrayNulls = SAOP_ARR_EMPTY | SAOP_ARR_NULL_FREE | SAOP_ARR_UNKNOWN

definition saop_array_nulls :: "catalog \<Rightarrow> glob_cxt \<Rightarrow> expr \<Rightarrow> SaopArrayNulls" where
  "saop_array_nulls C g arr = (case arr of
       Const CNull \<Rightarrow> SAOP_ARR_UNKNOWN
     | Const (CArray vs) \<Rightarrow> if vs = [] then SAOP_ARR_EMPTY else SAOP_ARR_NULL_FREE
     | Const (CArrayNulls vs) \<Rightarrow> if vs = [] then SAOP_ARR_EMPTY else SAOP_ARR_UNKNOWN
     | ArrayExpr m xs \<Rightarrow>
         if m then SAOP_ARR_UNKNOWN
         else if xs = [] then SAOP_ARR_EMPTY
         else if list_all (expr_never_null C g) xs then SAOP_ARR_NULL_FREE
         else SAOP_ARR_UNKNOWN
     | _ \<Rightarrow> SAOP_ARR_UNKNOWN)"

section \<open>NOT IN with a subquery\<close>

datatype NotInShipForm = NOTIN_SHIP_PLAIN | NOTIN_SHIP_GUARDED | NOTIN_SHIP_NONE

text \<open>The two bits of \<open>NotInNullability\<close>: probe and output.\<close>

definition sub_cxt :: "subplan \<Rightarrow> glob_cxt" where
  "sub_cxt sp = \<lparr>root = Some (plan_id sp), relids = map rtindex (fromlist (parse sp)), outer_arg = Map.empty\<rparr>"

definition notin_prove_nullability ::
    "catalog \<Rightarrow> glob_cxt \<Rightarrow> subplan \<Rightarrow> expr \<Rightarrow> expr list \<Rightarrow> bool \<times> bool" where
  "notin_prove_nullability C g sp lhs targets = (case targets of
       [] \<Rightarrow> (True, True)
     | out # _ \<Rightarrow> (\<not> expr_never_null C g lhs, \<not> expr_never_null C (sub_cxt sp) out))"

definition classify_notin_subplan ::
    "catalog \<Rightarrow> glob_cxt \<Rightarrow> subplan \<Rightarrow> expr \<Rightarrow> expr list \<Rightarrow> expr list \<Rightarrow> NotInShipForm" where
  "classify_notin_subplan C g sp lhs targets having =
     (if notin_prove_nullability C g sp lhs targets = (False, False) then NOTIN_SHIP_PLAIN
      else if \<not> groupClause (parse sp) \<and> having = [] \<and> \<not> hasAggs (parse sp) then NOTIN_SHIP_GUARDED
      else NOTIN_SHIP_NONE)"

section \<open>Soundness\<close>

lemma bsearch_iff:
  "sorted xs \<Longrightarrow> hi \<le> length xs \<Longrightarrow> bsearch key xs lo hi \<longleftrightarrow> (\<exists>i. lo \<le> i \<and> i < hi \<and> xs ! i = key)"
proof (induction key xs lo hi rule: bsearch.induct)
  case (1 key xs lo hi)
  show ?case
  proof (cases "lo < hi")
    case True
    define mid where "mid = (lo + hi) div 2"
    then have mid: "lo \<le> mid" "mid < hi" using True by auto
    then have nth: "i \<le> j \<Longrightarrow> j < hi \<Longrightarrow> xs ! i \<le> xs ! j" for i j
      using 1(3,4) by (simp add: sorted_iff_nth_mono)
    consider "key < xs ! mid" | "xs ! mid < key" | "xs ! mid = key" by fastforce
    then show ?thesis
    proof cases
      case 1
      then have "bsearch key xs lo hi = bsearch key xs lo mid"
        by (subst bsearch.simps) (simp add: True mid_def)
      moreover have "i < mid" if "i < hi" "xs ! i = key" for i
        using nth [of mid i] that 1 by (meson leD leI)
      ultimately show ?thesis
        using "1.IH"(1) [OF True mid_def 1 "1.prems"(1)] "1.prems"(2) mid by (auto intro: less_trans)
    next
      case 2
      then have "bsearch key xs lo hi = bsearch key xs (Suc mid) hi"
        by (subst bsearch.simps) (simp add: True mid_def Let_def less_not_sym)
      moreover have "Suc mid \<le> i" if "i < hi" "xs ! i = key" for i
        using nth [of i mid] that 2 mid by (meson leD not_less_eq_eq)
      moreover have "bsearch key xs (Suc mid) hi \<longleftrightarrow> (\<exists>i. Suc mid \<le> i \<and> i < hi \<and> xs ! i = key)"
        by (rule "1.IH"(2) [OF True mid_def less_not_sym [OF 2] 2 "1.prems"])
      moreover have "Suc mid \<le> i \<Longrightarrow> lo \<le> i" for i using mid(1) by simp
      ultimately show ?thesis by blast
    next
      case 3
      then have "bsearch key xs lo hi" by (subst bsearch.simps) (simp add: True mid_def Let_def)
      with 3 mid show ?thesis by blast
    qed
  qed (subst bsearch.simps, simp)
qed

lemma non_nullable_op_mem: "is_non_nullable_op C f \<longleftrightarrow> f \<in> set (never_null_opfuncs C)"
proof -
  let ?xs = "sort (never_null_opfuncs C)"
  have "is_non_nullable_op C f \<longleftrightarrow> (\<exists>i < length ?xs. ?xs ! i = f)"
    by (simp add: is_non_nullable_op_def sort_never_null_opfuncs_def Let_def bsearch_iff)
  also have "\<dots> \<longleftrightarrow> f \<in> set ?xs" by (simp only: in_set_conv_nth)
  finally show ?thesis by simp
qed

text \<open>
  What PostgreSQL guarantees: a row of a scope has no NULL in a column marked NOT NULL that
  no outer join has nulled, and the arithmetic functions of the table return a value (or
  raise) when no argument is NULL.
\<close>

definition row_ok :: "catalog \<Rightarrow> nat option \<Rightarrow> env \<Rightarrow> bool" where
  "row_ok C s e \<longleftrightarrow> (\<forall>v. varlevelsup v = 0 \<and> varattno v > 0 \<and> \<not> varnulled v
     \<and> attnotnull C s (varno v) (varattno v) \<longrightarrow> var_val e v \<noteq> None)"

definition arith_total :: "catalog \<Rightarrow> sql_params \<Rightarrow> bool" where
  "arith_total C F \<longleftrightarrow> (\<forall>op args. oprcode C op \<in> set (never_null_opfuncs C) \<and> None \<notin> set args
     \<longrightarrow> opfun F op args \<noteq> None)"

lemma None_notin_map: "(\<And>x. x \<in> set xs \<Longrightarrow> f x \<noteq> None) \<Longrightarrow> None \<notin> set (map f xs)"
  by (metis (no_types, lifting) imageE list.set_map)

lemma expr_never_null_sound:
  "expr_never_null C g x \<Longrightarrow> arith_total C F \<Longrightarrow> row_ok C (root g) e \<Longrightarrow> pg_eval F e x \<noteq> None"
proof (induction C g x rule: expr_never_null.induct)
  case (2 C g c)
  then show ?case by (cases c) auto
next
  case (3 C g v)
  then show ?case by (auto simp: row_ok_def split: if_splits)
next
  case (4 C g op args)
  then have "None \<notin> set (map (pg_eval F e) args)" by (intro None_notin_map) (auto simp: list_all_iff)
  moreover have "oprcode C op \<in> set (never_null_opfuncs C)" using 4(2) by (simp add: non_nullable_op_mem)
  ultimately have "opfun F op (map (pg_eval F e) args) \<noteq> None" using 4(3) unfolding arith_total_def by blast
  then show ?case by simp
qed simp_all

text \<open>What the classes of arrays promise about the array's elements.\<close>

lemma saop_array_nulls_sound:
  assumes "arith_total C F" and "row_ok C (root g) e"
  shows "saop_array_nulls C g arr = SAOP_ARR_EMPTY \<Longrightarrow> pg_eval F e arr = Some (VArr [])"
    and "saop_array_nulls C g arr = SAOP_ARR_NULL_FREE \<Longrightarrow>
      \<exists>xs. pg_eval F e arr = Some (VArr xs) \<and> None \<notin> set xs \<and> xs \<noteq> []"
proof -
  have never: "expr_never_null C g x \<Longrightarrow> pg_eval F e x \<noteq> None" for x
    using expr_never_null_sound assms by blast
  show "saop_array_nulls C g arr = SAOP_ARR_EMPTY \<Longrightarrow> pg_eval F e arr = Some (VArr [])"
    by (auto simp: saop_array_nulls_def split: expr.splits constval.splits if_splits)
  have map: "None \<notin> set (map (pg_eval F e) xs)" if "list_all (expr_never_null C g) xs" for xs
    using that never by (intro None_notin_map) (auto simp: list_all_iff)
  show "saop_array_nulls C g arr = SAOP_ARR_NULL_FREE \<Longrightarrow>
      \<exists>xs. pg_eval F e arr = Some (VArr xs) \<and> None \<notin> set xs \<and> xs \<noteq> []"
    using map by (auto simp: saop_array_nulls_def split: expr.splits constval.splits if_splits)
qed

text \<open>
  C39: The optimised search agrees with its reference: the binary search of the table that is
  sorted at load time finds exactly the functions that are listed in it.
\<close>

theorem is_non_nullable_op_is_membership:
  "is_non_nullable_op C f \<longleftrightarrow> f \<in> set (never_null_opfuncs C)"
  by (rule non_nullable_op_mem)

end
