(* ===== verification/Pushdown.thy ===== *)
theory Pushdown
  imports Nullness
begin

text \<open>
  Conditions that are evaluated by ClickHouse instead of PostgreSQL (\<open>src/deparse.c\<close>):
  the walker that decides which expressions may be sent (\<open>foreign_expr_walker\<close>,
  \<open>is_shippable_subplan\<close>, \<open>chfdw_is_foreign_expr\<close>, \<open>chfdw_classify_conditions\<close>) and the
  deparser that writes them (\<open>deparseExpr\<close> with its functions for the node types of
  \<open>Nodes\<close>, \<open>appendConditions\<close>).

  The text that the deparser appends is modelled as a tree \<open>ch\<close> whose constructors are the
  operators and templates of the text. ClickHouse's own functions are a parameter with their
  documented behaviour on NULL as hypotheses; columns, constants and operators have the same
  value on both sides. The answers of \<open>chfdw_is_shippable\<close>, the server version and the
  catalog are parameters, so what is shown holds for every one of their answers.
\<close>

section \<open>The walker\<close>

datatype ExprTruthCtx = EXPR_CTX_TRUTH | EXPR_CTX_NEGATED | EXPR_CTX_EXACT

abbreviation INTERVALOID :: Oid where "INTERVALOID \<equiv> 1186"

record walk =
  type_shippable :: "expr \<Rightarrow> bool"
  op_shippable :: "Oid \<Rightarrow> bool"
  server_version_ge :: "nat \<Rightarrow> nat \<Rightarrow> bool"
  server :: "Oid option"
  subroots :: nat

definition is_interval_param_op :: "catalog \<Rightarrow> Oid \<Rightarrow> expr list \<Rightarrow> bool" where
  "is_interval_param_op C op args = (case args of
       [_, Param _ _ m] \<Rightarrow> \<not> m \<and> (custom_operator C op = Some CF_DATETIME_PL_INTERVAL
                                  \<or> custom_operator C op = Some CF_DATETIME_MI_INTERVAL)
     | _ \<Rightarrow> False)"

fun contain_subplans :: "expr \<Rightarrow> bool" and contain_subplans_when :: "case_when \<Rightarrow> bool" where
  "contain_subplans (OpExpr op args) = list_ex contain_subplans args"
| "contain_subplans (ScalarArrayOpExpr op any x arr) = (contain_subplans x \<or> contain_subplans arr)"
| "contain_subplans (RelabelType x) = contain_subplans x"
| "contain_subplans (BoolExpr b args) = list_ex contain_subplans args"
| "contain_subplans (NullTest n x) = contain_subplans x"
| "contain_subplans (ArrayExpr m xs) = list_ex contain_subplans xs"
| "contain_subplans (CaseExpr i arg ws d) =
     ((case arg of None \<Rightarrow> False | Some x \<Rightarrow> contain_subplans x) \<or> list_ex contain_subplans_when ws
      \<or> (case d of None \<Rightarrow> False | Some x \<Rightarrow> contain_subplans x))"
| "contain_subplans (SubPlan sp lhs args targets junk quals having) = True"
| "contain_subplans _ = False"
| "contain_subplans_when (CaseWhen c r) = (contain_subplans c \<or> contain_subplans r)"

text \<open>The tests of \<open>is_shippable_subplan\<close> that do not walk an expression.\<close>

definition subplan_shape :: "walk \<Rightarrow> subplan \<Rightarrow> expr list \<Rightarrow> bool" where
  "subplan_shape W sp targets =
     (let q = parse sp
      in subLinkType sp \<in> {EXPR_SUBLINK, EXISTS_SUBLINK, ANY_SUBLINK}
         \<and> 0 < plan_id sp \<and> plan_id sp \<le> subroots W
         \<and> server W \<noteq> None
         \<and> \<not> (setOperations q \<or> cteList q \<or> windowClause q \<or> distinctClause q \<or> sortClause q
              \<or> limitOffset q \<or> limitCount q \<or> groupingSets q \<or> hasTargetSRFs q \<or> fromlist q = [])
         \<and> \<not> init_plans q
         \<and> (subLinkType sp = EXPR_SUBLINK \<longrightarrow> hasAggs q \<and> \<not> groupClause q)
         \<and> list_all (\<lambda>f. is_rangetblref f \<and> is_plain_foreign_table f \<and> Some (from_serverid f) = server W)
             (fromlist q)
         \<and> (subLinkType sp = EXPR_SUBLINK \<longrightarrow> length targets = 1))"

definition notin_gate ::
    "catalog \<Rightarrow> glob_cxt \<Rightarrow> ExprTruthCtx \<Rightarrow> subplan \<Rightarrow> expr \<Rightarrow> expr list \<Rightarrow> expr list \<Rightarrow> bool" where
  "notin_gate C g ctx sp lhs targets having \<longleftrightarrow>
     (subLinkType sp = ANY_SUBLINK \<and> ctx \<noteq> EXPR_CTX_TRUTH \<longrightarrow>
        (let form = classify_notin_subplan C g sp lhs targets having
         in if ctx = EXPR_CTX_NEGATED then form \<noteq> NOTIN_SHIP_NONE else form = NOTIN_SHIP_PLAIN))"

text \<open>
  \<open>foreign_expr_walker\<close>. An operator that is missing from the catalog, for which the code
  raises an error, is not accepted.
\<close>

fun foreign_expr_walker :: "catalog \<Rightarrow> walk \<Rightarrow> glob_cxt \<Rightarrow> ExprTruthCtx \<Rightarrow> expr \<Rightarrow> bool"
and walk_when :: "catalog \<Rightarrow> walk \<Rightarrow> glob_cxt \<Rightarrow> ExprTruthCtx \<Rightarrow> case_when \<Rightarrow> bool" where
  "foreign_expr_walker C W g ctx (Var v) =
     (((varno v \<in> set (relids g) \<and> varlevelsup v = 0 \<longrightarrow> 0 \<le> varattno v)
       \<and> (\<not> (varno v \<in> set (relids g) \<and> varlevelsup v = 0) \<longrightarrow> \<not> (varlevelsup v = 0 \<and> vartype v = INTERVALOID)))
      \<and> type_shippable W (Var v))"
| "foreign_expr_walker C W g ctx (Const c) = type_shippable W (Const c)"
| "foreign_expr_walker C W g ctx (Param i t m) =
     (\<not> m \<and> t \<noteq> INTERVALOID \<and> type_shippable W (Param i t m))"
| "foreign_expr_walker C W g ctx (OpExpr op args) =
     (op_shippable W op
      \<and> (if is_interval_param_op C op args
         then (case args of [] \<Rightarrow> True | x # _ \<Rightarrow> foreign_expr_walker C W g EXPR_CTX_EXACT x)
         else list_all (foreign_expr_walker C W g EXPR_CTX_EXACT) args
              \<and> (custom_operator C op = Some CF_VECTOR_NEG_IP \<longrightarrow> server_version_ge W 23 8))
      \<and> type_shippable W (OpExpr op args))"
| "foreign_expr_walker C W g ctx (ScalarArrayOpExpr op any x arr) =
     ((chfdw_is_equal_op C op = Inr CH_OP_EQ \<or> chfdw_is_equal_op C op = Inr CH_OP_NE)
      \<and> arr \<noteq> Const CNull
      \<and> foreign_expr_walker C W g EXPR_CTX_EXACT x \<and> foreign_expr_walker C W g EXPR_CTX_EXACT arr
      \<and> type_shippable W (ScalarArrayOpExpr op any x arr))"
| "foreign_expr_walker C W g ctx (RelabelType x) =
     (foreign_expr_walker C W g (if ctx = EXPR_CTX_NEGATED then EXPR_CTX_EXACT else ctx) x
      \<and> type_shippable W (RelabelType x))"
| "foreign_expr_walker C W g ctx (BoolExpr b args) =
     (list_all (foreign_expr_walker C W g
          (if b = NOT_EXPR then (if ctx = EXPR_CTX_TRUTH then EXPR_CTX_NEGATED else EXPR_CTX_EXACT)
           else if ctx = EXPR_CTX_NEGATED then EXPR_CTX_EXACT else ctx)) args
      \<and> type_shippable W (BoolExpr b args))"
| "foreign_expr_walker C W g ctx (NullTest n x) =
     (foreign_expr_walker C W g EXPR_CTX_EXACT x \<and> type_shippable W (NullTest n x))"
| "foreign_expr_walker C W g ctx (ArrayExpr m xs) =
     (list_all (foreign_expr_walker C W g EXPR_CTX_EXACT) xs \<and> type_shippable W (ArrayExpr m xs))"
| "foreign_expr_walker C W g ctx (CaseExpr i arg ws d) =
     ((case arg of None \<Rightarrow> True | Some x \<Rightarrow> foreign_expr_walker C W g EXPR_CTX_EXACT x)
      \<and> list_all (walk_when C W g ctx) ws
      \<and> (case d of None \<Rightarrow> True
         | Some x \<Rightarrow> foreign_expr_walker C W g (if ctx = EXPR_CTX_TRUTH then EXPR_CTX_TRUTH else EXPR_CTX_EXACT) x)
      \<and> type_shippable W (CaseExpr i arg ws d))"
| "foreign_expr_walker C W g ctx CaseTestExpr = type_shippable W CaseTestExpr"
| "foreign_expr_walker C W g ctx (SubPlan sp lhs args targets junk quals having) =
     (root g = None
      \<and> subplan_shape W sp targets
      \<and> \<not> list_ex contain_subplans (targets @ junk) \<and> \<not> list_ex contain_subplans quals
      \<and> \<not> list_ex contain_subplans having
      \<and> (subLinkType sp = ANY_SUBLINK \<longrightarrow>
           test_shape_ok sp \<and> chfdw_is_equal_op C (test_opno sp) = Inr CH_OP_EQ
           \<and> foreign_expr_walker C W g EXPR_CTX_EXACT lhs)
      \<and> list_all (foreign_expr_walker C W g EXPR_CTX_EXACT) args
      \<and> list_all (foreign_expr_walker C W (sub_cxt sp) EXPR_CTX_EXACT) targets
      \<and> list_all (foreign_expr_walker C W (sub_cxt sp) EXPR_CTX_EXACT) junk
      \<and> list_all (foreign_expr_walker C W (sub_cxt sp) EXPR_CTX_TRUTH) quals
      \<and> list_all (foreign_expr_walker C W (sub_cxt sp) EXPR_CTX_TRUTH) having
      \<and> notin_gate C g ctx sp lhs targets having
      \<and> server_version_ge W 25 8
      \<and> type_shippable W (SubPlan sp lhs args targets junk quals having))"
| "walk_when C W g ctx (CaseWhen c r) =
     (foreign_expr_walker C W g EXPR_CTX_TRUTH c
      \<and> foreign_expr_walker C W g (if ctx = EXPR_CTX_TRUTH then EXPR_CTX_TRUTH else EXPR_CTX_EXACT) r)"

definition chfdw_is_foreign_expr :: "catalog \<Rightarrow> walk \<Rightarrow> glob_cxt \<Rightarrow> bool \<Rightarrow> expr \<Rightarrow> bool" where
  "chfdw_is_foreign_expr C W g exact_ctx x =
     foreign_expr_walker C W g (if exact_ctx then EXPR_CTX_EXACT else EXPR_CTX_TRUTH) x"

text \<open>The remote and the local conditions.\<close>

definition chfdw_classify_conditions :: "catalog \<Rightarrow> walk \<Rightarrow> glob_cxt \<Rightarrow> expr list \<Rightarrow> expr list \<times> expr list" where
  "chfdw_classify_conditions C W g conds =
     (filter (chfdw_is_foreign_expr C W g False) conds,
      filter (\<lambda>x. \<not> chfdw_is_foreign_expr C W g False x) conds)"

section \<open>The deparser\<close>

fun pg_list :: "('a \<Rightarrow> 'b pg) \<Rightarrow> 'a list \<Rightarrow> 'b list pg" where
  "pg_list f [] = Inr []"
| "pg_list f (x # xs) = rbind (f x) (\<lambda>y. rbind (pg_list f xs) (\<lambda>ys. Inr (y # ys)))"

lemma pg_list_cong [fundef_cong]:
  "xs = ys \<Longrightarrow> (\<And>x. x \<in> set ys \<Longrightarrow> f x = g x) \<Longrightarrow> pg_list f xs = pg_list g ys"
  by (induction xs arbitrary: ys) auto

lemma pg_list_Inr: "pg_list f xs = Inr ys \<longleftrightarrow> list_all2 (\<lambda>x y. f x = Inr y) xs ys"
proof (induction xs arbitrary: ys)
  case Nil
  then show ?case by auto
next
  case (Cons x xs)
  then show ?case by (cases ys) (auto simp: rbind_Inr_iff)
qed

text \<open>\<open>is_ok_in_expr\<close>: a constant that is not an array without dimensions.\<close>

definition is_ok_in_expr :: "expr \<Rightarrow> bool" where
  "is_ok_in_expr x = (case x of
       Const (CArray vs) \<Rightarrow> vs \<noteq> [] | Const (CArrayNulls vs) \<Rightarrow> vs \<noteq> [] | Const _ \<Rightarrow> True
     | _ \<Rightarrow> False)"

definition deparseAsIn :: "CHEqualOp \<Rightarrow> ch \<Rightarrow> ch \<Rightarrow> ch" where
  "deparseAsIn optype p a = (if optype = CH_OP_EQ then ChIn p a else ChNotIn p a)"

definition deparseGuardedScalarArrayOp :: "bool \<Rightarrow> CHEqualOp \<Rightarrow> ch \<Rightarrow> ch \<Rightarrow> ch" where
  "deparseGuardedScalarArrayOp any optype p a =
     (let exhaustive_op = (if any then CH_OP_NE else CH_OP_EQ);
          match = (if optype \<noteq> exhaustive_op then ChGt (ChCountEqual a p) (ChNum 0)
                   else ChGt (ChMinus (ChMinus (ChLength a) (ChCountEqual a p)) (ChCountEqual a ChNull)) (ChNum 0))
      in ChParen (ChCase None
           [ChWhen (ChAnd [ChIsNull p, ChNotEmpty a]) ChNull,
            ChWhen match (ChBool any),
            ChWhen (ChGt (ChCountEqual a ChNull) (ChNum 0)) ChNull]
           (Some (ChBool (\<not> any)))))"

text \<open>\<open>deparseScalarArrayOpExpr\<close>, given the texts of its two arguments.\<close>

definition deparseScalarArrayOpExpr ::
    "catalog \<Rightarrow> glob_cxt \<Rightarrow> bool \<Rightarrow> CHEqualOp \<Rightarrow> bool \<Rightarrow> expr \<Rightarrow> expr \<Rightarrow> ch \<Rightarrow> ch \<Rightarrow> ch" where
  "deparseScalarArrayOpExpr C g truth_ctx optype any arg1 arg2 p a =
     (let nulls = saop_array_nulls C g arg2;
          cheap_ok = (nulls = SAOP_ARR_EMPTY \<or> (nulls = SAOP_ARR_NULL_FREE \<and> expr_never_null C g arg1))
      in if (nulls = SAOP_ARR_NULL_FREE \<or> (truth_ctx \<and> any \<and> optype = CH_OP_EQ))
            \<and> is_ok_in_expr arg2
            \<and> ((any \<and> optype = CH_OP_EQ) \<or> (\<not> any \<and> optype = CH_OP_NE))
         then ChParen (deparseAsIn optype p a)
         else if cheap_ok then
           ChParen (if any \<and> optype = CH_OP_EQ then ChHas a p
                    else if any then ChLt (ChCountEqual a p) (ChLength a)
                    else if optype = CH_OP_EQ then ChEqual (ChCountEqual a p) (ChLength a)
                    else ChEqual (ChCountEqual a p) (ChNum 0))
         else deparseGuardedScalarArrayOp any optype p a)"

text \<open>The null probe of a subquery: \<open>SELECT 1\<close> with the condition that the output is NULL.\<close>

fun null_probe :: "ch_query \<Rightarrow> ch_query" where
  "null_probe (ChSelect i targets quals np having gr) =
     ChSelect i [ChNum 1] quals (Some (ChIsNull (case targets of [] \<Rightarrow> ChNull | t # _ \<Rightarrow> t))) having gr"

definition deparseGuardedNotIn :: "bool \<times> bool \<Rightarrow> ch \<Rightarrow> ch_query \<Rightarrow> ch" where
  "deparseGuardedNotIn nulls p q =
     (let test = (if snd nulls then ChAnd [ChNotInQuery p q, ChNot (ChExists (null_probe q))]
                  else ChNotInQuery p q)
      in if fst nulls
         then ChParen (ChCase None [ChWhen (ChIsNull (ChParen p)) (ChNot (ChExists q))] (Some (ChParen test)))
         else ChParen test)"

definition not_supported :: "string \<Rightarrow> pg_error" where
  "not_supported m = Ereport ERRCODE_FEATURE_NOT_SUPPORTED m []"

definition is_const_null :: "expr \<Rightarrow> bool" where
  "is_const_null x \<longleftrightarrow> x = Const CNull"

text \<open>
  The functions for the node types, given what \<open>deparseExpr\<close> writes for the parts (or the
  error it raises).
\<close>

definition deparseSubPlanTargetList :: "subplan \<Rightarrow> ch list pg \<Rightarrow> ch list pg" where [simp]:
  "deparseSubPlanTargetList sp targets = (if subLinkType sp = EXISTS_SUBLINK then Inr [ChNum 1] else targets)"

definition deparseSubPlanQuery ::
    "subplan \<Rightarrow> bool \<Rightarrow> ch list pg \<Rightarrow> ch list pg \<Rightarrow> ch list pg \<Rightarrow> ch_query pg" where [simp]:
  "deparseSubPlanQuery sp gr targets quals having =
     rbind (deparseSubPlanTargetList sp targets) (\<lambda>ts.
     rbind quals (\<lambda>qs. rbind having (\<lambda>hs. Inr (ChSelect (plan_id sp) ts qs None hs gr))))"

definition deparseSubPlan :: "subplan \<Rightarrow> ch pg \<Rightarrow> ch_query pg \<Rightarrow> ch pg" where [simp]:
  "deparseSubPlan sp probe body = (case subLinkType sp of
       EXISTS_SUBLINK \<Rightarrow> rbind body (\<lambda>q. Inr (ChExists q))
     | EXPR_SUBLINK \<Rightarrow> rbind body (\<lambda>q. Inr (ChScalar q))
     | ANY_SUBLINK \<Rightarrow> rbind probe (\<lambda>p. rbind body (\<lambda>q. Inr (ChParen (ChInQuery p q))))
     | _ \<Rightarrow> Inl (not_supported ''pg_clickhouse: unsupported SubLink type for deparse''))"

definition deparseNot :: "catalog \<Rightarrow> glob_cxt \<Rightarrow> expr \<Rightarrow> ch \<Rightarrow> ch" where [simp]:
  "deparseNot C g arg c = (case (arg, c) of
       (SubPlan sp lhs as targets junk quals having, ChParen (ChInQuery p q)) \<Rightarrow>
         if classify_notin_subplan C g sp lhs targets having = NOTIN_SHIP_GUARDED
         then deparseGuardedNotIn (notin_prove_nullability C g sp lhs targets) p q
         else ChParen (ChNot c)
     | _ \<Rightarrow> ChParen (ChNot c))"

definition deparseBoolExpr :: "catalog \<Rightarrow> glob_cxt \<Rightarrow> BoolExprType \<Rightarrow> expr list \<Rightarrow> ch list pg \<Rightarrow> ch pg" where [simp]:
  "deparseBoolExpr C g b args texts = rbind texts (\<lambda>cs. case b of
       AND_EXPR \<Rightarrow> Inr (ChParen (ChAnd cs))
     | OR_EXPR \<Rightarrow> Inr (ChParen (ChOr cs))
     | NOT_EXPR \<Rightarrow> (case (args, cs) of
           (arg # _, c # _) \<Rightarrow> Inr (deparseNot C g arg c)
         | _ \<Rightarrow> Inl (not_supported ''NOT without an argument'')))"

definition deparseNullTest :: "bool \<Rightarrow> ch pg \<Rightarrow> ch pg" where [simp]:
  "deparseNullTest isnull arg = rbind arg (\<lambda>c. Inr (ChParen (if isnull then ChIsNull c else ChIsNotNull c)))"

definition deparseArrayExpr :: "ch list pg \<Rightarrow> ch pg" where [simp]:
  "deparseArrayExpr elements = rbind elements (\<lambda>cs. Inr (ChArray cs))"

definition deparseCaseExpr :: "ch option pg \<Rightarrow> ch_when list pg \<Rightarrow> ch option pg \<Rightarrow> ch pg" where [simp]:
  "deparseCaseExpr arg ws d = rbind arg (\<lambda>a. rbind ws (\<lambda>ws'. rbind d (\<lambda>d'. Inr (ChCase a ws' d'))))"

text \<open>\<open>DEPARSE_WRAPPED\<close>: the conversion around the results of a \<open>CASE\<close> of an integer type.\<close>

definition deparse_wrapped :: "bool \<Rightarrow> expr \<Rightarrow> ch \<Rightarrow> ch" where [simp]:
  "deparse_wrapped conv x c = (if conv \<and> \<not> is_const_null x then ChConv c else c)"

text \<open>
  The operators of \<open>deparseOpExpr\<close> that have a template of their own, which it writes before it
  looks for \<open>CaseTestExpr\<close>; the key of a JSON operator has to be a text constant.
\<close>

definition own_template :: "custom_object_type option \<Rightarrow> expr list \<Rightarrow> bool" where
  "own_template cdef args = (case cdef of None \<Rightarrow> False
     | Some ty \<Rightarrow> ty \<in> {CF_REGEX_MATCH, CF_REGEX_NO_MATCH, CF_REGEX_ICASE_MATCH, CF_REGEX_ICASE_NO_MATCH,
           CF_DATETIME_PL_INTERVAL, CF_DATETIME_MI_INTERVAL, CF_VECTOR_NEG_IP, CF_HSTORE_FETCHVAL,
           CF_ARRAY_CONTAINED_BY, CF_OPERATOR_FUNC}
         \<or> (ty = CF_JSON_FETCHVAL \<or> ty = CF_JSON_FETCHVAL_TEXT)
           \<and> (case args of [_, Const (CScalar (VStr _))] \<Rightarrow> True | _ \<Rightarrow> False))"

text \<open>
  \<open>correlation_arg\<close> and \<open>deparseParam\<close>: in the scope of a subquery, a parameter that stands for a
  correlation argument is written as that argument, in parentheses and in the scope around it.
\<close>

definition deparseParam :: "glob_cxt \<Rightarrow> nat \<Rightarrow> ch pg" where
  "deparseParam g i = (case if root g = None then None else outer_arg g i of
       Some outer \<Rightarrow> rbind outer (\<lambda>c. Inr (ChOuter c))
     | None \<Rightarrow> Inr (ChParam i))"

text \<open>
  \<open>deparseExpr\<close> with \<open>truth_ctx\<close> as an argument, which it restores after each node. The context
  of a subquery keeps the relations of the outer scan (\<open>scanrel\<close>) and resolves columns in its
  own scope, and correlation parameters in the scope around it.
\<close>

fun deparseExpr :: "catalog \<Rightarrow> glob_cxt \<Rightarrow> bool \<Rightarrow> expr \<Rightarrow> ch pg"
and deparse_when :: "catalog \<Rightarrow> glob_cxt \<Rightarrow> bool \<Rightarrow> bool \<Rightarrow> case_when \<Rightarrow> ch_when pg" where
  "deparseExpr C g t (Var v) = Inr (ChVar v)"
| "deparseExpr C g t (Const c) = Inr (ChConst c)"
| "deparseExpr C g t (Param i ty m) = deparseParam g i"
| "deparseExpr C g t (OpExpr op args) =
     (if custom_operator C op = Some CF_HSTORE_FETCHVAL \<and> (case args of Const _ # _ \<Rightarrow> False | _ \<Rightarrow> True)
      then Inl (not_supported ''pg_clickhouse supports hstore fetchval only for scalars'')
      else if own_template (custom_operator C op) args
      then rbind (pg_list (deparseExpr C g False) args) (\<lambda>cs. Inr (ChOp op cs))
      else (case args of
              [CaseTestExpr, v] \<Rightarrow> rbind (deparseExpr C g False v) (\<lambda>c. Inr (ChParen c))
            | _ \<Rightarrow> rbind (pg_list (deparseExpr C g False) args) (\<lambda>cs. Inr (ChOp op cs))))"
| "deparseExpr C g t (ScalarArrayOpExpr op any x arr) =
     rbind (chfdw_is_equal_op C op) (\<lambda>optype.
       if optype = CH_OP_NONE
       then Inl (not_supported ''pg_clickhouse supports only equal and not equal operations on ANY/ALL functions'')
       else rbind (deparseExpr C g False x) (\<lambda>p.
            rbind (deparseExpr C g False arr) (\<lambda>a.
              Inr (deparseScalarArrayOpExpr C g t optype any x arr p a))))"
| "deparseExpr C g t (RelabelType x) = deparseExpr C g t x"
| "deparseExpr C g t (BoolExpr b args) =
     deparseBoolExpr C g b args (pg_list (deparseExpr C g (t \<and> b \<noteq> NOT_EXPR)) args)"
| "deparseExpr C g t (NullTest n x) = deparseNullTest n (deparseExpr C g False x)"
| "deparseExpr C g t (ArrayExpr m xs) = deparseArrayExpr (pg_list (deparseExpr C g False) xs)"
| "deparseExpr C g t (CaseExpr i arg ws d) =
     deparseCaseExpr
       (case arg of None \<Rightarrow> Inr None | Some x \<Rightarrow> rbind (deparseExpr C g False x) (\<lambda>c. Inr (Some c)))
       (pg_list (deparse_when C g t i) ws)
       (case d of None \<Rightarrow> Inr None | Some x \<Rightarrow> rbind (deparseExpr C g t x) (\<lambda>c. Inr (Some (deparse_wrapped i x c))))"
| "deparseExpr C g t CaseTestExpr =
     Inl (Ereport ERRCODE_INTERNAL_ERROR ''unsupported expression type for deparse'' [])"
| "deparseExpr C g t (SubPlan sp lhs args targets junk quals having) =
     (let g' = g\<lparr>root := Some (plan_id sp), outer_arg := map_of (zip (parParam sp) (map (deparseExpr C g False) args))\<rparr>
      in deparseSubPlan sp (deparseExpr C g False lhs)
           (deparseSubPlanQuery sp (grouped sp having)
              (pg_list (deparseExpr C g' False) targets)
              (pg_list (deparseExpr C g' True) quals)
              (pg_list (deparseExpr C g' True) having)))"
| "deparse_when C g t i (CaseWhen c r) =
     rbind (deparseExpr C g True c) (\<lambda>c'.
     rbind (deparseExpr C g t r) (\<lambda>r'.
       Inr (ChWhen (case c of Var _ \<Rightarrow> ChIsOne c' | _ \<Rightarrow> c') (deparse_wrapped i r r'))))"

definition appendConditions :: "catalog \<Rightarrow> glob_cxt \<Rightarrow> expr list \<Rightarrow> ch pg" where
  "appendConditions C g conds =
     rbind (pg_list (deparseExpr C g True) conds) (\<lambda>cs. Inr (ChAnd (map ChParen cs)))"

section \<open>Evaluation by ClickHouse\<close>

text \<open>
  The functions of ClickHouse that the templates use. Their documented behaviour: with
  \<open>transform_null_in = 0\<close>, \<open>IN\<close> of a NULL probe is NULL (and never true for an empty set), and
  \<open>IN\<close> of another probe tests membership and ignores NULLs in the set; \<open>has\<close> and
  \<open>countEqual\<close> compare NULL as a value. \<open>enclosing\<close> are the rows of the queries around the one
  that is evaluated, the nearest first, in which the names of these queries are resolved.
\<close>

record ch_functions =
  f_in :: "sqlval \<Rightarrow> sqlval list \<Rightarrow> sqlval"
  f_notIn :: "sqlval \<Rightarrow> sqlval list \<Rightarrow> sqlval"
  f_has :: "sqlval \<Rightarrow> sqlval \<Rightarrow> sqlval"
  f_countEqual :: "sqlval \<Rightarrow> sqlval \<Rightarrow> sqlval"
  f_length :: "sqlval \<Rightarrow> sqlval"
  f_notEmpty :: "sqlval \<Rightarrow> sqlval"
  enclosing :: "env list"

definition documented :: "ch_functions \<Rightarrow> bool" where
  "documented S \<longleftrightarrow>
     (\<forall>v xs. f_in S (Some v) xs = Some (VBool (Some v \<in> set xs)))
   \<and> (\<forall>v xs. f_notIn S (Some v) xs = Some (VBool (Some v \<notin> set xs)))
   \<and> (\<forall>xs. xs \<noteq> [] \<longrightarrow> f_in S None xs = None \<and> f_notIn S None xs = None)
   \<and> f_in S None [] \<noteq> Some (VBool True)
   \<and> (\<forall>xs y. f_has S (Some (VArr xs)) y = Some (VBool (y \<in> set xs)))
   \<and> (\<forall>xs y. f_countEqual S (Some (VArr xs)) y = Some (VInt (int (count_list xs y))))
   \<and> (\<forall>xs. f_length S (Some (VArr xs)) = Some (VInt (int (length xs))))
   \<and> (\<forall>xs. f_notEmpty S (Some (VArr xs)) = Some (VBool (xs \<noteq> [])))"

definition elems :: "sqlval \<Rightarrow> sqlval list" where
  "elems x = (case x of Some (VArr xs) \<Rightarrow> xs | _ \<Rightarrow> [])"

definition int_op :: "(int \<Rightarrow> int \<Rightarrow> val) \<Rightarrow> sqlval \<Rightarrow> sqlval \<Rightarrow> sqlval" where
  "int_op f x y = (case (x, y) of (Some (VInt a), Some (VInt b)) \<Rightarrow> Some (f a b) | _ \<Rightarrow> None)"

fun ch_eval :: "sql_params \<Rightarrow> ch_functions \<Rightarrow> env \<Rightarrow> ch \<Rightarrow> sqlval"
and ch_eval_when :: "sql_params \<Rightarrow> ch_functions \<Rightarrow> env \<Rightarrow> sqlval option \<Rightarrow> ch_when \<Rightarrow> bool option \<times> sqlval"
and ch_rows :: "sql_params \<Rightarrow> ch_functions \<Rightarrow> env \<Rightarrow> ch_query \<Rightarrow> sqlval list" where
  "ch_eval F S e (ChVar v) = var_val e v"
| "ch_eval F S e (ChConst c) = const_value c"
| "ch_eval F S e (ChParam i) = param_val e i"
| "ch_eval F S e (ChOp op cs) = opfun F op (map (ch_eval F S e) cs)"
| "ch_eval F S e (ChParen c) = ch_eval F S e c"
| "ch_eval F S e ChNull = None"
| "ch_eval F S e (ChBool b) = Some (VBool b)"
| "ch_eval F S e (ChNum n) = Some (VInt n)"
| "ch_eval F S e (ChArray cs) = Some (VArr (map (ch_eval F S e) cs))"
| "ch_eval F S e (ChConv c) = ch_eval F S e c"
| "ch_eval F S e (ChIn p a) = f_in S (ch_eval F S e p) (elems (ch_eval F S e a))"
| "ch_eval F S e (ChNotIn p a) = f_notIn S (ch_eval F S e p) (elems (ch_eval F S e a))"
| "ch_eval F S e (ChHas a p) = f_has S (ch_eval F S e a) (ch_eval F S e p)"
| "ch_eval F S e (ChCountEqual a p) = f_countEqual S (ch_eval F S e a) (ch_eval F S e p)"
| "ch_eval F S e (ChLength a) = f_length S (ch_eval F S e a)"
| "ch_eval F S e (ChNotEmpty a) = f_notEmpty S (ch_eval F S e a)"
| "ch_eval F S e (ChMinus a b) = int_op (\<lambda>x y. VInt (x - y)) (ch_eval F S e a) (ch_eval F S e b)"
| "ch_eval F S e (ChGt a b) = int_op (\<lambda>x y. VBool (x > y)) (ch_eval F S e a) (ch_eval F S e b)"
| "ch_eval F S e (ChLt a b) = int_op (\<lambda>x y. VBool (x < y)) (ch_eval F S e a) (ch_eval F S e b)"
| "ch_eval F S e (ChEqual a b) = int_op (\<lambda>x y. VBool (x = y)) (ch_eval F S e a) (ch_eval F S e b)"
| "ch_eval F S e (ChIsOne c) = sql_bool (tv (ch_eval F S e c))"
| "ch_eval F S e (ChIsNull c) = Some (VBool (ch_eval F S e c = None))"
| "ch_eval F S e (ChIsNotNull c) = Some (VBool (ch_eval F S e c \<noteq> None))"
| "ch_eval F S e (ChAnd cs) = sql_bool (and3 (map (\<lambda>c. tv (ch_eval F S e c)) cs))"
| "ch_eval F S e (ChOr cs) = sql_bool (or3 (map (\<lambda>c. tv (ch_eval F S e c)) cs))"
| "ch_eval F S e (ChNot c) = sql_bool (not3 (tv (ch_eval F S e c)))"
| "ch_eval F S e (ChCase arg ws d) =
     case_value (map (ch_eval_when F S e (case arg of None \<Rightarrow> None | Some c \<Rightarrow> Some (ch_eval F S e c))) ws)
       (case d of None \<Rightarrow> None | Some c \<Rightarrow> ch_eval F S e c)"
| "ch_eval F S e (ChExists q) = Some (VBool (ch_rows F S e q \<noteq> []))"
| "ch_eval F S e (ChScalar q) = (case ch_rows F S e q of [] \<Rightarrow> None | x # _ \<Rightarrow> x)"
| "ch_eval F S e (ChInQuery p q) = f_in S (ch_eval F S e p) (ch_rows F S e q)"
| "ch_eval F S e (ChNotInQuery p q) = f_notIn S (ch_eval F S e p) (ch_rows F S e q)"
| "ch_eval F S e (ChOuter c) = (case enclosing S of [] \<Rightarrow> None | p # ps \<Rightarrow> ch_eval F (S\<lparr>enclosing := ps\<rparr>) p c)"
| "ch_eval_when F S e t (ChWhen c r) =
     (case t of None \<Rightarrow> tv (ch_eval F S e c) | Some x \<Rightarrow> eq3 x (ch_eval F S e c), ch_eval F S e r)"
| "ch_rows F S e (ChSelect i sel quals np having gr) =
     (let S' = S\<lparr>enclosing := e # enclosing S\<rparr>;
          rows = filter (\<lambda>r. list_all (\<lambda>q. tv (ch_eval F S' r q) = Some True) quals
                           \<and> (case np of None \<Rightarrow> True | Some c \<Rightarrow> tv (ch_eval F S' r c) = Some True))
                   (sub_rows e i);
          rows = (if gr then filter (\<lambda>r. list_all (\<lambda>q. tv (ch_eval F S' r q) = Some True) having)
                               (group_rows F i rows)
                  else rows)
      in map (\<lambda>r. case sel of [] \<Rightarrow> None | c # _ \<Rightarrow> ch_eval F S' r c) rows)"

section \<open>The IN family\<close>

text \<open>Comparing with the elements of an array, as OR and as AND, in terms of membership.\<close>

lemma or3_eq3:
  "or3 (map (eq3 x) xs) = (case x of
       None \<Rightarrow> if xs = [] then Some False else None
     | Some v \<Rightarrow> if Some v \<in> set xs then Some True else if None \<in> set xs then None else Some False)"
proof (cases x)
  case None
  then show ?thesis by (cases xs) (auto simp: or3_def eq3_def)
next
  case (Some v)
  have "Some True \<in> eq3 x ` set xs \<longleftrightarrow> Some v \<in> set xs"
    by (force simp: eq3_def Some split: option.splits)
  moreover have "None \<in> eq3 x ` set xs \<longleftrightarrow> None \<in> set xs"
    by (force simp: eq3_def Some split: option.splits)
  ultimately show ?thesis by (simp add: or3_def Some)
qed

lemma and3_eq3:
  "and3 (map (eq3 x) xs) = (case x of
       None \<Rightarrow> if xs = [] then Some True else None
     | Some v \<Rightarrow> if \<exists>e \<in> set xs. e \<noteq> None \<and> e \<noteq> Some v then Some False
                 else if None \<in> set xs then None else Some True)"
proof (cases x)
  case None
  then show ?thesis by (cases xs) (auto simp: and3_def eq3_def)
next
  case (Some v)
  have "Some False \<in> eq3 x ` set xs \<longleftrightarrow> (\<exists>e \<in> set xs. e \<noteq> None \<and> e \<noteq> Some v)"
    by (force simp: eq3_def Some split: option.splits)
  moreover have "None \<in> eq3 x ` set xs \<longleftrightarrow> None \<in> set xs"
    by (force simp: eq3_def Some split: option.splits)
  ultimately show ?thesis by (simp add: and3_def Some)
qed

lemma not3_mem: "None \<in> not3 ` A \<longleftrightarrow> None \<in> A" "Some b \<in> not3 ` A \<longleftrightarrow> Some (\<not> b) \<in> A"
proof -
  have "not3 x = None \<longleftrightarrow> x = None" for x by (cases x) (simp_all add: not3_def)
  then show "None \<in> not3 ` A \<longleftrightarrow> None \<in> A" by (metis imageE imageI)
  have "not3 x = Some b \<longleftrightarrow> x = Some (\<not> b)" for x by (cases x) (auto simp: not3_def)
  then show "Some b \<in> not3 ` A \<longleftrightarrow> Some (\<not> b) \<in> A" by (metis imageE imageI)
qed

lemma not3_or3: "or3 (map not3 bs) = not3 (and3 bs)"
  by (simp add: or3_def and3_def not3_mem)

lemma not3_and3: "and3 (map not3 bs) = not3 (or3 bs)"
  by (simp add: or3_def and3_def not3_mem)

lemma length_count:
  "v \<noteq> None \<Longrightarrow> length xs = count_list xs v + count_list xs None + length (filter (\<lambda>e. e \<noteq> None \<and> e \<noteq> v) xs)"
  by (induction xs) auto

lemma count_others:
  assumes "v \<noteq> None"
  shows "int (length xs) - int (count_list xs v) - int (count_list xs None) > 0 \<longleftrightarrow> (\<exists>e \<in> set xs. e \<noteq> None \<and> e \<noteq> v)"
proof -
  have "int (length xs) - int (count_list xs v) - int (count_list xs None) = int (length (filter (\<lambda>e. e \<noteq> None \<and> e \<noteq> v) xs))"
    using length_count [OF assms, of xs] by linarith
  then show ?thesis by (auto simp: filter_empty_conv)
qed

text \<open>The value of the comparison that the deparser translates, by the two operators.\<close>

definition saop3 :: "bool \<Rightarrow> CHEqualOp \<Rightarrow> sqlval \<Rightarrow> sqlval list \<Rightarrow> bool option" where
  "saop3 any optype x xs =
     (if any then or3 else and3) (map (\<lambda>e. if optype = CH_OP_EQ then eq3 x e else not3 (eq3 x e)) xs)"

lemma saop3_cases:
  "saop3 True CH_OP_EQ x xs = or3 (map (eq3 x) xs)"
  "saop3 False CH_OP_EQ x xs = and3 (map (eq3 x) xs)"
  "saop3 True CH_OP_NE x xs = not3 (and3 (map (eq3 x) xs))"
  "saop3 False CH_OP_NE x xs = not3 (or3 (map (eq3 x) xs))"
  by (simp_all add: saop3_def not3_or3 [symmetric] not3_and3 [symmetric] comp_def)

text \<open>The guarded form is exact for every probe and every array.\<close>

lemma guarded_saop_exact:
  assumes S: "documented S" and p: "ch_eval F S e p = x" and a: "ch_eval F S e a = Some (VArr xs)"
    and op: "optype \<noteq> CH_OP_NONE"
  shows "ch_eval F S e (deparseGuardedScalarArrayOp any optype p a) = sql_bool (saop3 any optype x xs)"
proof -
  note doc = S [unfolded documented_def]
  have ev: "ch_eval F S e (ChCountEqual a p) = Some (VInt (int (count_list xs x)))"
    "ch_eval F S e (ChCountEqual a ChNull) = Some (VInt (int (count_list xs None)))"
    "ch_eval F S e (ChLength a) = Some (VInt (int (length xs)))"
    "ch_eval F S e (ChNotEmpty a) = Some (VBool (xs \<noteq> []))"
    using doc p a by simp_all
  have nulls: "int (count_list xs None) > 0 \<longleftrightarrow> None \<in> set xs"
    by (metis count_list_0_iff int_nat_eq of_nat_0_less_iff not_gr_zero)
  have cnt: "int (count_list xs x) > 0 \<longleftrightarrow> x \<in> set xs"
    by (metis count_list_0_iff int_nat_eq of_nat_0_less_iff not_gr_zero)
  let ?ex = "if any then CH_OP_NE else CH_OP_EQ"
  have val: "ch_eval F S e (deparseGuardedScalarArrayOp any optype p a) =
     (if x = None \<and> xs \<noteq> [] then None
      else if (if optype \<noteq> ?ex then x \<in> set xs
               else int (length xs) - int (count_list xs x) - int (count_list xs None) > 0) then Some (VBool any)
      else if None \<in> set xs then None else Some (VBool (\<not> any)))"
    using ev p nulls cnt
    by (cases "xs = []") (simp_all add: deparseGuardedScalarArrayOp_def Let_def case_value_def int_op_def and3_def)
  have op: "optype = CH_OP_EQ \<or> optype = CH_OP_NE" using op by (cases optype) auto
  show ?thesis
  proof (cases x)
    case None
    then show ?thesis unfolding val using op
      by (cases any) (auto simp: saop3_cases or3_eq3 and3_eq3 sql_bool_def not3_def)
  next
    case (Some v)
    then have "int (length xs) - int (count_list xs x) - int (count_list xs None) > 0
        \<longleftrightarrow> (\<exists>e \<in> set xs. e \<noteq> None \<and> e \<noteq> Some v)"
      using count_others [of x xs] by simp
    then show ?thesis unfolding val using op Some
      by (cases any) (auto simp: saop3_cases or3_eq3 and3_eq3 sql_bool_def not3_def)
  qed
qed

lemma count_all: "None \<notin> set xs \<Longrightarrow> v \<noteq> None \<Longrightarrow>
    (int (count_list xs v) < int (length xs)) = (\<exists>e \<in> set xs. e \<noteq> None \<and> e \<noteq> v)
    \<and> (int (count_list xs v) = int (length xs)) = (\<not> (\<exists>e \<in> set xs. e \<noteq> None \<and> e \<noteq> v))"
proof -
  assume "None \<notin> set xs" and v: "v \<noteq> None"
  then have "count_list xs None = 0" by simp
  with count_others [OF v, of xs] count_le_length [of xs v] show ?thesis by auto
qed

text \<open>The cheap forms are exact for an empty array, and for a NULL-free array and probe.\<close>

lemma cheap_saop_exact:
  assumes S: "documented S" and p: "ch_eval F S e p = x" and a: "ch_eval F S e a = Some (VArr xs)"
    and ok: "xs = [] \<or> (None \<notin> set xs \<and> x \<noteq> None)" and op: "optype \<noteq> CH_OP_NONE"
  shows "ch_eval F S e (if any \<and> optype = CH_OP_EQ then ChHas a p
                    else if any then ChLt (ChCountEqual a p) (ChLength a)
                    else if optype = CH_OP_EQ then ChEqual (ChCountEqual a p) (ChLength a)
                    else ChEqual (ChCountEqual a p) (ChNum 0)) = sql_bool (saop3 any optype x xs)"
proof -
  note doc = S [unfolded documented_def]
  have ev: "ch_eval F S e (ChCountEqual a p) = Some (VInt (int (count_list xs x)))"
    "ch_eval F S e (ChLength a) = Some (VInt (int (length xs)))"
    "ch_eval F S e (ChHas a p) = Some (VBool (x \<in> set xs))"
    using doc p a by simp_all
  have op: "optype = CH_OP_EQ \<or> optype = CH_OP_NE" using op by (cases optype) auto
  from ok show ?thesis
  proof
    assume "xs = []"
    then show ?thesis using op ev
      by (cases any) (auto simp: saop3_cases or3_def and3_def sql_bool_def not3_def int_op_def)
  next
    assume nn: "None \<notin> set xs \<and> x \<noteq> None"
    then obtain v where v: "x = Some v" by blast
    define M where "M \<longleftrightarrow> x \<in> set xs"
    define D where "D \<longleftrightarrow> (\<exists>e \<in> set xs. e \<noteq> None \<and> e \<noteq> x)"
    have "or3 (map (eq3 x) xs) = Some M" "and3 (map (eq3 x) xs) = Some (\<not> D)"
      using nn v by (simp_all add: or3_eq3 and3_eq3 M_def D_def)
    moreover have "int (count_list xs x) < int (length xs) \<longleftrightarrow> D" "int (count_list xs x) = int (length xs) \<longleftrightarrow> \<not> D"
      "int (count_list xs x) = 0 \<longleftrightarrow> \<not> M"
      using count_all [of xs x] nn unfolding D_def M_def by (simp_all add: count_list_0_iff)
    moreover have "ch_eval F S e (ChHas a p) = Some (VBool M)" unfolding M_def by (rule ev)
    ultimately show ?thesis using op ev(1,2)
      by (cases any) (auto simp: saop3_cases sql_bool_def not3_def int_op_def simp del: of_nat_less_iff of_nat_eq_iff of_nat_eq_0_iff)
  qed
qed

text \<open>The native forms: exact on an array without NULL, right about truth for \<open>= ANY\<close> on every array.\<close>

lemma native_in_exact:
  assumes S: "documented S" and p: "ch_eval F S e p = x" and a: "ch_eval F S e a = Some (VArr xs)"
    and xs: "xs \<noteq> []" "None \<notin> set xs" and op: "(any \<and> optype = CH_OP_EQ) \<or> (\<not> any \<and> optype = CH_OP_NE)"
  shows "ch_eval F S e (deparseAsIn optype p a) = sql_bool (saop3 any optype x xs)"
proof (cases x)
  case None
  with S p a xs op show ?thesis
    by (auto simp: deparseAsIn_def documented_def elems_def saop3_cases or3_eq3 sql_bool_def not3_def)
next
  case (Some v)
  have "f_in S x xs = Some (VBool (x \<in> set xs))" "f_notIn S x xs = Some (VBool (x \<notin> set xs))"
    using S Some by (simp_all add: documented_def)
  with p a xs op Some show ?thesis
    by (auto simp: deparseAsIn_def elems_def saop3_cases or3_eq3 sql_bool_def not3_def)
qed

lemma in_true:
  assumes "documented S"
  shows "tv (f_in S x xs) = Some True \<longleftrightarrow> or3 (map (eq3 x) xs) = Some True"
proof (cases x)
  case None
  have "tv y = Some True \<longleftrightarrow> y = Some (VBool True)" for y by (auto simp: tv_def split: option.splits val.splits)
  with None assms show ?thesis by (cases "xs = []") (simp_all add: documented_def or3_eq3)
next
  case (Some v)
  with assms have "f_in S x xs = Some (VBool (x \<in> set xs))" by (simp add: documented_def)
  with Some show ?thesis by (simp add: or3_eq3)
qed

lemma in_exact:
  assumes "documented S" and "x \<noteq> None" and "None \<notin> set xs"
  shows "f_in S x xs = sql_bool (or3 (map (eq3 x) xs))"
  using assms by (auto simp: documented_def or3_eq3 sql_bool_def)

lemma null_probe_rows:
  "ch_rows F S e (null_probe (ChSelect i (t # ts) qs None hs False)) = []
    \<longleftrightarrow> None \<notin> set (ch_rows F S e (ChSelect i (t # ts) qs None hs False))"
proof -
  let ?T = "S\<lparr>enclosing := e # enclosing S\<rparr>"
  have "ch_rows F S e (null_probe (ChSelect i (t # ts) qs None hs False)) = []
      \<longleftrightarrow> (\<forall>r \<in> set (sub_rows e i). list_all (\<lambda>q. tv (ch_eval F ?T r q) = Some True) qs \<longrightarrow> ch_eval F ?T r t \<noteq> None)"
    by (simp add: Let_def filter_empty_conv)
  also have "\<dots> \<longleftrightarrow> None \<notin> set (ch_rows F S e (ChSelect i (t # ts) qs None hs False))"
    by (simp add: Let_def image_iff del: not_None_eq) metis
  finally show ?thesis .
qed

text \<open>The guarded \<open>NOT IN\<close> is true exactly when SQL's \<open>NOT IN\<close> is.\<close>

lemma guarded_notin_true:
  assumes S: "documented S" and p: "ch_eval F S e p = x"
    and q: "q = ChSelect i (t # ts) qs None hs False" and ys: "ch_rows F S e q = ys"
    and probe: "\<not> fst nulls \<Longrightarrow> x \<noteq> None" and out: "\<not> snd nulls \<Longrightarrow> None \<notin> set ys"
  shows "tv (ch_eval F S e (deparseGuardedNotIn nulls p q)) = Some True
    \<longleftrightarrow> not3 (or3 (map (eq3 x) ys)) = Some True"
proof (cases x)
  case None
  then have "fst nulls" using probe by blast
  with None p ys show ?thesis
    by (auto simp: deparseGuardedNotIn_def Let_def case_value_def or3_eq3 not3_True)
next
  case (Some v)
  have np: "ch_rows F S e (null_probe q) = [] \<longleftrightarrow> None \<notin> set ys"
    unfolding q using null_probe_rows ys q by metis
  have "f_notIn S x ys = Some (VBool (x \<notin> set ys))" using S Some by (simp add: documented_def)
  with Some p ys np out show ?thesis
    by (auto simp: deparseGuardedNotIn_def Let_def case_value_def or3_eq3 not3_True and3_def)
qed

section \<open>Soundness of the pushdown\<close>

text \<open>
  The expressions that parsing builds for \<open>CASE WHEN condition\<close>: no \<open>CASE\<close> has an argument,
  and \<open>CaseTestExpr\<close> does not occur.
\<close>

fun searched :: "expr \<Rightarrow> bool" and searched_when :: "case_when \<Rightarrow> bool" where
  "searched (OpExpr op args) = list_all searched args"
| "searched (ScalarArrayOpExpr op any x arr) = (searched x \<and> searched arr)"
| "searched (RelabelType x) = searched x"
| "searched (BoolExpr b args) = ((b = NOT_EXPR \<longrightarrow> length args = 1) \<and> list_all searched args)"
| "searched (NullTest n x) = searched x"
| "searched (ArrayExpr m xs) = list_all searched xs"
| "searched (CaseExpr i arg ws d) =
     (arg = None \<and> list_all searched_when ws \<and> (case d of None \<Rightarrow> True | Some x \<Rightarrow> searched x))"
| "searched CaseTestExpr = False"
| "searched (SubPlan sp lhs args targets junk quals having) =
     (searched lhs \<and> list_all searched args \<and> list_all searched targets \<and> (subLinkType sp = EXISTS_SUBLINK \<or> targets \<noteq> []) \<and> list_all searched quals \<and> list_all searched having)"
| "searched _ = True"
| "searched_when (CaseWhen c r) = (searched c \<and> searched r)"

text \<open>
  What an expression needs of the rows, each with its scope: an array operand is not NULL, and the
  parameters of a subquery have the values of its arguments.
\<close>

datatype need = ArrayOf expr | ArgsOf nat "(nat \<times> expr) list"

fun needs :: "nat option \<Rightarrow> expr \<Rightarrow> (nat option \<times> need) list"
and needs_when :: "nat option \<Rightarrow> case_when \<Rightarrow> (nat option \<times> need) list" where
  "needs s (OpExpr op args) = concat (map (needs s) args)"
| "needs s (ScalarArrayOpExpr op any x arr) = (s, ArrayOf arr) # needs s x @ needs s arr"
| "needs s (RelabelType x) = needs s x"
| "needs s (BoolExpr b args) = concat (map (needs s) args)"
| "needs s (NullTest n x) = needs s x"
| "needs s (ArrayExpr m xs) = concat (map (needs s) xs)"
| "needs s (CaseExpr i arg ws d) =
     concat (map (needs_when s) ws) @ (case d of None \<Rightarrow> [] | Some x \<Rightarrow> needs s x)"
| "needs s (SubPlan sp lhs args targets junk quals having) =
     (s, ArgsOf (plan_id sp) (zip (parParam sp) args)) # needs s lhs @ concat (map (needs s) args)
     @ concat (map (needs (Some (plan_id sp))) targets)
     @ concat (map (needs (Some (plan_id sp))) quals)
     @ concat (map (needs (Some (plan_id sp))) having)"
| "needs s _ = []"
| "needs_when s (CaseWhen c r) = needs s c @ needs s r"

text \<open>
  The rows that a query can meet, each with its scope: they respect the catalog, and contain
  the rows of subqueries and their groups. Operators named \<open>=\<close> and \<open><>\<close> compare as SQL does.
  An array column or parameter is not NULL, since ClickHouse has no NULL arrays.
\<close>

definition equality_ops :: "catalog \<Rightarrow> sql_params \<Rightarrow> bool" where
  "equality_ops C F \<longleftrightarrow>
     (\<forall>op x y. chfdw_is_equal_op C op = Inr CH_OP_EQ \<longrightarrow> tv (opfun F op [x, y]) = eq3 x y)
   \<and> (\<forall>op x y. chfdw_is_equal_op C op = Inr CH_OP_NE \<longrightarrow> tv (opfun F op [x, y]) = not3 (eq3 x y))"

definition rows_closed :: "catalog \<Rightarrow> sql_params \<Rightarrow> (nat option \<times> env) set \<Rightarrow> bool" where
  "rows_closed C F E \<longleftrightarrow>
     (\<forall>(s, e) \<in> E. row_ok C s e \<and> (\<forall>i. \<forall>r \<in> set (sub_rows e i). (Some i, r) \<in> E))
   \<and> (\<forall>i rs. (\<forall>r \<in> set rs. (Some i, r) \<in> E) \<longrightarrow> (\<forall>r \<in> set (group_rows F i rs). (Some i, r) \<in> E))"

definition pushdown_world ::
    "catalog \<Rightarrow> sql_params \<Rightarrow> ch_functions \<Rightarrow> (nat option \<times> env) set \<Rightarrow> bool" where
  "pushdown_world C F S E \<longleftrightarrow>
     documented S \<and> arith_total C F \<and> equality_ops C F \<and> rows_closed C F E
     \<and> (\<forall>op. custom_operator C op \<noteq> Some CF_HSTORE_FETCHVAL)"

text \<open>The rows that a subquery can meet for one row of the query around it, and their groups.\<close>

definition own_rows :: "sql_params \<Rightarrow> env \<Rightarrow> nat \<Rightarrow> env set" where
  "own_rows F e i = set (sub_rows e i) \<union> \<Union> {set (group_rows F i rs) |rs. set rs \<subseteq> set (sub_rows e i)}"

text \<open>
  \<open>ExecSetParamPlan\<close> and \<open>ExecScanSubPlan\<close> set the parameters of a subquery to the values of its
  arguments before they run it.
\<close>

definition need_met :: "sql_params \<Rightarrow> (nat option \<times> env) set \<Rightarrow> nat option \<Rightarrow> need \<Rightarrow> bool" where
  "need_met F E s n \<longleftrightarrow> (\<forall>e. (s, e) \<in> E \<longrightarrow> (case n of
       ArrayOf arr \<Rightarrow> \<exists>xs. pg_eval F e arr = Some (VArr xs)
     | ArgsOf i bs \<Rightarrow> \<forall>r \<in> own_rows F e i. \<forall>p x. map_of bs p = Some x \<longrightarrow> param_val r p = pg_eval F e x))"

definition inputs_ok :: "sql_params \<Rightarrow> (nat option \<times> env) set \<Rightarrow> nat option \<Rightarrow> expr \<Rightarrow> bool" where
  "inputs_ok F E s x \<longleftrightarrow> (\<forall>(s', n) \<in> set (needs s x). need_met F E s' n)"

text \<open>What holds in every scope; only in the outer one is a subquery accepted.\<close>

definition base_world ::
    "catalog \<Rightarrow> sql_params \<Rightarrow> ch_functions \<Rightarrow> (nat option \<times> env) set \<Rightarrow> bool" where
  "base_world C F S E \<longleftrightarrow>
     documented S \<and> arith_total C F \<and> equality_ops C F \<and> (\<forall>(s, e) \<in> E. row_ok C s e)
     \<and> (\<forall>op. custom_operator C op \<noteq> Some CF_HSTORE_FETCHVAL)"

lemma pushdown_world_base: "pushdown_world C F S E \<Longrightarrow> base_world C F S E"
  by (auto simp: pushdown_world_def base_world_def rows_closed_def)

lemma documented_enclosing [simp]: "documented (S\<lparr>enclosing := os\<rparr>) = documented S"
  by (simp add: documented_def)

text \<open>The text of a correlation parameter has its value.\<close>

definition corr_ok :: "sql_params \<Rightarrow> ch_functions \<Rightarrow> (nat option \<times> env) set \<Rightarrow> glob_cxt \<Rightarrow> bool" where
  "corr_ok F S E g \<longleftrightarrow> (root g \<noteq> None \<longrightarrow> (\<forall>i t. outer_arg g i = Some t \<longrightarrow>
     (\<exists>c. t = Inr c \<and> (\<forall>e. (root g, e) \<in> E \<longrightarrow> ch_eval F S e (ChOuter c) = param_val e i))))"

lemma param_text:
  assumes "corr_ok F S E g"
  shows "\<exists>c. deparseParam g i = Inr c \<and> (\<forall>e. (root g, e) \<in> E \<longrightarrow> ch_eval F S e c = param_val e i)"
proof (cases "if root g = None then None else outer_arg g i")
  case None
  then show ?thesis by (simp add: deparseParam_def)
next
  case (Some t)
  then have "root g \<noteq> None" "outer_arg g i = Some t" by (simp_all split: if_splits)
  with assms obtain c where "t = Inr c" "\<forall>e. (root g, e) \<in> E \<longrightarrow> ch_eval F S e (ChOuter c) = param_val e i"
    unfolding corr_ok_def by blast
  with Some show ?thesis by (simp add: deparseParam_def)
qed

definition agrees :: "ExprTruthCtx \<Rightarrow> sqlval \<Rightarrow> sqlval \<Rightarrow> bool" where
  "agrees ctx r p \<longleftrightarrow> (if ctx = EXPR_CTX_EXACT then r = p else tv r = Some True \<longleftrightarrow> tv p = Some True)"

lemma agrees_refl [simp]: "agrees ctx r r"
  by (simp add: agrees_def)

definition sound_at ::
    "catalog \<Rightarrow> walk \<Rightarrow> sql_params \<Rightarrow> ch_functions \<Rightarrow> (nat option \<times> env) set \<Rightarrow> glob_cxt \<Rightarrow> glob_cxt
      \<Rightarrow> ExprTruthCtx \<Rightarrow> bool \<Rightarrow> expr \<Rightarrow> bool" where
  "sound_at C W F S E g g' ctx t x \<longleftrightarrow>
     (foreign_expr_walker C W g ctx x \<longrightarrow>
       (\<exists>c. deparseExpr C g' t x = Inr c \<and> (\<forall>e. (root g, e) \<in> E \<longrightarrow> agrees ctx (ch_eval F S e c) (pg_eval F e x))))"

lemma sound_atI:
  assumes "foreign_expr_walker C W g ctx x \<Longrightarrow> \<exists>c. deparseExpr C g' t x = Inr c
      \<and> (\<forall>e. (root g, e) \<in> E \<longrightarrow> agrees ctx (ch_eval F S e c) (pg_eval F e x))"
  shows "sound_at C W F S E g g' ctx t x"
  using assms by (simp add: sound_at_def)

lemma sound_atE:
  assumes "sound_at C W F S E g g' ctx t x" and "foreign_expr_walker C W g ctx x"
  obtains c where "deparseExpr C g' t x = Inr c"
    and "\<And>e. (root g, e) \<in> E \<Longrightarrow> agrees ctx (ch_eval F S e c) (pg_eval F e x)"
  using assms by (auto simp: sound_at_def)

lemma list_sound:
  assumes "\<forall>y \<in> set ys. sound_at C W F S E g g' ctx t y" and "list_all (foreign_expr_walker C W g ctx) ys"
  obtains cs where "pg_list (deparseExpr C g' t) ys = Inr cs" and "length cs = length ys"
    and "\<And>i e. i < length ys \<Longrightarrow> (root g, e) \<in> E \<Longrightarrow> agrees ctx (ch_eval F S e (cs ! i)) (pg_eval F e (ys ! i))"
proof -
  from assms have "\<exists>cs. pg_list (deparseExpr C g' t) ys = Inr cs \<and> length cs = length ys
      \<and> (\<forall>i < length ys. \<forall>e. (root g, e) \<in> E \<longrightarrow> agrees ctx (ch_eval F S e (cs ! i)) (pg_eval F e (ys ! i)))"
  proof (induction ys)
    case (Cons y ys)
    then obtain cs where "pg_list (deparseExpr C g' t) ys = Inr cs" "length cs = length ys"
      "\<forall>i < length ys. \<forall>e. (root g, e) \<in> E \<longrightarrow> agrees ctx (ch_eval F S e (cs ! i)) (pg_eval F e (ys ! i))" by auto
    moreover from Cons obtain c where "deparseExpr C g' t y = Inr c"
      "\<And>e. (root g, e) \<in> E \<Longrightarrow> agrees ctx (ch_eval F S e c) (pg_eval F e y)" by (auto elim: sound_atE)
    ultimately show ?case by (intro exI [of _ "c # cs"]) (auto simp: nth_Cons split: nat.splits)
  qed simp
  then show thesis using that by blast
qed

lemma map_exact:
  assumes "length cs = length ys"
    and "\<And>i. i < length ys \<Longrightarrow> agrees EXPR_CTX_EXACT (ch_eval F S e (cs ! i)) (pg_eval F e (ys ! i))"
  shows "map (ch_eval F S e) cs = map (pg_eval F e) ys"
  using assms by (intro nth_equalityI) (auto simp: agrees_def)

lemma map_truth:
  assumes "length cs = length ys" and "ctx \<noteq> EXPR_CTX_EXACT"
    and "\<And>i. i < length ys \<Longrightarrow> agrees ctx (ch_eval F S e (cs ! i)) (pg_eval F e (ys ! i))"
  shows "(\<forall>c \<in> set cs. tv (ch_eval F S e c) = Some True) \<longleftrightarrow> (\<forall>y \<in> set ys. tv (pg_eval F e y) = Some True)"
    and "(\<exists>c \<in> set cs. tv (ch_eval F S e c) = Some True) \<longleftrightarrow> (\<exists>y \<in> set ys. tv (pg_eval F e y) = Some True)"
  using assms by (auto simp: agrees_def all_set_conv_all_nth in_set_conv_nth Bex_def; metis)+

lemma interval_param_args:
  assumes "is_interval_param_op C op args"
  obtains x i ty m where "args = [x, Param i ty m]"
proof (cases args)
  case (Cons x as)
  note Cons1 = Cons
  show thesis
  proof (cases as)
    case (Cons y bs)
    show thesis
    proof (cases bs)
      case Nil
      with Cons Cons1 assms that show thesis by (cases y) (auto simp: is_interval_param_op_def)
    qed (use Cons Cons1 assms in \<open>auto simp: is_interval_param_op_def split: expr.splits\<close>)
  qed (use Cons assms in \<open>simp add: is_interval_param_op_def\<close>)
qed (use assms in \<open>simp add: is_interval_param_op_def\<close>)

lemma no_case_test: "list_all searched args \<Longrightarrow> (case args of [CaseTestExpr, v] \<Rightarrow> a v | _ \<Rightarrow> b) = b"
  by (auto split: list.splits expr.splits)

lemma op_sound:
  assumes w: "base_world C F S E" and k: "corr_ok F S E g'" "root g' = root g" and ih: "\<forall>y \<in> set args. sound_at C W F S E g g' EXPR_CTX_EXACT False y"
    and s: "list_all searched args"
  shows "sound_at C W F S E g g' ctx t (OpExpr op args)"
proof (rule sound_atI)
  assume wk: "foreign_expr_walker C W g ctx (OpExpr op args)"
  have "\<exists>cs. pg_list (deparseExpr C g' False) args = Inr cs \<and> length cs = length args
      \<and> (\<forall>i e. i < length args \<and> (root g, e) \<in> E \<longrightarrow> ch_eval F S e (cs ! i) = pg_eval F e (args ! i))"
  proof (cases "is_interval_param_op C op args")
    case True
    then obtain x i ty m where args: "args = [x, Param i ty m]"
      by (rule interval_param_args)
    with wk True have "foreign_expr_walker C W g EXPR_CTX_EXACT x" by simp
    with ih args obtain c where "deparseExpr C g' False x = Inr c"
      and "\<And>e. (root g, e) \<in> E \<Longrightarrow> agrees EXPR_CTX_EXACT (ch_eval F S e c) (pg_eval F e x)"
      by (auto elim: sound_atE)
    moreover obtain d where "deparseParam g' i = Inr d"
      and "\<And>e. (root g, e) \<in> E \<Longrightarrow> ch_eval F S e d = param_val e i" using param_text [OF k(1), of i] k(2) by auto
    ultimately show ?thesis using args
      by (intro exI [of _ "[c, d]"]) (auto simp: agrees_def nth_Cons split: nat.splits)
  next
    case False
    with wk have "list_all (foreign_expr_walker C W g EXPR_CTX_EXACT) args" by simp
    with ih show ?thesis by (rule list_sound) (auto simp: agrees_def)
  qed
  then obtain cs where cs: "pg_list (deparseExpr C g' False) args = Inr cs" "length cs = length args"
    and ev: "\<And>i e. i < length args \<Longrightarrow> (root g, e) \<in> E \<Longrightarrow> ch_eval F S e (cs ! i) = pg_eval F e (args ! i)" by blast
  have "deparseExpr C g' t (OpExpr op args) = Inr (ChOp op cs)"
    using w cs(1) by (simp add: base_world_def no_case_test [OF s])
  moreover have "map (ch_eval F S e) cs = map (pg_eval F e) args" if "(root g, e) \<in> E" for e
    using cs(2) ev that by (intro map_exact) (auto simp: agrees_def)
  ultimately show "\<exists>c. deparseExpr C g' t (OpExpr op args) = Inr c
      \<and> (\<forall>e. (root g, e) \<in> E \<longrightarrow> agrees ctx (ch_eval F S e c) (pg_eval F e (OpExpr op args)))"
    by simp
qed

lemma saop_sound:
  assumes w: "base_world C F S E" and root: "root g' = root g"
    and ihx: "sound_at C W F S E g g' EXPR_CTX_EXACT False x"
    and iha: "sound_at C W F S E g g' EXPR_CTX_EXACT False arr"
    and arr: "\<And>e. (root g, e) \<in> E \<Longrightarrow> \<exists>xs. pg_eval F e arr = Some (VArr xs)"
    and t: "t \<Longrightarrow> ctx = EXPR_CTX_TRUTH"
  shows "sound_at C W F S E g g' ctx t (ScalarArrayOpExpr op any x arr)"
proof (rule sound_atI)
  assume wk: "foreign_expr_walker C W g ctx (ScalarArrayOpExpr op any x arr)"
  then obtain optype where op: "chfdw_is_equal_op C op = Inr optype" "optype \<noteq> CH_OP_NONE" by auto
  from ihx wk obtain p where p: "deparseExpr C g' False x = Inr p"
    and evp: "\<And>e. (root g, e) \<in> E \<Longrightarrow> ch_eval F S e p = pg_eval F e x"
    by (auto elim!: sound_atE simp: agrees_def)
  from iha wk obtain a where a: "deparseExpr C g' False arr = Inr a"
    and eva: "\<And>e. (root g, e) \<in> E \<Longrightarrow> ch_eval F S e a = pg_eval F e arr"
    by (auto elim!: sound_atE simp: agrees_def)
  let ?c = "deparseScalarArrayOpExpr C g' t optype any x arr p a"
  have doc: "documented S" and ar: "arith_total C F" using w by (auto simp: base_world_def)
  have "agrees ctx (ch_eval F S e ?c) (pg_eval F e (ScalarArrayOpExpr op any x arr))" if e: "(root g, e) \<in> E" for e
  proof -
    obtain xs where xs: "pg_eval F e arr = Some (VArr xs)" using arr [OF e] by blast
    have row: "row_ok C (root g') e" using w e root by (auto simp: base_world_def)
    have eqs: "tv (opfun F op [u, v]) = (if optype = CH_OP_EQ then eq3 u v else not3 (eq3 u v))" for u v
      using w op by (cases optype) (auto simp: base_world_def equality_ops_def)
    have pg: "pg_eval F e (ScalarArrayOpExpr op any x arr) = sql_bool (saop3 any optype (pg_eval F e x) xs)"
      using xs eqs by (simp add: saop_value_def saop3_def)
    have chp: "ch_eval F S e p = pg_eval F e x" and cha: "ch_eval F S e a = Some (VArr xs)"
      using evp eva xs e by auto
    let ?N = "(saop_array_nulls C g' arr = SAOP_ARR_NULL_FREE \<or> (t \<and> any \<and> optype = CH_OP_EQ))
        \<and> is_ok_in_expr arr \<and> ((any \<and> optype = CH_OP_EQ) \<or> (\<not> any \<and> optype = CH_OP_NE))"
    let ?K = "saop_array_nulls C g' arr = SAOP_ARR_EMPTY
        \<or> (saop_array_nulls C g' arr = SAOP_ARR_NULL_FREE \<and> expr_never_null C g' x)"
    let ?cheap = "if any \<and> optype = CH_OP_EQ then ChHas a p
                  else if any then ChLt (ChCountEqual a p) (ChLength a)
                  else if optype = CH_OP_EQ then ChEqual (ChCountEqual a p) (ChLength a)
                  else ChEqual (ChCountEqual a p) (ChNum 0)"
    have "?c = (if ?N then ChParen (deparseAsIn optype p a)
                else if ?K then ChParen ?cheap else deparseGuardedScalarArrayOp any optype p a)"
      by (simp only: deparseScalarArrayOpExpr_def Let_def)
    then consider (native) "?N" "ch_eval F S e ?c = ch_eval F S e (deparseAsIn optype p a)"
      | (cheap) "?K" "ch_eval F S e ?c = ch_eval F S e ?cheap"
      | (guarded) "?c = deparseGuardedScalarArrayOp any optype p a"
      by (metis ch_eval.simps(5))
    then show ?thesis
    proof cases
      case native
      show ?thesis
      proof (cases "saop_array_nulls C g' arr = SAOP_ARR_NULL_FREE")
        case True
        with saop_array_nulls_sound(2) [OF ar row, of arr] xs have "None \<notin> set xs" "xs \<noteq> []" by auto
        with native_in_exact [OF doc chp cha, of any optype] native pg show ?thesis by simp
      next
        case False
        with native have "t" and o: "any" "optype = CH_OP_EQ" by auto
        with t have "ctx = EXPR_CTX_TRUTH" by blast
        moreover have "ch_eval F S e ?c = f_in S (pg_eval F e x) xs"
          using native(2) o chp cha by (simp add: deparseAsIn_def elems_def)
        ultimately show ?thesis using in_true [OF doc] pg o by (simp add: agrees_def saop3_cases)
      qed
    next
      case cheap
      have "xs = [] \<or> (None \<notin> set xs \<and> pg_eval F e x \<noteq> None)"
        using cheap(1) saop_array_nulls_sound [OF ar row, of arr] expr_never_null_sound [OF _ ar row, of x] xs
        by auto
      from cheap_saop_exact [OF doc chp cha this op(2)] cheap(2) pg show ?thesis by simp
    next
      case guarded
      with guarded_saop_exact [OF doc chp cha op(2)] pg show ?thesis by simp
    qed
  qed
  moreover have "deparseExpr C g' t (ScalarArrayOpExpr op any x arr) = Inr ?c" using op p a by simp
  ultimately show "\<exists>c. deparseExpr C g' t (ScalarArrayOpExpr op any x arr) = Inr c
      \<and> (\<forall>e. (root g, e) \<in> E \<longrightarrow> agrees ctx (ch_eval F S e c) (pg_eval F e (ScalarArrayOpExpr op any x arr)))"
    by blast
qed

lemma bool_sound:
  assumes b: "b \<noteq> NOT_EXPR" and ctx: "(ctx, t) \<in> {(EXPR_CTX_EXACT, False), (EXPR_CTX_TRUTH, True)}"
    and ih: "\<forall>y \<in> set args. sound_at C W F S E g g' ctx t y"
  shows "sound_at C W F S E g g' ctx t (BoolExpr b args)"
proof (rule sound_atI)
  assume wk: "foreign_expr_walker C W g ctx (BoolExpr b args)"
  with b ctx have "list_all (foreign_expr_walker C W g ctx) args" by auto
  with ih obtain cs where cs: "pg_list (deparseExpr C g' t) args = Inr cs" "length cs = length args"
    and ev: "\<And>i e. i < length args \<Longrightarrow> (root g, e) \<in> E \<Longrightarrow> agrees ctx (ch_eval F S e (cs ! i)) (pg_eval F e (args ! i))"
    by (rule list_sound) blast
  let ?c = "if b = AND_EXPR then ChAnd cs else ChOr cs"
  have c: "deparseExpr C g' t (BoolExpr b args) = Inr (ChParen ?c)" using b cs(1) by (cases b) simp_all
  have "agrees ctx (ch_eval F S e ?c) (pg_eval F e (BoolExpr b args))" if e: "(root g, e) \<in> E" for e
  proof (cases "ctx = EXPR_CTX_EXACT")
    case True
    with map_exact [OF cs(2)] ev e have "map tv (map (ch_eval F S e) cs) = map tv (map (pg_eval F e) args)" by metis
    then have "map (\<lambda>c. tv (ch_eval F S e c)) cs = map (\<lambda>c. tv (pg_eval F e c)) args" by (simp add: comp_def)
    with b True show ?thesis by (cases b) (simp_all add: agrees_def)
  next
    case False
    note truth = map_truth [OF cs(2) False ev [OF _ e]]
    from b consider "b = AND_EXPR" | "b = OR_EXPR" by (cases b) simp_all
    then show ?thesis
      by cases (simp_all add: agrees_def False and3_map_True or3_map_True truth)
  qed
  with c show "\<exists>c. deparseExpr C g' t (BoolExpr b args) = Inr c
      \<and> (\<forall>e. (root g, e) \<in> E \<longrightarrow> agrees ctx (ch_eval F S e c) (pg_eval F e (BoolExpr b args)))"
    by (intro exI [of _ "ChParen ?c"]) simp
qed

text \<open>
  Under NOT, what the walker accepts as NEGATED it accepts as EXACT, except for the subquery
  that is written in the guarded form.
\<close>

definition guarded_any :: "catalog \<Rightarrow> glob_cxt \<Rightarrow> expr \<Rightarrow> bool" where
  "guarded_any C g x = (case x of
       SubPlan sp lhs args targets junk quals having \<Rightarrow>
         subLinkType sp = ANY_SUBLINK \<and> classify_notin_subplan C g sp lhs targets having = NOTIN_SHIP_GUARDED
     | _ \<Rightarrow> False)"

lemma walker_negated:
  assumes "foreign_expr_walker C W g EXPR_CTX_NEGATED x" and "\<not> guarded_any C g x"
  shows "foreign_expr_walker C W g EXPR_CTX_EXACT x"
proof (cases x)
  case (CaseExpr i arg ws d)
  have "walk_when C W g EXPR_CTX_NEGATED w = walk_when C W g EXPR_CTX_EXACT w" for w by (cases w) simp
  then have "walk_when C W g EXPR_CTX_NEGATED = walk_when C W g EXPR_CTX_EXACT" by blast
  with assms CaseExpr show ?thesis by (simp split: option.splits)
next
  case (Param i ty m)
  with assms show ?thesis by auto
next
  case (SubPlan sp lhs args targets junk quals having)
  with assms show ?thesis
    by (cases "classify_notin_subplan C g sp lhs targets having")
       (auto simp: notin_gate_def guarded_any_def Let_def)
qed (use assms in \<open>simp_all add: guarded_any_def split: if_splits\<close>)

text \<open>The rows of a subquery: both sides select, group and filter the same ones.\<close>

definition pg_rows :: "sql_params \<Rightarrow> env \<Rightarrow> subplan \<Rightarrow> expr list \<Rightarrow> expr list \<Rightarrow> env list" where
  "pg_rows F e sp quals having =
     (let rows = filter (\<lambda>r. list_all (\<lambda>q. tv (pg_eval F r q) = Some True) quals) (sub_rows e (plan_id sp))
      in if grouped sp having
         then filter (\<lambda>r. list_all (\<lambda>q. tv (pg_eval F r q) = Some True) having) (group_rows F (plan_id sp) rows)
         else rows)"

lemma own_rowsI:
  "r \<in> set (sub_rows e i) \<Longrightarrow> r \<in> own_rows F e i"
  "r \<in> set (group_rows F i (filter f (sub_rows e i))) \<Longrightarrow> r \<in> own_rows F e i"
proof -
  show "r \<in> own_rows F e i" if "r \<in> set (group_rows F i (filter f (sub_rows e i)))"
    unfolding own_rows_def using that by (intro UnI2 UnionI [OF CollectI]) auto
qed (simp add: own_rows_def)

lemma pg_rows_own: "r \<in> set (pg_rows F e sp quals having) \<Longrightarrow> r \<in> own_rows F e (plan_id sp)"
  by (auto simp: pg_rows_def Let_def intro: own_rowsI split: if_splits)

lemma own_rows_closed:
  assumes "rows_closed C F E" and "(s, e) \<in> E" and "r \<in> own_rows F e i"
  shows "(Some i, r) \<in> E"
proof -
  have sub: "(Some i, r) \<in> E" if "r \<in> set (sub_rows e i)" for r
    using assms(1,2) that by (auto simp: rows_closed_def)
  have "(Some i, r) \<in> E" if "r \<in> set (group_rows F i rs)" "set rs \<subseteq> set (sub_rows e i)" for r rs
    using assms(1) sub that unfolding rows_closed_def by blast
  with assms(3) sub show ?thesis by (auto simp: own_rows_def)
qed

lemma list_all_truth:
  assumes "list_all2 (\<lambda>y c. tv (f c) = Some True \<longleftrightarrow> tv (g y) = Some True) ys cs"
  shows "list_all (\<lambda>c. tv (f c) = Some True) cs = list_all (\<lambda>y. tv (g y) = Some True) ys"
  using assms by (induction rule: list_all2_induct) auto

abbreviation inside :: "ch_functions \<Rightarrow> env \<Rightarrow> ch_functions" where
  "inside S e \<equiv> S\<lparr>enclosing := e # enclosing S\<rparr>"

lemma ch_rows_eq:
  assumes quals: "\<And>r. r \<in> own_rows F e (plan_id sp) \<Longrightarrow>
      list_all2 (\<lambda>y c. tv (ch_eval F (inside S e) r c) = Some True \<longleftrightarrow> tv (pg_eval F r y) = Some True) quals qs"
    and having: "\<And>r. r \<in> own_rows F e (plan_id sp) \<Longrightarrow>
      list_all2 (\<lambda>y c. tv (ch_eval F (inside S e) r c) = Some True \<longleftrightarrow> tv (pg_eval F r y) = Some True) having hs"
  shows "ch_rows F S e (ChSelect (plan_id sp) sel qs None hs (grouped sp having))
    = map (\<lambda>r. case sel of [] \<Rightarrow> None | c # _ \<Rightarrow> ch_eval F (inside S e) r c) (pg_rows F e sp quals having)"
proof -
  let ?i = "plan_id sp"
  let ?f = "filter (\<lambda>r. list_all (\<lambda>q. tv (ch_eval F (inside S e) r q) = Some True) qs) (sub_rows e ?i)"
  have sub: "r \<in> own_rows F e ?i" if "r \<in> set (sub_rows e ?i)" for r
    using that by (simp add: own_rows_def)
  have f: "?f = filter (\<lambda>r. list_all (\<lambda>q. tv (pg_eval F r q) = Some True) quals) (sub_rows e ?i)"
    by (rule filter_cong [OF refl]) (use sub quals list_all_truth in blast)
  have "set ?f \<subseteq> set (sub_rows e ?i)" by auto
  then have grp: "r \<in> own_rows F e ?i" if "r \<in> set (group_rows F ?i ?f)" for r
    using that unfolding own_rows_def by blast
  have "filter (\<lambda>r. list_all (\<lambda>q. tv (ch_eval F (inside S e) r q) = Some True) hs) (group_rows F ?i ?f)
      = filter (\<lambda>r. list_all (\<lambda>q. tv (pg_eval F r q) = Some True) having) (group_rows F ?i ?f)"
    by (rule filter_cong [OF refl]) (use grp having list_all_truth in blast)
  with f show ?thesis by (simp add: pg_rows_def Let_def)
qed

lemma list_truth:
  assumes "\<forall>y \<in> set ys. sound_at C W F S E g g' EXPR_CTX_TRUTH True y"
    and "list_all (foreign_expr_walker C W g EXPR_CTX_TRUTH) ys"
  obtains cs where "pg_list (deparseExpr C g' True) ys = Inr cs"
    and "\<And>e. (root g, e) \<in> E \<Longrightarrow>
      list_all2 (\<lambda>y c. tv (ch_eval F S e c) = Some True \<longleftrightarrow> tv (pg_eval F e y) = Some True) ys cs"
  using assms by (rule list_sound) (auto simp: list_all2_conv_all_nth agrees_def intro: that)

lemma list_exact:
  assumes "\<forall>y \<in> set ys. sound_at C W F S E g g' EXPR_CTX_EXACT False y"
    and "list_all (foreign_expr_walker C W g EXPR_CTX_EXACT) ys"
  obtains cs where "pg_list (deparseExpr C g' False) ys = Inr cs" and "length cs = length ys"
    and "\<And>e. (root g, e) \<in> E \<Longrightarrow> map (ch_eval F S e) cs = map (pg_eval F e) ys"
  using assms by (rule list_sound) (auto intro: that map_exact)

text \<open>
  The scopes in which the body of a subquery is evaluated: one for each row of the query around it,
  and one without rows, in which the body is written all the same.
\<close>

definition sub_scope ::
    "sql_params \<Rightarrow> ch_functions \<Rightarrow> (nat option \<times> env) set \<Rightarrow> nat \<Rightarrow> ch_functions \<Rightarrow> (nat option \<times> env) set \<Rightarrow> bool" where
  "sub_scope F S E i S' E' \<longleftrightarrow>
     S' = S \<and> E' = {} \<or> (\<exists>e. (None, e) \<in> E \<and> S' = inside S e \<and> E' = Pair (Some i) ` own_rows F e i)"

lemma sub_scopeI: "(None, e) \<in> E \<Longrightarrow> sub_scope F S E i (inside S e) (Pair (Some i) ` own_rows F e i)" "sub_scope F S E i S {}"
  by (auto simp: sub_scope_def)

lemma sub_list_truth:
  assumes ih: "\<And>S' E'. sub_scope F S E i S' E' \<Longrightarrow> \<forall>y \<in> set ys. sound_at C W F S' E' g g' EXPR_CTX_TRUTH True y"
    and wk: "list_all (foreign_expr_walker C W g EXPR_CTX_TRUTH) ys" and root: "root g = Some i"
  obtains cs where "pg_list (deparseExpr C g' True) ys = Inr cs"
    and "\<And>e r. (None, e) \<in> E \<Longrightarrow> r \<in> own_rows F e i \<Longrightarrow>
      list_all2 (\<lambda>y c. tv (ch_eval F (inside S e) r c) = Some True \<longleftrightarrow> tv (pg_eval F r y) = Some True) ys cs"
proof -
  obtain cs where cs: "pg_list (deparseExpr C g' True) ys = Inr cs"
    using list_truth [OF ih [OF sub_scopeI(2)] wk] by blast
  have "list_all2 (\<lambda>y c. tv (ch_eval F (inside S e) r c) = Some True \<longleftrightarrow> tv (pg_eval F r y) = Some True) ys cs"
    if "(None, e) \<in> E" "r \<in> own_rows F e i" for e r
    by (rule list_truth [OF ih [OF sub_scopeI(1) [OF that(1)]] wk]) (use cs root that(2) in auto)
  with cs that show thesis by blast
qed

lemma sub_list_exact:
  assumes ih: "\<And>S' E'. sub_scope F S E i S' E' \<Longrightarrow> \<forall>y \<in> set ys. sound_at C W F S' E' g g' EXPR_CTX_EXACT False y"
    and wk: "list_all (foreign_expr_walker C W g EXPR_CTX_EXACT) ys" and root: "root g = Some i"
  obtains cs where "pg_list (deparseExpr C g' False) ys = Inr cs" and "length cs = length ys"
    and "\<And>e r. (None, e) \<in> E \<Longrightarrow> r \<in> own_rows F e i \<Longrightarrow> map (ch_eval F (inside S e) r) cs = map (pg_eval F r) ys"
proof -
  obtain cs where cs: "pg_list (deparseExpr C g' False) ys = Inr cs" "length cs = length ys"
    using list_exact [OF ih [OF sub_scopeI(2)] wk] by blast
  have "map (ch_eval F (inside S e) r) cs = map (pg_eval F r) ys" if "(None, e) \<in> E" "r \<in> own_rows F e i" for e r
    by (rule list_exact [OF ih [OF sub_scopeI(1) [OF that(1)]] wk]) (use cs root that(2) in auto)
  with cs that show thesis by blast
qed

text \<open>The body of a subquery, and its rows.\<close>

definition subplan_cxt :: "catalog \<Rightarrow> glob_cxt \<Rightarrow> subplan \<Rightarrow> expr list \<Rightarrow> glob_cxt" where
  "subplan_cxt C g sp args =
     g\<lparr>root := Some (plan_id sp), outer_arg := map_of (zip (parParam sp) (map (deparseExpr C g False) args))\<rparr>"

definition subplan_body :: "catalog \<Rightarrow> glob_cxt \<Rightarrow> subplan \<Rightarrow> expr list \<Rightarrow> expr list \<Rightarrow> expr list \<Rightarrow> ch_query pg" where
  "subplan_body C g' sp targets quals having =
     deparseSubPlanQuery sp (grouped sp having) (pg_list (deparseExpr C g' False) targets)
       (pg_list (deparseExpr C g' True) quals) (pg_list (deparseExpr C g' True) having)"

definition subplan_sound_parts ::
    "catalog \<Rightarrow> walk \<Rightarrow> sql_params \<Rightarrow> ch_functions \<Rightarrow> (nat option \<times> env) set \<Rightarrow> glob_cxt
      \<Rightarrow> subplan \<Rightarrow> expr list \<Rightarrow> expr list \<Rightarrow> expr list \<Rightarrow> expr list \<Rightarrow> bool" where
  "subplan_sound_parts C W F S E g sp args targets quals having \<longleftrightarrow>
     (list_all (foreign_expr_walker C W g EXPR_CTX_EXACT) args \<longrightarrow> (\<forall>S' E'. sub_scope F S E (plan_id sp) S' E' \<longrightarrow>
        (\<forall>y \<in> set targets. sound_at C W F S' E' (sub_cxt sp) (subplan_cxt C g sp args) EXPR_CTX_EXACT False y)
      \<and> (\<forall>y \<in> set (quals @ having). sound_at C W F S' E' (sub_cxt sp) (subplan_cxt C g sp args) EXPR_CTX_TRUTH True y)))"

lemma subplan_parts:
  assumes wk: "foreign_expr_walker C W g ctx (SubPlan sp lhs args targets junk quals having)"
    and ih: "subplan_sound_parts C W F S E g sp args targets quals having"
  obtains sel qs hs where
    "subplan_body C (subplan_cxt C g sp args) sp targets quals having
       = Inr (ChSelect (plan_id sp) sel qs None hs (grouped sp having))"
    "length sel = (if subLinkType sp = EXISTS_SUBLINK then 1 else length targets)"
    "\<And>e. (None, e) \<in> E \<Longrightarrow> subLinkType sp \<noteq> EXISTS_SUBLINK \<Longrightarrow> targets \<noteq> [] \<Longrightarrow>
       ch_rows F S e (ChSelect (plan_id sp) sel qs None hs (grouped sp having))
         = map (\<lambda>r. pg_eval F r (hd targets)) (pg_rows F e sp quals having)"
    "\<And>e. (None, e) \<in> E \<Longrightarrow> (ch_rows F S e (ChSelect (plan_id sp) sel qs None hs (grouped sp having)) = [])
       = (pg_rows F e sp quals having = [])"
proof -
  let ?g = "subplan_cxt C g sp args" and ?i = "plan_id sp"
  have sc: "root (sub_cxt sp) = Some ?i" by (simp add: sub_cxt_def)
  have wt: "list_all (foreign_expr_walker C W (sub_cxt sp) EXPR_CTX_EXACT) targets"
    and wq: "list_all (foreign_expr_walker C W (sub_cxt sp) EXPR_CTX_TRUTH) quals"
    and wh: "list_all (foreign_expr_walker C W (sub_cxt sp) EXPR_CTX_TRUTH) having"
    and wa: "list_all (foreign_expr_walker C W g EXPR_CTX_EXACT) args" using wk by simp_all
  note parts = ih [unfolded subplan_sound_parts_def, rule_format, OF wa]
  have iht: "\<forall>y \<in> set targets. sound_at C W F S' E' (sub_cxt sp) ?g EXPR_CTX_EXACT False y"
    and ihq: "\<forall>y \<in> set quals. sound_at C W F S' E' (sub_cxt sp) ?g EXPR_CTX_TRUTH True y"
    and ihh: "\<forall>y \<in> set having. sound_at C W F S' E' (sub_cxt sp) ?g EXPR_CTX_TRUTH True y"
    if "sub_scope F S E ?i S' E'" for S' E'
    using parts [OF that] by simp_all
  obtain cs where cs: "pg_list (deparseExpr C ?g False) targets = Inr cs" "length cs = length targets"
    "\<And>e r. (None, e) \<in> E \<Longrightarrow> r \<in> own_rows F e ?i \<Longrightarrow> map (ch_eval F (inside S e) r) cs = map (pg_eval F r) targets"
    using sub_list_exact [OF iht wt sc] by blast
  obtain qs where qs: "pg_list (deparseExpr C ?g True) quals = Inr qs"
    "\<And>e r. (None, e) \<in> E \<Longrightarrow> r \<in> own_rows F e ?i \<Longrightarrow>
      list_all2 (\<lambda>y c. tv (ch_eval F (inside S e) r c) = Some True \<longleftrightarrow> tv (pg_eval F r y) = Some True) quals qs"
    using sub_list_truth [OF ihq wq sc] by blast
  obtain hs where hs: "pg_list (deparseExpr C ?g True) having = Inr hs"
    "\<And>e r. (None, e) \<in> E \<Longrightarrow> r \<in> own_rows F e ?i \<Longrightarrow>
      list_all2 (\<lambda>y c. tv (ch_eval F (inside S e) r c) = Some True \<longleftrightarrow> tv (pg_eval F r y) = Some True) having hs"
    using sub_list_truth [OF ihh wh sc] by blast
  let ?sel = "if subLinkType sp = EXISTS_SUBLINK then [ChNum 1] else cs"
  have rows: "ch_rows F S e (ChSelect ?i sel qs None hs (grouped sp having))
      = map (\<lambda>r. case sel of [] \<Rightarrow> None | c # _ \<Rightarrow> ch_eval F (inside S e) r c) (pg_rows F e sp quals having)"
    if "(None, e) \<in> E" for sel e
    by (rule ch_rows_eq) (use qs(2) hs(2) that in blast)+
  show thesis
  proof (rule that)
    show "subplan_body C ?g sp targets quals having = Inr (ChSelect ?i ?sel qs None hs (grouped sp having))"
      using cs(1) qs(1) hs(1) by (simp add: subplan_body_def)
    show "length ?sel = (if subLinkType sp = EXISTS_SUBLINK then 1 else length targets)" using cs(2) by simp
    show "ch_rows F S e (ChSelect ?i ?sel qs None hs (grouped sp having))
         = map (\<lambda>r. pg_eval F r (hd targets)) (pg_rows F e sp quals having)"
      if "(None, e) \<in> E" "subLinkType sp \<noteq> EXISTS_SUBLINK" "targets \<noteq> []" for e
      unfolding rows [OF that(1)]
    proof (rule map_cong [OF refl])
      fix r assume "r \<in> set (pg_rows F e sp quals having)"
      then have "map (ch_eval F (inside S e) r) cs = map (pg_eval F r) targets" using cs(3) [OF that(1)] pg_rows_own by blast
      with that(2,3) show "(case ?sel of [] \<Rightarrow> None | c # _ \<Rightarrow> ch_eval F (inside S e) r c) = pg_eval F r (hd targets)"
        by (cases cs; cases targets) simp_all
    qed
    show "(ch_rows F S e (ChSelect ?i ?sel qs None hs (grouped sp having)) = []) = (pg_rows F e sp quals having = [])"
      if "(None, e) \<in> E" for e
      using rows [OF that] by simp
  qed
qed

lemma deparse_subplan:
  "deparseExpr C g b (SubPlan sp lhs args targets junk quals having) =
     (let body = subplan_body C (subplan_cxt C g sp args) sp targets quals having
      in case subLinkType sp of
           EXISTS_SUBLINK \<Rightarrow> rbind body (\<lambda>q. Inr (ChExists q))
         | EXPR_SUBLINK \<Rightarrow> rbind body (\<lambda>q. Inr (ChScalar q))
         | ANY_SUBLINK \<Rightarrow> rbind (deparseExpr C g False lhs) (\<lambda>p. rbind body (\<lambda>q. Inr (ChParen (ChInQuery p q))))
         | _ \<Rightarrow> Inl (not_supported ''pg_clickhouse: unsupported SubLink type for deparse''))"
  by (simp only: deparseExpr.simps Let_def subplan_body_def subplan_cxt_def deparseSubPlan_def)

lemma pg_eval_subplan:
  assumes "subLinkType sp = EXISTS_SUBLINK \<or> targets \<noteq> []"
  shows "pg_eval F e (SubPlan sp lhs args targets junk quals having) =
    (case subLinkType sp of
       EXISTS_SUBLINK \<Rightarrow> Some (VBool (pg_rows F e sp quals having \<noteq> []))
     | ANY_SUBLINK \<Rightarrow> sql_bool (or3 (map (\<lambda>r. tv (opfun F (test_opno sp) [pg_eval F e lhs, pg_eval F r (hd targets)]))
                                    (pg_rows F e sp quals having)))
     | EXPR_SUBLINK \<Rightarrow> (case pg_rows F e sp quals having of [] \<Rightarrow> None | r # _ \<Rightarrow> pg_eval F r (hd targets))
     | _ \<Rightarrow> None)"
proof -
  have out: "(case targets of [] \<Rightarrow> None | t # _ \<Rightarrow> pg_eval F r t) = pg_eval F r (hd targets)"
    if "targets \<noteq> []" for r using that by (cases targets) simp_all
  show ?thesis unfolding pg_eval.simps(12) Let_def pg_rows_def [unfolded Let_def, symmetric]
    using assms by (cases "subLinkType sp") (auto simp: out split: list.split)
qed

text \<open>
  An \<open>IN\<close> subquery: the written form with its probe and rows, and the value of the
  comparison in terms of them.
\<close>

lemma any_subplan_parts:
  assumes w: "pushdown_world C F S E" and root: "root g = None"
    and wk: "foreign_expr_walker C W g ctx (SubPlan sp lhs args targets junk quals having)"
    and any: "subLinkType sp = ANY_SUBLINK" and ne: "targets \<noteq> []"
    and ihl: "sound_at C W F S E g g EXPR_CTX_EXACT False lhs"
    and ih: "subplan_sound_parts C W F S E g sp args targets quals having"
  obtains p t ts qs hs where
    "\<And>b. deparseExpr C g b (SubPlan sp lhs args targets junk quals having)
       = Inr (ChParen (ChInQuery p (ChSelect (plan_id sp) (t # ts) qs None hs (grouped sp having))))"
    "\<And>e. (None, e) \<in> E \<Longrightarrow> ch_eval F S e p = pg_eval F e lhs"
    "\<And>e. (None, e) \<in> E \<Longrightarrow> pg_eval F e (SubPlan sp lhs args targets junk quals having)
       = sql_bool (or3 (map (eq3 (pg_eval F e lhs))
           (ch_rows F S e (ChSelect (plan_id sp) (t # ts) qs None hs (grouped sp having)))))"
    "\<And>e. (None, e) \<in> E \<Longrightarrow> ch_rows F S e (ChSelect (plan_id sp) (t # ts) qs None hs (grouped sp having))
       = map (\<lambda>r. pg_eval F r (hd targets)) (pg_rows F e sp quals having)"
proof (rule subplan_parts [OF wk ih])
  fix sel qs hs
  assume body: "subplan_body C (subplan_cxt C g sp args) sp targets quals having
       = Inr (ChSelect (plan_id sp) sel qs None hs (grouped sp having))"
    and len: "length sel = (if subLinkType sp = EXISTS_SUBLINK then 1 else length targets)"
    and rows: "\<And>e. (None, e) \<in> E \<Longrightarrow> subLinkType sp \<noteq> EXISTS_SUBLINK \<Longrightarrow> targets \<noteq> [] \<Longrightarrow>
       ch_rows F S e (ChSelect (plan_id sp) sel qs None hs (grouped sp having))
         = map (\<lambda>r. pg_eval F r (hd targets)) (pg_rows F e sp quals having)"
  obtain t ts where sel: "sel = t # ts" using len any ne by (cases sel) auto
  from wk any have op: "chfdw_is_equal_op C (test_opno sp) = Inr CH_OP_EQ"
    and wl: "foreign_expr_walker C W g EXPR_CTX_EXACT lhs" by simp_all
  from ihl wl obtain p where p: "deparseExpr C g False lhs = Inr p"
    and evp: "\<And>e. (None, e) \<in> E \<Longrightarrow> ch_eval F S e p = pg_eval F e lhs"
    using root by (auto elim!: sound_atE simp: agrees_def)
  have eq: "tv (opfun F (test_opno sp) [x, y]) = eq3 x y" for x y
    using w op by (simp add: pushdown_world_def equality_ops_def)
  show thesis
  proof (rule that)
    show "deparseExpr C g b (SubPlan sp lhs args targets junk quals having)
       = Inr (ChParen (ChInQuery p (ChSelect (plan_id sp) (t # ts) qs None hs (grouped sp having))))" for b
      using body p any sel by (simp add: deparse_subplan del: deparseExpr.simps)
    show r: "ch_rows F S e (ChSelect (plan_id sp) (t # ts) qs None hs (grouped sp having))
       = map (\<lambda>r. pg_eval F r (hd targets)) (pg_rows F e sp quals having)" if "(None, e) \<in> E" for e
      using rows [OF that] any ne sel by simp
    show "pg_eval F e (SubPlan sp lhs args targets junk quals having)
       = sql_bool (or3 (map (eq3 (pg_eval F e lhs))
           (ch_rows F S e (ChSelect (plan_id sp) (t # ts) qs None hs (grouped sp having)))))" if "(None, e) \<in> E" for e
      unfolding r [OF that] using any ne by (simp add: pg_eval_subplan eq comp_def del: pg_eval.simps)
  qed (fact evp)
qed

lemma notin_nulls_sound:
  assumes w: "pushdown_world C F S E" and e: "(None, e) \<in> E" and root: "root g = None" and ne: "targets \<noteq> []"
  shows "\<not> fst (notin_prove_nullability C g sp lhs targets) \<Longrightarrow> pg_eval F e lhs \<noteq> None"
    and "\<not> snd (notin_prove_nullability C g sp lhs targets) \<Longrightarrow>
      None \<notin> set (map (\<lambda>r. pg_eval F r (hd targets)) (pg_rows F e sp quals having))"
proof -
  obtain out ts where t: "targets = out # ts" using ne by (cases targets) auto
  have ar: "arith_total C F" and cl: "rows_closed C F E" using w by (auto simp: pushdown_world_def)
  have row: "row_ok C s r" if "(s, r) \<in> E" for s r using cl that by (auto simp: rows_closed_def)
  show "pg_eval F e lhs \<noteq> None" if "\<not> fst (notin_prove_nullability C g sp lhs targets)"
    using that expr_never_null_sound [OF _ ar, of g lhs e] row [OF e] root
    by (simp add: notin_prove_nullability_def t)
  show "None \<notin> set (map (\<lambda>r. pg_eval F r (hd targets)) (pg_rows F e sp quals having))"
    if n: "\<not> snd (notin_prove_nullability C g sp lhs targets)"
  proof (rule None_notin_map)
    fix r assume "r \<in> set (pg_rows F e sp quals having)"
    then have "row_ok C (root (sub_cxt sp)) r"
      using own_rows_closed [OF cl e] pg_rows_own row by (fastforce simp: sub_cxt_def)
    then show "pg_eval F r (hd targets) \<noteq> None"
      using n expr_never_null_sound [OF _ ar, of "sub_cxt sp" out r] by (simp add: notin_prove_nullability_def t)
  qed
qed


lemma walker_subplan_any:
  assumes "foreign_expr_walker C W g EXPR_CTX_EXACT (SubPlan sp lhs args targets junk quals having)"
    and "subLinkType sp = ANY_SUBLINK"
  shows "\<not> fst (notin_prove_nullability C g sp lhs targets)"
    and "\<not> snd (notin_prove_nullability C g sp lhs targets)"
  using assms by (auto simp: notin_gate_def classify_notin_subplan_def Let_def split: if_splits)

lemma subplan_sound:
  assumes w0: "root g = None \<Longrightarrow> pushdown_world C F S E" and g: "root g = None \<Longrightarrow> g' = g"
    and ne: "subLinkType sp = EXISTS_SUBLINK \<or> targets \<noteq> []"
    and ctx: "(ctx, t) \<in> {(EXPR_CTX_EXACT, False), (EXPR_CTX_TRUTH, True)}"
    and ihl: "sound_at C W F S E g g' EXPR_CTX_EXACT False lhs"
    and ih: "root g = None \<Longrightarrow> subplan_sound_parts C W F S E g sp args targets quals having"
  shows "sound_at C W F S E g g' ctx t (SubPlan sp lhs args targets junk quals having)"
proof (rule sound_atI)
  let ?x = "SubPlan sp lhs args targets junk quals having"
  assume wk: "foreign_expr_walker C W g ctx ?x"
  then have root: "root g = None" and kind: "subLinkType sp \<in> {EXPR_SUBLINK, EXISTS_SUBLINK, ANY_SUBLINK}"
    by (auto simp: subplan_shape_def Let_def)
  with g have g': "g' = g" by blast
  have w: "pushdown_world C F S E" using w0 root by blast
  then have doc: "documented S" by (simp add: pushdown_world_def)
  show "\<exists>c. deparseExpr C g' t ?x = Inr c \<and> (\<forall>e. (root g, e) \<in> E \<longrightarrow> agrees ctx (ch_eval F S e c) (pg_eval F e ?x))"
  proof (cases "subLinkType sp = ANY_SUBLINK")
    case True
    with ne have ts: "targets \<noteq> []" by simp
    have ihl': "sound_at C W F S E g g EXPR_CTX_EXACT False lhs" using ihl g' by simp
    show ?thesis unfolding g' root
    proof (rule any_subplan_parts [OF w root wk True ts ihl' ih [OF root]])
      fix p s ss qs hs
      let ?q = "ChSelect (plan_id sp) (s # ss) qs None hs (grouped sp having)"
      assume dep: "\<And>b. deparseExpr C g b ?x = Inr (ChParen (ChInQuery p ?q))"
        and p: "\<And>e. (None, e) \<in> E \<Longrightarrow> ch_eval F S e p = pg_eval F e lhs"
        and pg: "\<And>e. (None, e) \<in> E \<Longrightarrow> pg_eval F e ?x = sql_bool (or3 (map (eq3 (pg_eval F e lhs)) (ch_rows F S e ?q)))"
        and rows: "\<And>e. (None, e) \<in> E \<Longrightarrow> ch_rows F S e ?q = map (\<lambda>r. pg_eval F r (hd targets)) (pg_rows F e sp quals having)"
      have "agrees ctx (f_in S (pg_eval F e lhs) (ch_rows F S e ?q)) (pg_eval F e ?x)" if e: "(None, e) \<in> E" for e
      proof (cases "ctx = EXPR_CTX_EXACT")
        case exact: True
        note nulls = walker_subplan_any [OF wk [unfolded exact] True]
        have "pg_eval F e lhs \<noteq> None" and "None \<notin> set (ch_rows F S e ?q)"
          unfolding rows [OF e] by (rule notin_nulls_sound [OF w e root ts] nulls)+
        from in_exact [OF doc this] show ?thesis unfolding pg [OF e] by (simp only: agrees_refl)
      next
        case False
        then show ?thesis unfolding pg [OF e] agrees_def tv_sql_bool by (simp only: in_true [OF doc] if_False)
      qed
      with dep p show "\<exists>c. deparseExpr C g t ?x = Inr c \<and> (\<forall>e. (None, e) \<in> E \<longrightarrow> agrees ctx (ch_eval F S e c) (pg_eval F e ?x))"
        by (simp del: pg_eval.simps(12) ch_rows.simps deparseExpr.simps)
    qed
  next
    case False
    show ?thesis unfolding g' root
    proof (rule subplan_parts [OF wk ih [OF root]])
      fix sel qs hs
      let ?q = "ChSelect (plan_id sp) sel qs None hs (grouped sp having)"
      assume body: "subplan_body C (subplan_cxt C g sp args) sp targets quals having = Inr ?q"
        and rows: "\<And>e. (None, e) \<in> E \<Longrightarrow> subLinkType sp \<noteq> EXISTS_SUBLINK \<Longrightarrow> targets \<noteq> [] \<Longrightarrow>
           ch_rows F S e ?q = map (\<lambda>r. pg_eval F r (hd targets)) (pg_rows F e sp quals having)"
        and emp: "\<And>e. (None, e) \<in> E \<Longrightarrow> (ch_rows F S e ?q = []) = (pg_rows F e sp quals having = [])"
      let ?c = "if subLinkType sp = EXISTS_SUBLINK then ChExists ?q else ChScalar ?q"
      have "deparseExpr C g t ?x = Inr ?c" unfolding deparse_subplan body using kind False by auto
      moreover have "ch_eval F S e ?c = pg_eval F e ?x" if e: "(None, e) \<in> E" for e
      proof (cases "subLinkType sp = EXISTS_SUBLINK")
        case True
        then show ?thesis unfolding pg_eval_subplan [OF ne] using emp [OF e] by simp
      next
        case scalar: False
        with kind False ne have k: "subLinkType sp = EXPR_SUBLINK" and ts: "targets \<noteq> []" by auto
        show ?thesis unfolding pg_eval_subplan [OF ne] k
          using rows [OF e scalar ts] by (simp split: list.split del: ch_rows.simps)
      qed
      ultimately show "\<exists>c. deparseExpr C g t ?x = Inr c \<and> (\<forall>e. (None, e) \<in> E \<longrightarrow> agrees ctx (ch_eval F S e c) (pg_eval F e ?x))"
        by (metis agrees_refl)
    qed
  qed
qed

text \<open>NOT: its argument is exact, or it is the guarded subquery of a condition.\<close>

lemma not_plain:
  assumes "deparseExpr C g' False x = Inr c" and "\<not> guarded_any C g' x"
  shows "deparseExpr C g' t (BoolExpr NOT_EXPR [x]) = Inr (ChParen (ChNot c))"
proof (cases x)
  case (SubPlan sp lhs as targets junk quals having)
  with assms show ?thesis
    by (cases "classify_notin_subplan C g' sp lhs targets having = NOTIN_SHIP_GUARDED")
       (auto simp: guarded_any_def deparse_subplan Let_def rbind_Inr_iff
         simp del: deparseExpr.simps(12) split: ch.splits SubLinkType.splits)
qed (use assms in \<open>simp_all split: ch.splits\<close>)

lemma guarded_not_sound:
  assumes w: "pushdown_world C F S E" and root: "root g = None"
    and x: "x = SubPlan sp lhs args targets junk quals having"
    and wk: "foreign_expr_walker C W g EXPR_CTX_NEGATED x" and gd: "guarded_any C g x" and ne: "targets \<noteq> []"
    and ihl: "sound_at C W F S E g g EXPR_CTX_EXACT False lhs"
    and ih: "subplan_sound_parts C W F S E g sp args targets quals having"
  shows "\<exists>c. deparseExpr C g t (BoolExpr NOT_EXPR [x]) = Inr c
      \<and> (\<forall>e. (None, e) \<in> E \<longrightarrow> agrees EXPR_CTX_TRUTH (ch_eval F S e c) (pg_eval F e (BoolExpr NOT_EXPR [x])))"
proof -
  have any: "subLinkType sp = ANY_SUBLINK" and form: "classify_notin_subplan C g sp lhs targets having = NOTIN_SHIP_GUARDED"
    using gd x by (simp_all add: guarded_any_def)
  then have gr: "grouped sp having = False"
    by (auto simp: classify_notin_subplan_def grouped_def split: if_splits)
  have doc: "documented S" using w by (simp add: pushdown_world_def)
  let ?nulls = "notin_prove_nullability C g sp lhs targets"
  show ?thesis
  proof (rule any_subplan_parts [OF w root wk [unfolded x] any ne ihl ih])
    fix p s ss qs hs
    let ?q = "ChSelect (plan_id sp) (s # ss) qs None hs (grouped sp having)"
    assume dep: "\<And>b. deparseExpr C g b (SubPlan sp lhs args targets junk quals having) = Inr (ChParen (ChInQuery p ?q))"
      and p: "\<And>e. (None, e) \<in> E \<Longrightarrow> ch_eval F S e p = pg_eval F e lhs"
      and pg: "\<And>e. (None, e) \<in> E \<Longrightarrow> pg_eval F e (SubPlan sp lhs args targets junk quals having)
          = sql_bool (or3 (map (eq3 (pg_eval F e lhs)) (ch_rows F S e ?q)))"
      and rows: "\<And>e. (None, e) \<in> E \<Longrightarrow> ch_rows F S e ?q = map (\<lambda>r. pg_eval F r (hd targets)) (pg_rows F e sp quals having)"
    have "deparseExpr C g t (BoolExpr NOT_EXPR [x]) = Inr (deparseGuardedNotIn ?nulls p ?q)"
      using dep form x by (simp del: deparseExpr.simps(12))
    moreover have "tv (ch_eval F S e (deparseGuardedNotIn ?nulls p ?q)) = Some True
        \<longleftrightarrow> not3 (or3 (map (eq3 (pg_eval F e lhs)) (ch_rows F S e ?q))) = Some True" if e: "(None, e) \<in> E" for e
    proof (rule guarded_notin_true [OF doc p [OF e] _ refl])
      show "?q = ChSelect (plan_id sp) (s # ss) qs None hs False" using gr by simp
      show "pg_eval F e lhs \<noteq> None" if "\<not> fst ?nulls"
        by (rule notin_nulls_sound(1) [OF w e root ne that])
      show "None \<notin> set (ch_rows F S e ?q)" if "\<not> snd ?nulls" unfolding rows [OF e]
        by (rule notin_nulls_sound(2) [OF w e root ne that])
    qed
    ultimately show ?thesis using pg x by (simp add: agrees_def del: pg_eval.simps(12) ch_rows.simps)
  qed
qed

lemma not_sound:
  assumes w: "root g = None \<Longrightarrow> pushdown_world C F S E" and g: "root g' = root g" "root g = None \<Longrightarrow> g' = g"
    and ctx: "(ctx, t) \<in> {(EXPR_CTX_EXACT, False), (EXPR_CTX_TRUTH, True)}"
    and ihx: "sound_at C W F S E g g' EXPR_CTX_EXACT False x"
    and sub: "\<And>sp lhs args targets junk quals having. x = SubPlan sp lhs args targets junk quals having \<Longrightarrow> root g = None \<Longrightarrow>
      sound_at C W F S E g g EXPR_CTX_EXACT False lhs \<and> subplan_sound_parts C W F S E g sp args targets quals having
      \<and> (subLinkType sp = EXISTS_SUBLINK \<or> targets \<noteq> [])"
  shows "sound_at C W F S E g g' ctx t (BoolExpr NOT_EXPR [x])"
proof (rule sound_atI)
  assume "foreign_expr_walker C W g ctx (BoolExpr NOT_EXPR [x])"
  then have wk: "foreign_expr_walker C W g (if ctx = EXPR_CTX_TRUTH then EXPR_CTX_NEGATED else EXPR_CTX_EXACT) x" by simp
  show "\<exists>c. deparseExpr C g' t (BoolExpr NOT_EXPR [x]) = Inr c
      \<and> (\<forall>e. (root g, e) \<in> E \<longrightarrow> agrees ctx (ch_eval F S e c) (pg_eval F e (BoolExpr NOT_EXPR [x])))"
  proof (cases "guarded_any C g x \<and> ctx = EXPR_CTX_TRUTH")
    case True
    then obtain sp lhs args targets junk quals having where x: "x = SubPlan sp lhs args targets junk quals having"
      by (cases x) (auto simp: guarded_any_def)
    have wk': "foreign_expr_walker C W g EXPR_CTX_NEGATED x" using wk True by simp
    then have root: "root g = None" using x by simp
    note s = sub [OF x root]
    have "targets \<noteq> []" using s True x by (simp add: guarded_any_def)
    then show ?thesis unfolding root g(2) [OF root] conjunct2 [OF True]
      by (intro guarded_not_sound [OF w [OF root] root x wk']) (use True s in auto)
  next
    case False
    have ex: "foreign_expr_walker C W g EXPR_CTX_EXACT x"
      using wk False walker_negated by (cases "ctx = EXPR_CTX_TRUTH") auto
    have "\<not> guarded_any C g' x"
    proof (cases x)
      case (SubPlan sp lhs args targets junk quals having)
      with ex g(2) show ?thesis by (auto simp: guarded_any_def notin_gate_def Let_def)
    qed (simp_all add: guarded_any_def)
    moreover from ihx ex obtain c where "deparseExpr C g' False x = Inr c"
      and "\<And>e. (root g, e) \<in> E \<Longrightarrow> ch_eval F S e c = pg_eval F e x" by (auto elim!: sound_atE simp: agrees_def)
    ultimately show ?thesis using not_plain [of C g' x c t] by simp
  qed
qed


text \<open>CASE: both sides choose the same branch.\<close>

lemma case_value_agrees:
  assumes "list_all2 (\<lambda>b a. (fst b = Some True \<longleftrightarrow> fst a = Some True) \<and> agrees ctx (snd b) (snd a)) bs as"
    and "agrees ctx d' d"
  shows "agrees ctx (case_value bs d') (case_value as d)"
  using assms(1) by (induction rule: list_all2_induct) (auto simp: case_value_def assms(2) split: prod.splits)

lemma with_own_test: "with_test (case_test e) e = e"
  by (cases e) (simp add: with_test_def)

lemma when_sound:
  assumes wk: "walk_when C W g ctx (CaseWhen c r)"
    and ctx: "(ctx, t) \<in> {(EXPR_CTX_EXACT, False), (EXPR_CTX_TRUTH, True)}"
    and ihc: "sound_at C W F S E g g' EXPR_CTX_TRUTH True c" and ihr: "sound_at C W F S E g g' ctx t r"
  obtains w where "deparse_when C g' t i (CaseWhen c r) = Inr w"
    and "\<And>e. (root g, e) \<in> E \<Longrightarrow> (fst (ch_eval_when F S e None w) = Some True \<longleftrightarrow> tv (pg_eval F e c) = Some True)
        \<and> agrees ctx (snd (ch_eval_when F S e None w)) (pg_eval F e r)"
proof -
  from wk ctx have "foreign_expr_walker C W g EXPR_CTX_TRUTH c" "foreign_expr_walker C W g ctx r" by auto
  with ihc ihr obtain c' r' where c: "deparseExpr C g' True c = Inr c'" and r: "deparseExpr C g' t r = Inr r'"
    and evc: "\<And>e. (root g, e) \<in> E \<Longrightarrow> agrees EXPR_CTX_TRUTH (ch_eval F S e c') (pg_eval F e c)"
    and evr: "\<And>e. (root g, e) \<in> E \<Longrightarrow> agrees ctx (ch_eval F S e r') (pg_eval F e r)" by (metis sound_atE)
  let ?c = "case c of Var _ \<Rightarrow> ChIsOne c' | _ \<Rightarrow> c'"
  let ?r = "if i \<and> \<not> is_const_null r then ChConv r' else r'"
  have c': "tv (ch_eval F S e ?c) = tv (ch_eval F S e c')" for e by (cases c) simp_all
  show thesis
  proof (rule that [of "ChWhen ?c ?r"])
    show "deparse_when C g' t i (CaseWhen c r) = Inr (ChWhen ?c ?r)" using c r by simp
  next
    fix e assume e: "(root g, e) \<in> E"
    show "(fst (ch_eval_when F S e None (ChWhen ?c ?r)) = Some True \<longleftrightarrow> tv (pg_eval F e c) = Some True)
        \<and> agrees ctx (snd (ch_eval_when F S e None (ChWhen ?c ?r))) (pg_eval F e r)"
      using evc [OF e] evr [OF e] unfolding ch_eval_when.simps option.case fst_conv snd_conv c'
      by (simp add: agrees_def)
  qed
qed

definition when_ih where
  "when_ih C W F S E g g' ctx t w = (case w of CaseWhen c r \<Rightarrow>
     sound_at C W F S E g g' EXPR_CTX_TRUTH True c \<and> sound_at C W F S E g g' ctx t r)"

lemma whens_sound:
  assumes ctx: "(ctx, t) \<in> {(EXPR_CTX_EXACT, False), (EXPR_CTX_TRUTH, True)}"
    and "list_all (walk_when C W g ctx) ws" and "\<forall>w \<in> set ws. when_ih C W F S E g g' ctx t w"
  shows "\<exists>ws'. pg_list (deparse_when C g' t i) ws = Inr ws' \<and> (\<forall>e. (root g, e) \<in> E \<longrightarrow>
      list_all2 (\<lambda>b a. (fst b = Some True \<longleftrightarrow> fst a = Some True) \<and> agrees ctx (snd b) (snd a))
        (map (ch_eval_when F S e None) ws') (map (pg_when F e e) ws))"
  using assms(2,3)
proof (induction ws)
  case (Cons w ws)
  obtain c r where w: "w = CaseWhen c r" by (cases w)
  from Cons obtain ws' where ws': "pg_list (deparse_when C g' t i) ws = Inr ws'"
    "\<And>e. (root g, e) \<in> E \<Longrightarrow>
      list_all2 (\<lambda>b a. (fst b = Some True \<longleftrightarrow> fst a = Some True) \<and> agrees ctx (snd b) (snd a))
        (map (ch_eval_when F S e None) ws') (map (pg_when F e e) ws)" by auto
  obtain w' where w': "deparse_when C g' t i w = Inr w'"
    "\<And>e. (root g, e) \<in> E \<Longrightarrow> (fst (ch_eval_when F S e None w') = Some True \<longleftrightarrow> tv (pg_eval F e c) = Some True)
        \<and> agrees ctx (snd (ch_eval_when F S e None w')) (pg_eval F e r)"
    using when_sound [OF _ ctx, of C W g c r F S E g' i] Cons.prems unfolding w when_ih_def by auto
  show ?case using ws' w'
    by (intro exI [of _ "w' # ws'"]) (simp add: w)
qed simp

lemma case_sound:
  assumes ctx: "(ctx, t) \<in> {(EXPR_CTX_EXACT, False), (EXPR_CTX_TRUTH, True)}"
    and ws: "\<forall>w \<in> set ws. when_ih C W F S E g g' ctx t w"
    and d: "\<forall>y \<in> set_option d. sound_at C W F S E g g' ctx t y"
  shows "sound_at C W F S E g g' ctx t (CaseExpr i None ws d)"
proof (rule sound_atI)
  assume wk: "foreign_expr_walker C W g ctx (CaseExpr i None ws d)"
  then obtain ws' where ws': "pg_list (deparse_when C g' t i) ws = Inr ws'"
    "\<And>e. (root g, e) \<in> E \<Longrightarrow>
      list_all2 (\<lambda>b a. (fst b = Some True \<longleftrightarrow> fst a = Some True) \<and> agrees ctx (snd b) (snd a))
        (map (ch_eval_when F S e None) ws') (map (pg_when F e e) ws)"
    using whens_sound [OF ctx _ ws] by auto
  have "\<exists>d'. (case d of None \<Rightarrow> Inr None
      | Some x \<Rightarrow> rbind (deparseExpr C g' t x) (\<lambda>c. Inr (Some (deparse_wrapped i x c)))) = Inr d'
      \<and> (\<forall>e. (root g, e) \<in> E \<longrightarrow> agrees ctx (case d' of None \<Rightarrow> None | Some c \<Rightarrow> ch_eval F S e c)
            (case d of None \<Rightarrow> None | Some x \<Rightarrow> pg_eval F e x))"
  proof (cases d)
    case (Some y)
    with wk ctx have "foreign_expr_walker C W g ctx y" by auto
    with d Some obtain c where "deparseExpr C g' t y = Inr c"
      "\<And>e. (root g, e) \<in> E \<Longrightarrow> agrees ctx (ch_eval F S e c) (pg_eval F e y)" by (auto elim: sound_atE)
    with Some show ?thesis by auto
  qed simp
  then obtain d' where "deparseExpr C g' t (CaseExpr i None ws d) = Inr (ChCase None ws' d')"
    and d': "\<And>e. (root g, e) \<in> E \<Longrightarrow> agrees ctx (case d' of None \<Rightarrow> None | Some c \<Rightarrow> ch_eval F S e c)
            (case d of None \<Rightarrow> None | Some x \<Rightarrow> pg_eval F e x)"
    using ws'(1) by (auto simp del: deparse_wrapped_def)
  moreover have "agrees ctx (ch_eval F S e (ChCase None ws' d')) (pg_eval F e (CaseExpr i None ws d))"
    if e: "(root g, e) \<in> E" for e
    using case_value_agrees [OF ws'(2) [OF e] d' [OF e]] by (simp add: with_own_test)
  ultimately show "\<exists>c. deparseExpr C g' t (CaseExpr i None ws d) = Inr c
      \<and> (\<forall>e. (root g, e) \<in> E \<longrightarrow> agrees ctx (ch_eval F S e c) (pg_eval F e (CaseExpr i None ws d)))" by blast
qed

lemma nulltest_sound:
  assumes "sound_at C W F S E g g' EXPR_CTX_EXACT False x"
  shows "sound_at C W F S E g g' ctx t (NullTest n x)"
  using assms by (auto simp: sound_at_def agrees_def)

lemma relabel_sound:
  assumes "(ctx, t) \<in> {(EXPR_CTX_EXACT, False), (EXPR_CTX_TRUTH, True)}" and "sound_at C W F S E g g' ctx t x"
  shows "sound_at C W F S E g g' ctx t (RelabelType x)"
  using assms by (auto simp: sound_at_def)

lemma array_sound:
  assumes "\<forall>y \<in> set xs. sound_at C W F S E g g' EXPR_CTX_EXACT False y"
  shows "sound_at C W F S E g g' ctx t (ArrayExpr m xs)"
proof (rule sound_atI)
  assume "foreign_expr_walker C W g ctx (ArrayExpr m xs)"
  then have "list_all (foreign_expr_walker C W g EXPR_CTX_EXACT) xs" by simp
  with assms show "\<exists>c. deparseExpr C g' t (ArrayExpr m xs) = Inr c
      \<and> (\<forall>e. (root g, e) \<in> E \<longrightarrow> agrees ctx (ch_eval F S e c) (pg_eval F e (ArrayExpr m xs)))"
    by (rule list_exact) simp
qed


section \<open>The induction\<close>

text \<open>
  The contexts of the walker and of the deparser for the same expression: the same scope, and
  outside of subqueries the same context.
\<close>

definition same_scope :: "glob_cxt \<Rightarrow> glob_cxt \<Rightarrow> bool" where
  "same_scope g g' \<longleftrightarrow> root g' = root g \<and> (root g = None \<longrightarrow> g' = g)"

text \<open>All that a scope owes to the expressions in it.\<close>

definition scene :: "catalog \<Rightarrow> sql_params \<Rightarrow> ch_functions \<Rightarrow> (nat option \<times> env) set \<Rightarrow> glob_cxt \<Rightarrow> glob_cxt \<Rightarrow> bool" where
  "scene C F S E g g' \<longleftrightarrow> base_world C F S E \<and> (root g = None \<longrightarrow> rows_closed C F E) \<and> same_scope g g' \<and> corr_ok F S E g'"

lemma scene_outer: "pushdown_world C F S E \<Longrightarrow> root g = None \<Longrightarrow> scene C F S E g g"
  by (simp add: scene_def pushdown_world_base same_scope_def corr_ok_def) (simp add: pushdown_world_def)

lemma sceneD:
  assumes "scene C F S E g g'"
  shows "base_world C F S E" and "root g' = root g" and "root g = None \<Longrightarrow> g' = g" and "corr_ok F S E g'"
    and "root g = None \<Longrightarrow> pushdown_world C F S E" and "root g = None \<Longrightarrow> scene C F S E g g"
  using assms by (auto simp: scene_def same_scope_def base_world_def pushdown_world_def)

definition pushable where
  "pushable C W F x \<longleftrightarrow> (\<forall>S E g g'. scene C F S E g g' \<longrightarrow> searched x \<longrightarrow> inputs_ok F E (root g) x \<longrightarrow>
     sound_at C W F S E g g' EXPR_CTX_EXACT False x \<and> sound_at C W F S E g g' EXPR_CTX_TRUTH True x)"

lemma pushableI:
  assumes "\<And>S E g g' ctx t. scene C F S E g g' \<Longrightarrow> searched x \<Longrightarrow> inputs_ok F E (root g) x \<Longrightarrow>
      (ctx, t) \<in> {(EXPR_CTX_EXACT, False), (EXPR_CTX_TRUTH, True)} \<Longrightarrow> sound_at C W F S E g g' ctx t x"
  shows "pushable C W F x"
  using assms by (simp add: pushable_def)

lemma pushableD:
  assumes "pushable C W F x" and "scene C F S E g g'" and "searched x" and "inputs_ok F E (root g) x"
    and "(ctx, t) \<in> {(EXPR_CTX_EXACT, False), (EXPR_CTX_TRUTH, True)}"
  shows "sound_at C W F S E g g' ctx t x"
  using assms by (auto simp: pushable_def)

lemma pushable_list:
  assumes "\<And>y. y \<in> set ys \<Longrightarrow> pushable C W F y" and "scene C F S E g g'" and "list_all searched ys"
    and "\<And>y. y \<in> set ys \<Longrightarrow> inputs_ok F E (root g) y"
    and "(ctx, t) \<in> {(EXPR_CTX_EXACT, False), (EXPR_CTX_TRUTH, True)}"
  shows "\<forall>y \<in> set ys. sound_at C W F S E g g' ctx t y"
  using assms by (auto simp: list_all_iff intro!: pushableD)

lemma inputs_ok_mono: "inputs_ok F E s x \<Longrightarrow> set (needs s' y) \<subseteq> set (needs s x) \<Longrightarrow> inputs_ok F E s' y"
  unfolding inputs_ok_def by blast

lemma inputs_ok_fewer: "inputs_ok F E s x \<Longrightarrow> E' \<subseteq> E \<Longrightarrow> inputs_ok F E' s x"
  unfolding inputs_ok_def need_met_def by blast

text \<open>The parts of a subquery, which \<open>NOT\<close> above it also needs.\<close>

definition parts_pushable where
  "parts_pushable C W F x = (case x of
       SubPlan sp lhs args targets junk quals having \<Rightarrow>
         pushable C W F lhs \<and> (\<forall>y \<in> set (args @ targets @ quals @ having). pushable C W F y)
     | _ \<Rightarrow> True)"

lemma map_of_zip_map: "map_of (zip ps (map f xs)) p = map_option f (map_of (zip ps xs) p)"
  by (induction ps xs rule: list_induct2') auto

text \<open>The texts of the arguments, read inside of the subquery, have the values of its parameters.\<close>

lemma args_corr_ok:
  assumes args: "\<forall>y \<in> set args. sound_at C W F S E g g EXPR_CTX_EXACT False y"
    and wk: "list_all (foreign_expr_walker C W g EXPR_CTX_EXACT) args" and root: "root g = None"
    and bound: "need_met F E None (ArgsOf (plan_id sp) (zip (parParam sp) args))"
    and sc: "sub_scope F S E (plan_id sp) S' E'"
  shows "corr_ok F S' E' (subplan_cxt C g sp args)"
  unfolding corr_ok_def
proof (intro impI allI)
  fix i t assume "outer_arg (subplan_cxt C g sp args) i = Some t"
  then obtain x where x: "map_of (zip (parParam sp) args) i = Some x" and t: "t = deparseExpr C g False x"
    by (auto simp: subplan_cxt_def map_of_zip_map)
  have "x \<in> set args" using map_of_SomeD [OF x] by (auto dest: set_zip_rightD)
  with args wk obtain c where c: "t = Inr c" and ev: "\<And>e. (None, e) \<in> E \<Longrightarrow> ch_eval F S e c = pg_eval F e x"
    unfolding t using root by (auto simp: list_all_iff agrees_def elim!: sound_atE)
  have "ch_eval F S' r (ChOuter c) = param_val r i" if r: "(Some (plan_id sp), r) \<in> E'" for r
  proof -
    from sc r obtain e where e: "(None, e) \<in> E" "S' = inside S e" "r \<in> own_rows F e (plan_id sp)"
      by (auto simp: sub_scope_def)
    with bound x have "param_val r i = pg_eval F e x" by (simp add: need_met_def)
    with e ev show ?thesis by simp
  qed
  then show "\<exists>c. t = Inr c \<and> (\<forall>e. (root (subplan_cxt C g sp args), e) \<in> E' \<longrightarrow> ch_eval F S' e (ChOuter c) = param_val e i)"
    using c by (auto simp: subplan_cxt_def)
qed

lemma sub_scope_rows:
  assumes "pushdown_world C F S E" and "sub_scope F S E i S' E'"
  shows "E' \<subseteq> E" and "base_world C F S' E'"
proof -
  have "rows_closed C F E" using assms(1) by (simp add: pushdown_world_def)
  with assms(2) own_rows_closed show E: "E' \<subseteq> E" by (fastforce simp: sub_scope_def)
  have "documented S'" using assms by (auto simp: sub_scope_def pushdown_world_def)
  with E pushdown_world_base [OF assms(1)] show "base_world C F S' E'" by (auto simp: base_world_def)
qed

lemma parts_pushableD:
  assumes ih: "parts_pushable C W F (SubPlan sp lhs args targets junk quals having)"
    and s: "searched (SubPlan sp lhs args targets junk quals having)"
    and a: "inputs_ok F E (root g) (SubPlan sp lhs args targets junk quals having)" and sc: "scene C F S E g g'"
  shows "sound_at C W F S E g g' EXPR_CTX_EXACT False lhs"
    and "root g = None \<Longrightarrow> subplan_sound_parts C W F S E g sp args targets quals having"
proof -
  show "sound_at C W F S E g g' EXPR_CTX_EXACT False lhs"
    using ih s sc by (intro pushableD inputs_ok_mono [OF a]) (auto simp: parts_pushable_def)
  assume root: "root g = None"
  note outer = sceneD(6) [OF sc root] and world = sceneD(5) [OF sc root]
  let ?body = "targets @ quals @ having" and ?g = "subplan_cxt C g sp args"
  have "\<forall>y \<in> set args. sound_at C W F S E g g EXPR_CTX_EXACT False y"
    using ih s by (intro pushable_list [OF _ outer] inputs_ok_mono [OF a]) (auto simp: parts_pushable_def)
  moreover have "need_met F E None (ArgsOf (plan_id sp) (zip (parParam sp) args))"
    using a root by (simp add: inputs_ok_def)
  ultimately have corr: "corr_ok F S' E' ?g"
    if "list_all (foreign_expr_walker C W g EXPR_CTX_EXACT) args" "sub_scope F S E (plan_id sp) S' E'" for S' E'
    using args_corr_ok that root by blast
  have body: "sound_at C W F S' E' (sub_cxt sp) ?g ctx t y"
    if "list_all (foreign_expr_walker C W g EXPR_CTX_EXACT) args" "sub_scope F S E (plan_id sp) S' E'"
      "y \<in> set ?body" "(ctx, t) \<in> {(EXPR_CTX_EXACT, False), (EXPR_CTX_TRUTH, True)}" for S' E' y ctx t
  proof (rule pushableD [OF _ _ _ _ that(4)])
    show "pushable C W F y" using ih that(3) by (simp add: parts_pushable_def)
    show "scene C F S' E' (sub_cxt sp) ?g"
      using corr [OF that(1,2)] sub_scope_rows(2) [OF world that(2)]
      by (simp add: scene_def same_scope_def sub_cxt_def subplan_cxt_def)
    show "searched y" using s that(3) by (auto simp: list_all_iff)
    have "inputs_ok F E (root (sub_cxt sp)) y"
      using that(3) by (intro inputs_ok_mono [OF a]) (auto simp: sub_cxt_def)
    then show "inputs_ok F E' (root (sub_cxt sp)) y" using sub_scope_rows(1) [OF world that(2)] by (rule inputs_ok_fewer)
  qed
  then show "subplan_sound_parts C W F S E g sp args targets quals having"
    by (auto simp: subplan_sound_parts_def)
qed

lemma pushable_not:
  assumes ih: "pushable C W F x" "parts_pushable C W F x"
  shows "pushable C W F (BoolExpr NOT_EXPR [x])"
proof (rule pushableI)
  fix S E g g' ctx t
  assume sc: "scene C F S E g g'" and s: "searched (BoolExpr NOT_EXPR [x])"
    and a: "inputs_ok F E (root g) (BoolExpr NOT_EXPR [x])"
    and ctx: "(ctx, t) \<in> {(EXPR_CTX_EXACT, False), (EXPR_CTX_TRUTH, True)}"
  from s a have sx: "searched x" and ax: "inputs_ok F E (root g) x" by (simp_all add: inputs_ok_def)
  show "sound_at C W F S E g g' ctx t (BoolExpr NOT_EXPR [x])"
  proof (rule not_sound [OF sceneD(5) [OF sc] sceneD(2) [OF sc] sceneD(3) [OF sc] ctx])
    show "sound_at C W F S E g g' EXPR_CTX_EXACT False x" using ih(1) sc sx ax by (intro pushableD) auto
  next
    fix sp lhs args targets junk quals having
    assume x: "x = SubPlan sp lhs args targets junk quals having" and root: "root g = None"
    from parts_pushableD [OF ih(2) [unfolded x] sx [unfolded x] ax [unfolded x] sceneD(6) [OF sc root]] sx x root
    show "sound_at C W F S E g g EXPR_CTX_EXACT False lhs \<and> subplan_sound_parts C W F S E g sp args targets quals having
      \<and> (subLinkType sp = EXISTS_SUBLINK \<or> targets \<noteq> [])" by auto
  qed
qed

lemma pushable_bool:
  assumes ih: "\<And>y. y \<in> set args \<Longrightarrow> pushable C W F y \<and> parts_pushable C W F y"
  shows "pushable C W F (BoolExpr b args)"
proof (cases "b = NOT_EXPR")
  case True
  show ?thesis
  proof (cases "\<exists>x. args = [x]")
    case True
    with \<open>b = NOT_EXPR\<close> pushable_not ih show ?thesis by auto
  next
    case False
    then have "length args \<noteq> 1" by (auto simp: length_Suc_conv)
    with \<open>b = NOT_EXPR\<close> show ?thesis by (simp add: pushable_def)
  qed
next
  case False
  show ?thesis
  proof (rule pushableI)
    fix S E g g' ctx t
    assume a: "scene C F S E g g'" "searched (BoolExpr b args)" "inputs_ok F E (root g) (BoolExpr b args)"
      and ctx: "(ctx, t) \<in> {(EXPR_CTX_EXACT, False), (EXPR_CTX_TRUTH, True)}"
    have "inputs_ok F E (root g) y" if "y \<in> set args" for y
      using that by (intro inputs_ok_mono [OF a(3)]) auto
    with a(1,2) ctx ih show "sound_at C W F S E g g' ctx t (BoolExpr b args)"
      by (intro bool_sound [OF False ctx] pushable_list) auto
  qed
qed

lemma pushable_case:
  assumes ws: "\<And>c r. CaseWhen c r \<in> set ws \<Longrightarrow> pushable C W F c \<and> pushable C W F r"
    and d: "\<And>y. y \<in> set_option d \<Longrightarrow> pushable C W F y"
  shows "pushable C W F (CaseExpr i arg ws d)"
proof (rule pushableI)
  fix S E g g' ctx t
  assume sc: "scene C F S E g g'" and s: "searched (CaseExpr i arg ws d)"
    and a: "inputs_ok F E (root g) (CaseExpr i arg ws d)"
    and ctx: "(ctx, t) \<in> {(EXPR_CTX_EXACT, False), (EXPR_CTX_TRUTH, True)}"
  have arg: "arg = None" using s by simp
  have "when_ih C W F S E g g' ctx t v" if v: "v \<in> set ws" for v
  proof (cases v)
    case (CaseWhen c r)
    have "set (needs_when (root g) v) \<subseteq> set (needs (root g) (CaseExpr i arg ws d))" using v by auto
    then have "inputs_ok F E (root g) c" "inputs_ok F E (root g) r" unfolding CaseWhen
      by (simp_all only: inputs_ok_mono [OF a] needs_when.simps set_append Un_subset_iff)
    moreover have "searched c" "searched r" using s v CaseWhen by (auto simp: list_all_iff)
    ultimately
    show ?thesis using ws [of c r] sc ctx v CaseWhen
      by (auto simp: when_ih_def intro!: pushableD)
  qed
  moreover have "sound_at C W F S E g g' ctx t y" if y: "y \<in> set_option d" for y
    using d [OF y] sc ctx s y by (intro pushableD inputs_ok_mono [OF a]) auto
  ultimately show "sound_at C W F S E g g' ctx t (CaseExpr i arg ws d)"
    unfolding arg using case_sound [OF ctx, of ws C W F S E g g' d i] by blast
qed


lemma pushable_all:
  shows "pushable C W F x \<and> parts_pushable C W F x"
    and "case v of CaseWhen c r \<Rightarrow> pushable C W F c \<and> pushable C W F r"
proof (induction x and v rule: expr.induct case_when.induct)
  case (OpExpr op args)
  have "pushable C W F (OpExpr op args)"
  proof (rule pushableI)
    fix S E g g' ctx t
    assume a: "scene C F S E g g'" "searched (OpExpr op args)" "inputs_ok F E (root g) (OpExpr op args)"
    have "inputs_ok F E (root g) y" if "y \<in> set args" for y
      using that by (intro inputs_ok_mono [OF a(3)]) auto
    with a(1,2) OpExpr show "sound_at C W F S E g g' ctx t (OpExpr op args)"
      by (intro op_sound [OF sceneD(1,4,2) [OF a(1)]] pushable_list) auto
  qed
  then show ?case by (simp add: parts_pushable_def)
next
  case (ScalarArrayOpExpr op any y arr)
  have "pushable C W F (ScalarArrayOpExpr op any y arr)"
  proof (rule pushableI)
    fix S E g g' ctx t
    let ?x = "ScalarArrayOpExpr op any y arr"
    assume a: "scene C F S E g g'" "searched ?x" "inputs_ok F E (root g) ?x"
      and ctx: "(ctx, t) \<in> {(EXPR_CTX_EXACT, False), (EXPR_CTX_TRUTH, True)}"
    have s: "sound_at C W F S E g g' EXPR_CTX_EXACT False y" "sound_at C W F S E g g' EXPR_CTX_EXACT False arr"
      using ScalarArrayOpExpr a by (auto intro!: pushableD inputs_ok_mono [OF a(3)])
    have "\<exists>xs. pg_eval F e arr = Some (VArr xs)" if "(root g, e) \<in> E" for e
      using a(3) that by (auto simp: inputs_ok_def need_met_def)
    with s a(1) ctx show "sound_at C W F S E g g' ctx t ?x"
      by (intro saop_sound [OF sceneD(1,2) [OF a(1)]]) auto
  qed
  then show ?case by (simp add: parts_pushable_def)
next
  case (RelabelType y)
  have "pushable C W F (RelabelType y)"
  proof (rule pushableI)
    fix S E g g' ctx t
    assume a: "scene C F S E g g'" "searched (RelabelType y)" "inputs_ok F E (root g) (RelabelType y)"
      and ctx: "(ctx, t) \<in> {(EXPR_CTX_EXACT, False), (EXPR_CTX_TRUTH, True)}"
    with RelabelType show "sound_at C W F S E g g' ctx t (RelabelType y)"
      by (intro relabel_sound [OF ctx] pushableD [of C W F y]) (auto simp: inputs_ok_def)
  qed
  then show ?case by (simp add: parts_pushable_def)
next
  case (BoolExpr b args)
  then show ?case using pushable_bool [of args C W F b] by (simp add: parts_pushable_def)
next
  case (NullTest n y)
  have "pushable C W F (NullTest n y)"
  proof (rule pushableI)
    fix S E g g' ctx t
    assume "scene C F S E g g'" "searched (NullTest n y)" "inputs_ok F E (root g) (NullTest n y)"
    with NullTest show "sound_at C W F S E g g' ctx t (NullTest n y)"
      by (intro nulltest_sound pushableD [of C W F y]) (auto simp: inputs_ok_def)
  qed
  then show ?case by (simp add: parts_pushable_def)
next
  case (ArrayExpr m xs)
  have "pushable C W F (ArrayExpr m xs)"
  proof (rule pushableI)
    fix S E g g' ctx t
    assume a: "scene C F S E g g'" "searched (ArrayExpr m xs)" "inputs_ok F E (root g) (ArrayExpr m xs)"
    have "inputs_ok F E (root g) y" if "y \<in> set xs" for y
      using that by (intro inputs_ok_mono [OF a(3)]) auto
    with a(1,2) ArrayExpr show "sound_at C W F S E g g' ctx t (ArrayExpr m xs)"
      by (intro array_sound pushable_list) auto
  qed
  then show ?case by (simp add: parts_pushable_def)
next
  case (CaseExpr i arg ws d)
  have "pushable C W F c \<and> pushable C W F r" if "CaseWhen c r \<in> set ws" for c r
    using CaseExpr(2) [OF that] by simp
  with CaseExpr(3) pushable_case [of ws C W F d i arg] show ?case by (simp add: parts_pushable_def)
next
  case (SubPlan sp lhs args targets junk quals having)
  let ?x = "SubPlan sp lhs args targets junk quals having"
  have parts: "parts_pushable C W F ?x" using SubPlan by (auto simp: parts_pushable_def)
  have "pushable C W F ?x"
  proof (rule pushableI)
    fix S E g g' ctx t
    assume a: "scene C F S E g g'" "searched ?x" "inputs_ok F E (root g) ?x"
      and ctx: "(ctx, t) \<in> {(EXPR_CTX_EXACT, False), (EXPR_CTX_TRUTH, True)}"
    show "sound_at C W F S E g g' ctx t ?x"
      using parts_pushableD [OF parts a(2,3,1)] a
      by (intro subplan_sound [OF sceneD(5) [OF a(1)] sceneD(3) [OF a(1)] _ ctx]) auto
  qed
  with parts show ?case by blast
next
  case (Param i ty m)
  have "pushable C W F (Param i ty m)"
  proof (rule pushableI)
    fix S E g g' ctx t
    assume sc: "scene C F S E g g'"
    obtain c where "deparseParam g' i = Inr c" "\<And>e. (root g, e) \<in> E \<Longrightarrow> ch_eval F S e c = param_val e i"
      using param_text [OF sceneD(4) [OF sc], of i] sceneD(2) [OF sc] by auto
    then show "sound_at C W F S E g g' ctx t (Param i ty m)" by (auto simp: sound_at_def)
  qed
  then show ?case by (simp add: parts_pushable_def)
qed (auto simp: pushable_def parts_pushable_def sound_at_def)


section \<open>Properties\<close>

text \<open>A catalog, server and table on which the properties are applied.\<close>

definition ex_var :: expr where
  "ex_var = Var \<lparr>varno = 1, varattno = 1, varlevelsup = 0, vartype = 23, varnulled = False\<rparr>"

definition ex_column :: expr where
  "ex_column = Var \<lparr>varno = 1, varattno = 2, varlevelsup = 0, vartype = 23, varnulled = False\<rparr>"

definition ex_catalog :: catalog where
  "ex_catalog = \<lparr>oprname = (\<lambda>op. if op = 96 then Some ''='' else if op = 518 then Some ''<>''
       else if op = 521 then Some ''>'' else None),
     oprcode = (\<lambda>_. 0), fmgr_oid = (\<lambda>_. 1), custom_operator = (\<lambda>_. None), attnotnull = (\<lambda>_ _ _. False)\<rparr>"

definition ex_walk :: walk where
  "ex_walk = \<lparr>type_shippable = (\<lambda>_. True), op_shippable = (\<lambda>op. op \<noteq> 521), server_version_ge = (\<lambda>_ _. True),
     server = Some 7, subroots = 1\<rparr>"

definition ex_params :: sql_params where
  "ex_params = \<lparr>opfun = (\<lambda>op args. case args of
       [x, y] \<Rightarrow> if op = 521 then int_op (\<lambda>a b. VBool (a > b)) x y
                 else sql_bool (if op = 518 then not3 (eq3 x y) else eq3 x y)
     | _ \<Rightarrow> None), group_rows = (\<lambda>_ rs. rs)\<rparr>"

definition ex_functions :: ch_functions where
  "ex_functions = \<lparr>
     f_in = (\<lambda>x xs. case x of None \<Rightarrow> None | Some v \<Rightarrow> Some (VBool (Some v \<in> set xs))),
     f_notIn = (\<lambda>x xs. case x of None \<Rightarrow> None | Some v \<Rightarrow> Some (VBool (Some v \<notin> set xs))),
     f_has = (\<lambda>a y. Some (VBool (y \<in> set (elems a)))),
     f_countEqual = (\<lambda>a y. Some (VInt (int (count_list (elems a) y)))),
     f_length = (\<lambda>a. Some (VInt (int (length (elems a))))),
     f_notEmpty = (\<lambda>a. Some (VBool (elems a \<noteq> []))), enclosing = []\<rparr>"

definition ex_inner :: env where
  "ex_inner = Env (\<lambda>v. Some (VInt (if varattno v = 1 then 5 else 3))) (\<lambda>_. Some (VInt 3)) None (\<lambda>_. [])"

definition ex_row :: env where
  "ex_row = Env (\<lambda>_. Some (VInt 3)) (\<lambda>_. None) None (\<lambda>i. if i = 1 then [ex_inner] else [])"

definition ex_rows :: "(nat option \<times> env) set" where
  "ex_rows = {(None, ex_row), (Some 1, ex_inner)}"

definition ex_subplan :: subplan where
  "ex_subplan = \<lparr>subLinkType = ANY_SUBLINK, plan_id = 1, test_opno = 96, test_shape_ok = True, parParam = [0],
     parse = \<lparr>setOperations = False, cteList = False, windowClause = False, distinctClause = False,
       sortClause = False, limitOffset = False, limitCount = False, groupingSets = False, hasTargetSRFs = False,
       init_plans = False, groupClause = False, hasAggs = False,
       fromlist = [\<lparr>is_rangetblref = True, rtindex = 1, is_plain_foreign_table = True, from_serverid = 7\<rparr>]\<rparr>\<rparr>"

text \<open>\<open>a NOT IN (SELECT a FROM t WHERE b = $0)\<close> with \<open>a\<close> for \<open>$0\<close>, \<open>a = ANY ('{3,NULL}')\<close> and \<open>a > 2\<close> for an operator that is not shippable.\<close>

definition ex_conds :: "expr list" where
  "ex_conds = [BoolExpr NOT_EXPR [SubPlan ex_subplan ex_var [ex_var] [ex_var] [] [OpExpr 96 [ex_column, Param 0 23 False]] []],
     ScalarArrayOpExpr 96 True ex_var (Const (CArrayNulls [Some (VInt 3), None])),
     OpExpr 521 [ex_var, Const (CScalar (VInt 2))]]"

definition ex_cxt :: glob_cxt where
  "ex_cxt = \<lparr>root = None, relids = [1], outer_arg = Map.empty\<rparr>"

lemma ex_world: "pushdown_world ex_catalog ex_params ex_functions ex_rows"
proof -
  have "documented ex_functions" by (simp add: documented_def ex_functions_def elems_def)
  moreover have "arith_total ex_catalog ex_params"
    by (simp add: arith_total_def ex_catalog_def never_null_opfuncs_def)
  moreover have "equality_ops ex_catalog ex_params"
    by (simp add: equality_ops_def chfdw_is_equal_op_def ex_catalog_def ex_params_def split: if_splits)
  moreover have "rows_closed ex_catalog ex_params ex_rows"
    by (auto simp: rows_closed_def row_ok_def ex_catalog_def ex_params_def ex_rows_def ex_row_def ex_inner_def)
  ultimately show ?thesis by (simp add: pushdown_world_def ex_catalog_def)
qed

lemma ex_own_rows: "own_rows ex_params ex_row 1 = {ex_inner}"
  by (auto simp: own_rows_def ex_params_def ex_row_def)

lemma ex_needs_met:
  "need_met ex_params ex_rows None (ArgsOf 1 [(0, ex_var)])"
  "need_met ex_params ex_rows None (ArrayOf (Const (CArrayNulls vs)))"
proof -
  have "pg_eval ex_params ex_row ex_var = Some (VInt 3)" "param_val ex_inner i = Some (VInt 3)" for i
    by (simp_all add: ex_var_def ex_row_def ex_inner_def)
  moreover have "(None, e) \<in> ex_rows \<Longrightarrow> e = ex_row" for e by (simp add: ex_rows_def)
  ultimately show "need_met ex_params ex_rows None (ArgsOf 1 [(0, ex_var)])"
    using ex_own_rows unfolding need_met_def by fastforce
qed (simp add: need_met_def)

lemma ex_conds_ok: "x \<in> set ex_conds \<Longrightarrow> searched x \<and> inputs_ok ex_params ex_rows None x"
proof -
  assume x: "x \<in> set ex_conds"
  have "searched x" using x by (auto simp: ex_conds_def ex_var_def ex_column_def)
  moreover have "set (needs None x) \<subseteq> {(None, ArgsOf 1 [(0, ex_var)]), (None, ArrayOf (Const (CArrayNulls [Some (VInt 3), None])))}"
    using x by (auto simp: ex_conds_def ex_var_def ex_column_def ex_subplan_def)
  ultimately show ?thesis using ex_needs_met unfolding inputs_ok_def by blast
qed






text \<open>
  C40: The walker and the deparser disagree on \<open>CASE x WHEN v\<close> when PostgreSQL casts the tested
  value: the comparison then has a \<open>RelabelType\<close> above \<open>CaseTestExpr\<close>, which the walker
  accepts wherever its parts are accepted, while the deparser always raises an error.
\<close>

theorem simple_case_with_cast_raises:
  assumes "custom_operator C op = None"
    and "chfdw_is_foreign_expr C W g True x" and "chfdw_is_foreign_expr C W g True v"
    and "chfdw_is_foreign_expr C W g exact r"
    and "\<forall>y. type_shippable W y" and "op_shippable W op"
  shows "chfdw_is_foreign_expr C W g exact
           (CaseExpr i (Some x) [CaseWhen (OpExpr op [RelabelType CaseTestExpr, v]) r] None)
    \<and> (\<exists>err. deparseExpr C g t (CaseExpr i (Some x) [CaseWhen (OpExpr op [RelabelType CaseTestExpr, v]) r] None)
           = Inl err)"
proof
  have "\<not> is_interval_param_op C op args" for args
  proof
    assume ip: "is_interval_param_op C op args"
    then obtain y i ty m where "args = [y, Param i ty m]" by (rule interval_param_args)
    with ip assms(1) show False by (simp add: is_interval_param_op_def)
  qed
  then show "chfdw_is_foreign_expr C W g exact
      (CaseExpr i (Some x) [CaseWhen (OpExpr op [RelabelType CaseTestExpr, v]) r] None)"
    using assms by (cases exact) (simp_all add: chfdw_is_foreign_expr_def)
  show "\<exists>err. deparseExpr C g t (CaseExpr i (Some x) [CaseWhen (OpExpr op [RelabelType CaseTestExpr, v]) r] None)
      = Inl err"
    using assms(1) by (cases "deparseExpr C g False x") simp_all
qed

theorem simple_case_with_cast_raises_witness:
  "\<exists>err. deparseExpr ex_catalog ex_cxt True
     (CaseExpr False (Some ex_var) [CaseWhen (OpExpr 96 [RelabelType CaseTestExpr, Const (CScalar (VStr ''a''))]) ex_var] None)
     = Inl err"
proof -
  have "chfdw_is_foreign_expr ex_catalog ex_walk ex_cxt b ex_var"
    "chfdw_is_foreign_expr ex_catalog ex_walk ex_cxt b (Const (CScalar (VStr ''a'')))" for b
    by (simp_all add: chfdw_is_foreign_expr_def ex_var_def ex_walk_def ex_cxt_def)
  moreover have "custom_operator ex_catalog 96 = None" "\<forall>y. type_shippable ex_walk y" "op_shippable ex_walk 96"
    by (simp_all add: ex_catalog_def ex_walk_def)
  ultimately show ?thesis using simple_case_with_cast_raises by blast
qed

end
