(* ===== verification/Joins.thy ===== *)
theory Joins
  imports Settings Pushdown
begin

text \<open>
  Join pushdown: which joins \<open>src/fdw.c\<close> sends to the server (\<open>clickhouseGetForeignRelSize\<close>,
  \<open>foreign_join_ok\<close>, \<open>clickhouseGetForeignJoinPaths\<close>) and the FROM and WHERE clauses that
  \<open>src/deparse.c\<close> writes for them (\<open>deparseFromExprForRel\<close>, \<open>deparseRangeTblRef\<close>,
  \<open>is_subquery_var\<close>), with the proof that ClickHouse's rows are those of PostgreSQL's join.

  Relations are trees: a base relation, or a join with the two relations it was built from,
  each with the FDW's private data. Bitmapsets are lists used as sets. The planner's inputs
  (the restriction lists, the placeholder list, the lengths of the range table and of the list
  of join relations) are arguments. Costs and paths are left out: they never change which rows
  a query returns. A clause stays an expression here; that its remote text has the same truth
  value is the subject of theory \<open>Pushdown\<close>.
\<close>

section \<open>Planner data\<close>

datatype JoinType =
    JOIN_INNER | JOIN_LEFT | JOIN_FULL | JOIN_RIGHT | JOIN_SEMI | JOIN_ANTI | JOIN_RIGHT_SEMI
  | JOIN_RIGHT_ANTI | JOIN_UNIQUE_OUTER | JOIN_UNIQUE_INNER

definition IS_OUTER_JOIN :: "JoinType \<Rightarrow> bool" where
  "IS_OUTER_JOIN jt \<longleftrightarrow> jt \<in> {JOIN_LEFT, JOIN_FULL, JOIN_RIGHT, JOIN_ANTI, JOIN_RIGHT_ANTI}"

record RestrictInfo =
  clause :: expr
  is_pushed_down :: bool
  required_relids :: "nat list"

definition RINFO_IS_PUSHED_DOWN :: "RestrictInfo \<Rightarrow> nat list \<Rightarrow> bool" where
  "RINFO_IS_PUSHED_DOWN ri rels \<longleftrightarrow> is_pushed_down ri \<or> \<not> set (required_relids ri) \<subseteq> set rels"

record CHFdwRelationInfo =
  pushdown_safe :: bool
  remote_conds :: "RestrictInfo list"
  local_conds :: "RestrictInfo list"
  attrs_used :: "int list"
  use_remote_estimate :: bool
  shippable_extensions :: "Oid list"
  fp_server :: Oid
  fp_user :: "Oid option"
  relation_name :: string
  jointype :: JoinType
  joinclauses :: "RestrictInfo list"
  make_outerrel_subquery :: bool
  make_innerrel_subquery :: bool
  lower_subquery_rels :: "nat list"
  relation_index :: nat

text \<open>\<open>palloc0\<close> of the private data; the first join type is the inner one.\<close>

definition palloc0_info :: CHFdwRelationInfo where
  "palloc0_info = \<lparr>pushdown_safe = False, remote_conds = [], local_conds = [], attrs_used = [], use_remote_estimate = False,
     shippable_extensions = [], fp_server = 0, fp_user = None, relation_name = [], jointype = JOIN_INNER,
     joinclauses = [], make_outerrel_subquery = False, make_innerrel_subquery = False,
     lower_subquery_rels = [], relation_index = 0\<rparr>"

text \<open>
  A base relation has its range table index, its target and its private data (none when it is
  not a foreign table of this wrapper); a join also has its relids, which on servers from 16
  on include the index of the outer join itself, and the two relations whose addresses the
  private data holds.
\<close>

datatype RelOptInfo =
    is_base: BaseRel (relid: nat) (reltarget: "expr list") (fdw_private: "CHFdwRelationInfo option")
  | is_join: JoinRel (join_relids: "nat list") (reltarget: "expr list") (fdw_private: "CHFdwRelationInfo option")
      (outerrel: RelOptInfo) (innerrel: RelOptInfo)

abbreviation IS_JOIN_REL :: "RelOptInfo \<Rightarrow> bool" where
  "IS_JOIN_REL \<equiv> is_join"

definition rel_relids :: "RelOptInfo \<Rightarrow> nat list" where
  "rel_relids rel = (case rel of BaseRel i _ _ \<Rightarrow> [i] | JoinRel rels _ _ _ _ \<Rightarrow> rels)"

record PlannerInfo =
  ph_eval_at :: "nat list list"
  rtable_length :: nat
  join_rel_list_length :: nat

text \<open>The join relation that is being considered.\<close>

record join_rel =
  joinrelids :: "nat list"
  top_parent_relids :: "nat list option"
  join_target :: "expr list"

text \<open>
  The columns in an expression, \<open>pull_var_clause\<close>; of a subquery, those of its test
  expression and its arguments. The trees have no placeholders: their effect on the decision
  is the list of places where they are evaluated.
\<close>

fun expr_vars :: "expr \<Rightarrow> var list" and when_vars :: "case_when \<Rightarrow> var list" where
  "expr_vars (Var v) = [v]"
| "expr_vars (Const c) = []"
| "expr_vars (Param i t m) = []"
| "expr_vars (OpExpr op args) = concat (map expr_vars args)"
| "expr_vars (ScalarArrayOpExpr op any x arr) = expr_vars x @ expr_vars arr"
| "expr_vars (RelabelType x) = expr_vars x"
| "expr_vars (BoolExpr b args) = concat (map expr_vars args)"
| "expr_vars (NullTest n x) = expr_vars x"
| "expr_vars (ArrayExpr m xs) = concat (map expr_vars xs)"
| "expr_vars (CaseExpr i t ws d) =
     (case t of None \<Rightarrow> [] | Some x \<Rightarrow> expr_vars x) @ concat (map when_vars ws)
     @ (case d of None \<Rightarrow> [] | Some x \<Rightarrow> expr_vars x)"
| "expr_vars CaseTestExpr = []"
| "expr_vars (SubPlan sp lhs args targets junk quals having) = expr_vars lhs @ concat (map expr_vars args)"
| "when_vars (CaseWhen c r) = expr_vars c @ expr_vars r"

text \<open>\<open>pull_varattnos\<close>: the attribute numbers of a relation's columns, 0 for the whole row.\<close>

definition pull_varattnos :: "nat \<Rightarrow> expr list \<Rightarrow> int list" where
  "pull_varattnos i xs = map varattno (filter (\<lambda>v. varno v = i) (concat (map expr_vars xs)))"

section \<open>Decisions\<close>

text \<open>
  \<open>clickhouseGetForeignRelSize\<close>: a base relation is always pushed down; its restriction
  clauses are split into remote and local ones, and the columns that the target and the local
  clauses read will be fetched.
\<close>

definition clickhouseGetForeignRelSize ::
    "catalog \<Rightarrow> walk \<Rightarrow> Oid \<Rightarrow> string \<Rightarrow> nat \<Rightarrow> expr list \<Rightarrow> RestrictInfo list \<Rightarrow> RelOptInfo" where
  "clickhouseGetForeignRelSize C W srv name i target baserestrictinfo =
     (let foreign = (\<lambda>ri. chfdw_is_foreign_expr C W \<lparr>root = None, relids = [i], outer_arg = Map.empty\<rparr> False (clause ri))
      in BaseRel i target (Some (palloc0_info\<lparr>pushdown_safe := True, fp_server := srv,
           remote_conds := filter foreign baserestrictinfo,
           local_conds := filter (\<lambda>ri. \<not> foreign ri) baserestrictinfo,
           attrs_used := pull_varattnos i (target @ map clause (filter (\<lambda>ri. \<not> foreign ri) baserestrictinfo)),
           relation_name := name, relation_index := i\<rparr>)))"

text \<open>
  An operator that is missing from the catalog, for which \<open>chfdw_is_equal_op\<close> raises an error,
  makes no simple clause.
\<close>

definition is_simple_join_clause :: "catalog \<Rightarrow> RestrictInfo \<Rightarrow> bool" where
  "is_simple_join_clause C ri = (case clause ri of
       OpExpr op [Var _, Var _] \<Rightarrow> chfdw_is_equal_op C op = Inr CH_OP_EQ
     | _ \<Rightarrow> False)"

text \<open>The remaining conditions, and the list \<open>to\<close> with the extracted ones appended.\<close>

fun extract_join_equals ::
    "catalog \<Rightarrow> RestrictInfo list \<Rightarrow> RestrictInfo list \<Rightarrow> RestrictInfo list \<times> RestrictInfo list" where
  "extract_join_equals C [] to = ([], to)"
| "extract_join_equals C (c # cs) to =
     (if is_simple_join_clause C c then extract_join_equals C cs (to @ [c])
      else (case extract_join_equals C cs to of (res, to) \<Rightarrow> (c # res, to)))"

definition semijoin_target_ok :: "join_rel \<Rightarrow> RelOptInfo \<Rightarrow> RelOptInfo \<Rightarrow> bool" where
  "semijoin_target_ok j outer inner =
     list_all (\<lambda>v. \<not> (varno v \<in> set (rel_relids inner) \<and> varno v \<notin> set (rel_relids outer)))
       (concat (map expr_vars (join_target j)))"

definition merge_fdw_options ::
    "CHFdwRelationInfo \<Rightarrow> CHFdwRelationInfo \<Rightarrow> CHFdwRelationInfo option \<Rightarrow> CHFdwRelationInfo" where
  "merge_fdw_options fp fo fi =
     (let fp = fp\<lparr>shippable_extensions := shippable_extensions fo, use_remote_estimate := use_remote_estimate fo\<rparr>
      in case fi of None \<Rightarrow> fp
         | Some fi \<Rightarrow> fp\<lparr>use_remote_estimate := use_remote_estimate fo \<or> use_remote_estimate fi\<rparr>)"

text \<open>
  The loop over the restriction list: join clauses, remote and local conditions, or nothing
  when a clause of an outer join cannot be sent.
\<close>

fun split_restrictlist ::
    "(RestrictInfo \<Rightarrow> bool) \<Rightarrow> JoinType \<Rightarrow> nat list \<Rightarrow> RestrictInfo list
      \<Rightarrow> (RestrictInfo list \<times> RestrictInfo list \<times> RestrictInfo list) option" where
  "split_restrictlist foreign jt rels [] = Some ([], [], [])"
| "split_restrictlist foreign jt rels (ri # ris) =
     (if IS_OUTER_JOIN jt \<and> \<not> RINFO_IS_PUSHED_DOWN ri rels
      then (if \<not> foreign ri then None
            else map_option (\<lambda>(js, rs, ls). (ri # js, rs, ls)) (split_restrictlist foreign jt rels ris))
      else if foreign ri then map_option (\<lambda>(js, rs, ls). (js, ri # rs, ls)) (split_restrictlist foreign jt rels ris)
      else map_option (\<lambda>(js, rs, ls). (js, rs, ri # ls)) (split_restrictlist foreign jt rels ris))"

definition chfdw_get_jointype_name :: "JoinType \<Rightarrow> string pg" where
  "chfdw_get_jointype_name jt = (case jt of
       JOIN_INNER \<Rightarrow> Inr ''INNER'' | JOIN_LEFT \<Rightarrow> Inr ''LEFT'' | JOIN_RIGHT \<Rightarrow> Inr ''RIGHT''
     | JOIN_FULL \<Rightarrow> Inr ''FULL'' | JOIN_SEMI \<Rightarrow> Inr ''LEFT SEMI'' | JOIN_ANTI \<Rightarrow> Inr ''LEFT ANTI''
     | _ \<Rightarrow> Inl (Ereport ERRCODE_INTERNAL_ERROR ''unsupported join type'' []))"

definition is_semi_anti_rel :: "RelOptInfo \<Rightarrow> CHFdwRelationInfo \<Rightarrow> bool" where
  "is_semi_anti_rel rel fp \<longleftrightarrow> IS_JOIN_REL rel \<and> jointype fp \<in> {JOIN_SEMI, JOIN_ANTI}"

text \<open>
  The switch that pulls the conditions of the joining relations up: the new lists of join
  clauses and remote conditions, whether the sides become subqueries, and the relids they add.
\<close>

definition pull_up_conds ::
    "catalog \<Rightarrow> JoinType \<Rightarrow> RelOptInfo \<Rightarrow> RelOptInfo \<Rightarrow> CHFdwRelationInfo \<Rightarrow> CHFdwRelationInfo
      \<Rightarrow> CHFdwRelationInfo \<Rightarrow> CHFdwRelationInfo" where
  "pull_up_conds C jt outer inner fo fi fp = (case jt of
       JOIN_INNER \<Rightarrow>
         (case extract_join_equals C (remote_conds fp @ remote_conds fi @ remote_conds fo) (joinclauses fp) of
            (rs, js) \<Rightarrow> fp\<lparr>remote_conds := rs, joinclauses := js\<rparr>)
     | JOIN_LEFT \<Rightarrow> fp\<lparr>joinclauses := joinclauses fp @ remote_conds fi,
                       remote_conds := remote_conds fp @ remote_conds fo\<rparr>
     | JOIN_RIGHT \<Rightarrow> fp\<lparr>joinclauses := joinclauses fp @ remote_conds fo,
                        remote_conds := remote_conds fp @ remote_conds fi\<rparr>
     | JOIN_FULL \<Rightarrow>
         (let fp = (if remote_conds fo \<noteq> []
                    then fp\<lparr>make_outerrel_subquery := True,
                            lower_subquery_rels := lower_subquery_rels fp @ rel_relids outer\<rparr> else fp)
          in if remote_conds fi \<noteq> []
             then fp\<lparr>make_innerrel_subquery := True,
                     lower_subquery_rels := lower_subquery_rels fp @ rel_relids inner\<rparr> else fp)
     | _ \<Rightarrow>
         (case extract_join_equals C (remote_conds fp @ remote_conds fo) (joinclauses fp @ remote_conds fi) of
            (rs, js) \<Rightarrow> fp\<lparr>remote_conds := rs, joinclauses := js\<rparr>))"

text \<open>
  \<open>foreign_join_ok\<close>: the private data of a join that can be pushed down, or nothing. The
  error of the switch's default case is out of reach, because the first switch has returned.
\<close>

definition foreign_join_ok ::
    "catalog \<Rightarrow> walk \<Rightarrow> PlannerInfo \<Rightarrow> join_rel \<Rightarrow> JoinType \<Rightarrow> RelOptInfo \<Rightarrow> RelOptInfo \<Rightarrow> RestrictInfo list
      \<Rightarrow> CHFdwRelationInfo \<Rightarrow> CHFdwRelationInfo option" where
  "foreign_join_ok C W R j jt outer inner restrictlist fp =
     (if \<not> (case jt of
               JOIN_INNER \<Rightarrow> True | JOIN_LEFT \<Rightarrow> True | JOIN_RIGHT \<Rightarrow> True | JOIN_FULL \<Rightarrow> True
             | JOIN_SEMI \<Rightarrow> semijoin_target_ok j outer inner | JOIN_ANTI \<Rightarrow> semijoin_target_ok j outer inner
             | _ \<Rightarrow> False) then None
      else case (fdw_private outer, fdw_private inner) of
        (Some fo, Some fi) \<Rightarrow>
          if \<not> pushdown_safe fo \<or> \<not> pushdown_safe fi then None
          else if is_semi_anti_rel outer fo \<or> is_semi_anti_rel inner fi then None
          else if local_conds fo \<noteq> [] \<or> local_conds fi \<noteq> [] then None
          else
            (let fp = merge_fdw_options (fp\<lparr>fp_server := fp_server fo\<rparr>) fo (Some fi);
                 foreign = (\<lambda>ri. chfdw_is_foreign_expr C W \<lparr>root = None, relids = joinrelids j, outer_arg = Map.empty\<rparr> False (clause ri));
                 rels = (case top_parent_relids j of Some rels \<Rightarrow> rels | None \<Rightarrow> joinrelids j)
             in case split_restrictlist foreign jt (joinrelids j) restrictlist of
               None \<Rightarrow> None
             | Some (js, rs, ls) \<Rightarrow>
                 if list_ex (\<lambda>ph. set ph \<subseteq> set rels \<and> \<not> set rels \<subseteq> set ph) (ph_eval_at R) then None
                 else
                   (let fp = fp\<lparr>joinclauses := js, remote_conds := remote_conds fp @ rs,
                                local_conds := local_conds fp @ ls, jointype := jt,
                                make_outerrel_subquery := False, make_innerrel_subquery := False,
                                lower_subquery_rels := lower_subquery_rels fo @ lower_subquery_rels fi\<rparr>;
                        fp = pull_up_conds C jt outer inner fo fi fp
                    in if jt = JOIN_ANTI \<and> (IS_JOIN_REL outer \<or> IS_JOIN_REL inner) then None
                       else if jt \<in> {JOIN_SEMI, JOIN_ANTI} \<and> \<not> list_ex (is_simple_join_clause C) (joinclauses fp)
                       then None
                       else
                         (case chfdw_get_jointype_name jt of
                            Inl _ \<Rightarrow> None
                          | Inr name \<Rightarrow>
                              Some (fp\<lparr>pushdown_safe := True,
                                fp_user := (if use_remote_estimate fp
                                            then (if use_remote_estimate fo then fp_user fo else fp_user fi)
                                            else None),
                                relation_name := ''('' @ relation_name fo @ '') '' @ name @ '' JOIN (''
                                                 @ relation_name fi @ '')'',
                                relation_index := rtable_length R + join_rel_list_length R\<rparr>))))
      | _ \<Rightarrow> None)"

text \<open>
  \<open>clickhouseGetForeignJoinPaths\<close>: the first join of two relations that gives this relation
  decides, and a join that was refused stays refused.
\<close>

definition clickhouseGetForeignJoinPaths ::
    "catalog \<Rightarrow> walk \<Rightarrow> PlannerInfo \<Rightarrow> join_rel \<Rightarrow> RelOptInfo option \<Rightarrow> RelOptInfo \<Rightarrow> RelOptInfo \<Rightarrow> JoinType
      \<Rightarrow> RestrictInfo list \<Rightarrow> RelOptInfo" where
  "clickhouseGetForeignJoinPaths C W R j considered outer inner jt restrictlist = (case considered of
       Some rel \<Rightarrow> rel
     | None \<Rightarrow> JoinRel (joinrelids j) (join_target j)
         (Some (case foreign_join_ok C W R j jt outer inner restrictlist palloc0_info of
                  None \<Rightarrow> palloc0_info | Some fp \<Rightarrow> fp)) outer inner)"

section \<open>The FROM and WHERE clauses\<close>

text \<open>
  What is written: a table with its alias \<open>r<i>\<close> if it has one, a join with its keyword, its
  two sides and the conditions of ON (none is written as \<open>(TRUE)\<close>), or a subquery with its
  output, its alias \<open>s<i>\<close> and the number of its column aliases.
\<close>

datatype ch_from =
    ChTable nat bool
  | ChJoinFrom (all_modifier: bool) (join_name: string) ch_from ch_from "expr list"
  | ChSubselect "expr list" ch_from "expr list" nat nat

text \<open>Reading the private data of a relation that has none, which no caller does.\<close>

definition null_private :: pg_error where
  "null_private = Ereport ERRCODE_INTERNAL_ERROR ''NULL pointer'' []"

text \<open>
  \<open>deparseFromExprForRel\<close> and \<open>deparseRangeTblRef\<close>, with \<open>ignore_rel = 0\<close>, which is how they
  are called; each also merges the settings of the tables it meets. A subquery is the SELECT
  that \<open>chfdw_deparse_select_stmt_for_rel\<close> writes: the relation's target, its FROM clause and
  its remote conditions.
\<close>

function deparseFromExprForRel ::
    "(nat \<Rightarrow> DefElem list) \<Rightarrow> RelOptInfo \<Rightarrow> bool \<Rightarrow> DefElem list \<Rightarrow> (ch_from \<times> DefElem list) pg"
and deparseRangeTblRef ::
    "(nat \<Rightarrow> DefElem list) \<Rightarrow> RelOptInfo \<Rightarrow> bool \<Rightarrow> DefElem list \<Rightarrow> (ch_from \<times> DefElem list) pg" where
  "deparseFromExprForRel T (BaseRel i target fp) use_alias settings =
     Inr (ChTable i use_alias, chfdw_merge_settings settings (T i))"
| "deparseFromExprForRel T (JoinRel rels target fp outer inner) use_alias settings = (case fp of
       None \<Rightarrow> Inl null_private
     | Some fp \<Rightarrow>
         rbind (deparseRangeTblRef T outer (make_outerrel_subquery fp) settings) (\<lambda>(so, settings).
         rbind (deparseRangeTblRef T inner (make_innerrel_subquery fp) settings) (\<lambda>(si, settings).
         rbind (chfdw_get_jointype_name (jointype fp)) (\<lambda>name.
           Inr (ChJoinFrom (jointype fp \<notin> {JOIN_SEMI, JOIN_ANTI}) name so si (map clause (joinclauses fp)), settings)))))"
| "deparseRangeTblRef T rel make_subquery settings = (case fdw_private rel of
       None \<Rightarrow> Inl null_private
     | Some fp \<Rightarrow>
         if make_subquery then
           (let quals = map clause (remote_conds fp);
                use_alias = (1 < length (remdups (rel_relids rel)) \<or> list_ex contain_subplans quals)
            in rbind (deparseFromExprForRel T rel use_alias settings) (\<lambda>(q, settings).
                 Inr (ChSubselect (reltarget rel) q quals (relation_index fp) (length (reltarget rel)), settings)))
         else deparseFromExprForRel T rel True settings)"
  by pat_completeness auto
termination
  by (relation "measure (case_sum (\<lambda>(T, rel, a, s). 2 * size rel) (\<lambda>(T, rel, m, s). 2 * size rel + 1))") auto

declare deparseFromExprForRel.simps [simp del] deparseRangeTblRef.simps [simp del]

section \<open>What joins mean\<close>

text \<open>
  A row of a join gives each of its tables a row of that table, and none where an outer join
  has filled in NULLs. SQL's tables and results are bags; they are lists here in the order of
  nested loops, and every statement compares both sides under the same order.

  The world of a query: the rows of each foreign table by range table index, the parameters,
  and the rows of subqueries, which may depend on the current row. For \<open>LEFT SEMI JOIN\<close>
  ClickHouse returns the left row with the columns of one of its matches, and for
  \<open>LEFT ANTI JOIN\<close> with some values in the columns of the right side: both choices are its own.
\<close>

type_synonym row = "nat \<rightharpoonup> (int \<Rightarrow> sqlval)"

record query_world =
  tables :: "nat \<Rightarrow> (int \<Rightarrow> sqlval) list"
  q_params :: "nat \<Rightarrow> sqlval"
  q_subs :: "row \<Rightarrow> nat \<Rightarrow> env list"
  semi_row :: "row \<Rightarrow> row list \<Rightarrow> row"
  anti_row :: "row \<Rightarrow> row"

definition row_var :: "row \<Rightarrow> var \<Rightarrow> sqlval" where
  "row_var r v = (case r (varno v) of None \<Rightarrow> None | Some t \<Rightarrow> t (varattno v))"

definition row_env :: "query_world \<Rightarrow> row \<Rightarrow> env" where
  "row_env Q r = Env (row_var r) (q_params Q) None (q_subs Q r)"

definition all_hold :: "query_world \<Rightarrow> sql_params \<Rightarrow> expr list \<Rightarrow> row \<Rightarrow> bool" where
  "all_hold Q F xs r = list_all (\<lambda>x. tv (pg_eval F (row_env Q r) x) = Some True) xs"

definition table_rows :: "query_world \<Rightarrow> nat \<Rightarrow> row list" where
  "table_rows Q i = map (\<lambda>t. [i \<mapsto> t]) (tables Q i)"

definition matches :: "(row \<Rightarrow> bool) \<Rightarrow> row \<Rightarrow> row list \<Rightarrow> row list" where
  "matches on a B = filter on (map (\<lambda>b. a ++ b) B)"

definition unmatched :: "(row \<Rightarrow> bool) \<Rightarrow> row list \<Rightarrow> row list \<Rightarrow> row list" where
  "unmatched on A B = filter (\<lambda>b. list_all (\<lambda>a. \<not> on (a ++ b)) A) B"

definition inner_rows :: "(row \<Rightarrow> bool) \<Rightarrow> row list \<Rightarrow> row list \<Rightarrow> row list" where
  "inner_rows on A B = concat (map (\<lambda>a. matches on a B) A)"

definition left_rows :: "(row \<Rightarrow> bool) \<Rightarrow> row list \<Rightarrow> row list \<Rightarrow> row list" where
  "left_rows on A B = concat (map (\<lambda>a. let ms = matches on a B in if ms = [] then [a] else ms) A)"

text \<open>The join types of SQL.\<close>

fun join_rows :: "JoinType \<Rightarrow> (row \<Rightarrow> bool) \<Rightarrow> row list \<Rightarrow> row list \<Rightarrow> row list" where
  "join_rows JOIN_INNER on A B = inner_rows on A B"
| "join_rows JOIN_LEFT on A B = left_rows on A B"
| "join_rows JOIN_RIGHT on A B = inner_rows on A B @ unmatched on A B"
| "join_rows JOIN_FULL on A B = left_rows on A B @ unmatched on A B"
| "join_rows JOIN_SEMI on A B = filter (\<lambda>a. matches on a B \<noteq> []) A"
| "join_rows JOIN_ANTI on A B = filter (\<lambda>a. matches on a B = []) A"
| "join_rows _ on A B = []"

text \<open>
  The rows of a FROM clause: ClickHouse's joins by their keywords, with
  \<open>join_use_nulls = 1\<close>, which \<open>src/settings.c\<close> sends by default. A subquery keeps the rows that
  satisfy its WHERE clause; which of its columns can be named is a separate question.
\<close>

definition ch_join_rows :: "query_world \<Rightarrow> string \<Rightarrow> (row \<Rightarrow> bool) \<Rightarrow> row list \<Rightarrow> row list \<Rightarrow> row list" where
  "ch_join_rows Q name on A B =
     (if name = ''INNER'' then join_rows JOIN_INNER on A B
      else if name = ''LEFT'' then join_rows JOIN_LEFT on A B
      else if name = ''RIGHT'' then join_rows JOIN_RIGHT on A B
      else if name = ''FULL'' then join_rows JOIN_FULL on A B
      else if name = ''LEFT SEMI''
      then map (\<lambda>a. semi_row Q a (matches on a B)) (filter (\<lambda>a. matches on a B \<noteq> []) A)
      else if name = ''LEFT ANTI'' then map (anti_row Q) (filter (\<lambda>a. matches on a B = []) A)
      else [])"

fun ch_from_rows :: "query_world \<Rightarrow> sql_params \<Rightarrow> ch_from \<Rightarrow> row list" where
  "ch_from_rows Q F (ChTable i al) = table_rows Q i"
| "ch_from_rows Q F (ChJoinFrom all name so si on) =
     ch_join_rows Q name (all_hold Q F on) (ch_from_rows Q F so) (ch_from_rows Q F si)"
| "ch_from_rows Q F (ChSubselect target q quals idx n) = filter (all_hold Q F quals) (ch_from_rows Q F q)"

text \<open>
  PostgreSQL's side. A plan is the join tree with the restriction list of each base relation
  and join, and the planner data at that point. For an outer join the pushed-down clauses
  filter the joined rows; for the others every clause is a condition of the join.
\<close>

datatype plan =
    PBase nat "expr list" "RestrictInfo list" string
  | PJoin JoinType join_rel PlannerInfo "RestrictInfo list" plan plan

fun plan_tables :: "plan \<Rightarrow> nat set" where
  "plan_tables (PBase i target ris name) = {i}"
| "plan_tables (PJoin jt j R ris p q) = plan_tables p \<union> plan_tables q"

definition join_quals :: "JoinType \<Rightarrow> nat list \<Rightarrow> RestrictInfo list \<Rightarrow> expr list" where
  "join_quals jt rels ris = map clause (filter (\<lambda>ri. IS_OUTER_JOIN jt \<longrightarrow> \<not> RINFO_IS_PUSHED_DOWN ri rels) ris)"

definition other_quals :: "JoinType \<Rightarrow> nat list \<Rightarrow> RestrictInfo list \<Rightarrow> expr list" where
  "other_quals jt rels ris = map clause (filter (\<lambda>ri. IS_OUTER_JOIN jt \<and> RINFO_IS_PUSHED_DOWN ri rels) ris)"

fun plan_rows :: "query_world \<Rightarrow> sql_params \<Rightarrow> plan \<Rightarrow> row list" where
  "plan_rows Q F (PBase i target ris name) = filter (all_hold Q F (map clause ris)) (table_rows Q i)"
| "plan_rows Q F (PJoin jt j R ris p q) =
     filter (all_hold Q F (other_quals jt (joinrelids j) ris))
       (join_rows jt (all_hold Q F (join_quals jt (joinrelids j) ris)) (plan_rows Q F p) (plan_rows Q F q))"

text \<open>The relations that the planner's calls of the wrapper build for a plan, bottom up.\<close>

fun plan_rel :: "catalog \<Rightarrow> walk \<Rightarrow> Oid \<Rightarrow> plan \<Rightarrow> RelOptInfo" where
  "plan_rel C W srv (PBase i target ris name) = clickhouseGetForeignRelSize C W srv name i target ris"
| "plan_rel C W srv (PJoin jt j R ris p q) =
     clickhouseGetForeignJoinPaths C W R j None (plan_rel C W srv p) (plan_rel C W srv q) jt ris"

section \<open>Moving conditions through joins\<close>

lemma all_hold_append [simp]: "all_hold Q F (xs @ ys) r \<longleftrightarrow> all_hold Q F xs r \<and> all_hold Q F ys r"
  by (simp add: all_hold_def)

lemma all_hold_Nil [simp]: "all_hold Q F [] r"
  by (simp add: all_hold_def)

lemma all_hold_set: "all_hold Q F xs r \<longleftrightarrow> (\<forall>x \<in> set xs. tv (pg_eval F (row_env Q r) x) = Some True)"
  by (simp add: all_hold_def list_all_iff)

lemma matches_filter:
  assumes "\<And>b. b \<in> set B \<Longrightarrow> q (a ++ b) = q b"
  shows "matches on a (filter q B) = matches (\<lambda>r. on r \<and> q r) a B"
  using assms by (induction B) (auto simp: matches_def)

lemma matches_cong:
  assumes "\<And>b. b \<in> set B \<Longrightarrow> on (a ++ b) = on' (a ++ b)"
  shows "matches on a B = matches on' a B"
  using assms by (induction B) (auto simp: matches_def)

lemma concat_map_filter:
  assumes "\<And>a. a \<in> set A \<Longrightarrow> \<not> p a \<Longrightarrow> f a = []" and "\<And>a. a \<in> set A \<Longrightarrow> p a \<Longrightarrow> f a = g a"
  shows "concat (map f A) = concat (map g (filter p A))"
  using assms by (induction A) auto

lemma filter_inner_rows: "filter p (inner_rows on A B) = inner_rows (\<lambda>r. on r \<and> p r) A B"
  by (auto simp: inner_rows_def matches_def filter_concat comp_def conj_commute intro!: arg_cong [where f = concat])

lemma inner_rows_filter:
  assumes "\<And>a b. a \<in> set A \<Longrightarrow> b \<in> set B \<Longrightarrow> p (a ++ b) = p a"
    and "\<And>a b. a \<in> set A \<Longrightarrow> b \<in> set B \<Longrightarrow> q (a ++ b) = q b"
  shows "inner_rows on (filter p A) (filter q B) = inner_rows (\<lambda>r. on r \<and> p r \<and> q r) A B"
proof -
  have "concat (map (\<lambda>a. matches (\<lambda>r. on r \<and> p r \<and> q r) a B) A) = concat (map (\<lambda>a. matches on a (filter q B)) (filter p A))"
  proof (rule concat_map_filter)
    fix a assume a: "a \<in> set A"
    show "matches (\<lambda>r. on r \<and> p r \<and> q r) a B = []" if "\<not> p a"
      using a assms(1) that by (auto simp: matches_def filter_empty_conv)
    have "matches on a (filter q B) = matches (\<lambda>r. on r \<and> q r) a B"
      using a assms(2) by (intro matches_filter) auto
    then show "matches (\<lambda>r. on r \<and> p r \<and> q r) a B = matches on a (filter q B)" if "p a"
      using a assms(1) that by (auto intro: matches_cong)
  qed
  then show ?thesis by (simp add: inner_rows_def)
qed

lemma left_rows_filter:
  assumes "\<And>a b. a \<in> set A \<Longrightarrow> b \<in> set B \<Longrightarrow> p (a ++ b) = p a"
    and "\<And>a b. a \<in> set A \<Longrightarrow> b \<in> set B \<Longrightarrow> q (a ++ b) = q b"
  shows "left_rows on (filter p A) (filter q B) = filter p (left_rows (\<lambda>r. on r \<and> q r) A B)"
proof -
  let ?f = "\<lambda>a. let ms = matches (\<lambda>r. on r \<and> q r) a B in if ms = [] then [a] else ms"
  have p: "p r = p a" if "a \<in> set A" "r \<in> set (?f a)" for a r
    using that assms(1) by (auto simp: matches_def Let_def split: if_splits)
  have "filter p (left_rows (\<lambda>r. on r \<and> q r) A B) = concat (map (\<lambda>a. filter p (?f a)) A)"
    by (simp add: left_rows_def filter_concat comp_def)
  also have "\<dots> = concat (map (\<lambda>a. let ms = matches on a (filter q B) in if ms = [] then [a] else ms) (filter p A))"
  proof (rule concat_map_filter)
    fix a assume a: "a \<in> set A"
    show "filter p (?f a) = []" if "\<not> p a" using p [OF a] that by (auto simp: filter_empty_conv)
    have "filter p (?f a) = ?f a" if "p a" using p [OF a] that by (auto simp: filter_id_conv)
    then show "filter p (?f a) = (let ms = matches on a (filter q B) in if ms = [] then [a] else ms)" if "p a"
      using that by (simp add: matches_filter [of B q a on, OF assms(2) [OF a]])
  qed
  finally show ?thesis by (simp add: left_rows_def)
qed

lemma unmatched_filter:
  assumes "\<And>a b. a \<in> set A \<Longrightarrow> b \<in> set B \<Longrightarrow> p (a ++ b) = p a"
  shows "unmatched on (filter p A) (filter q B) = filter q (unmatched (\<lambda>r. on r \<and> p r) A B)"
  using assms by (auto simp: unmatched_def list_all_iff filter_filter intro!: filter_cong)


section \<open>What a condition reads\<close>

definition depends_on :: "query_world \<Rightarrow> sql_params \<Rightarrow> nat set \<Rightarrow> expr \<Rightarrow> bool" where
  "depends_on Q F N x \<longleftrightarrow>
     (\<forall>r r'. (\<forall>n \<in> N. r n = r' n) \<longrightarrow> pg_eval F (row_env Q r) x = pg_eval F (row_env Q r') x)"

lemma depends_on_mono: "depends_on Q F N x \<Longrightarrow> N \<subseteq> M \<Longrightarrow> depends_on Q F M x"
  unfolding depends_on_def by blast

lemma all_hold_depends:
  assumes "\<And>x. x \<in> set xs \<Longrightarrow> depends_on Q F N x" and "\<And>n. n \<in> N \<Longrightarrow> r n = r' n"
  shows "all_hold Q F xs r = all_hold Q F xs r'"
proof -
  have "pg_eval F (row_env Q r) x = pg_eval F (row_env Q r') x" if "x \<in> set xs" for x
    using assms(1) [OF that] assms(2) by (simp add: depends_on_def)
  then show ?thesis by (simp add: all_hold_set)
qed

text \<open>An expression without subqueries reads only its columns.\<close>

lemma pg_eval_vars:
  "\<not> contain_subplans x \<Longrightarrow> (\<And>v. v \<in> set (expr_vars x) \<Longrightarrow> var_val e v = var_val e' v)
     \<Longrightarrow> param_val e = param_val e' \<Longrightarrow> case_test e = case_test e' \<Longrightarrow> pg_eval F e x = pg_eval F e' x"
  "\<not> contain_subplans_when w \<Longrightarrow> (\<And>v. v \<in> set (when_vars w) \<Longrightarrow> var_val e v = var_val e' v)
     \<Longrightarrow> param_val e = param_val e' \<Longrightarrow> case_test e = case_test e'
     \<Longrightarrow> pg_when F (with_test t e) e w = pg_when F (with_test t e') e' w"
proof (induction x and w arbitrary: e e' and e e' t rule: expr.induct case_when.induct)
  case (OpExpr op args)
  have "map (pg_eval F e) args = map (pg_eval F e') args"
    using OpExpr.prems by (intro map_cong refl OpExpr.IH) (auto simp: list_ex_iff)
  then show ?case by (simp only: pg_eval.simps)
next
  case (ScalarArrayOpExpr op any x arr)
  have "pg_eval F e x = pg_eval F e' x" "pg_eval F e arr = pg_eval F e' arr"
    using ScalarArrayOpExpr.prems by (auto intro!: ScalarArrayOpExpr.IH)
  then show ?case by simp
next
  case (BoolExpr b args)
  have "map (\<lambda>x. tv (pg_eval F e x)) args = map (\<lambda>x. tv (pg_eval F e' x)) args"
    using BoolExpr.prems by (intro map_cong refl arg_cong [where f = tv] BoolExpr.IH) (auto simp: list_ex_iff)
  then show ?case by (simp only: pg_eval.simps)
next
  case (ArrayExpr m xs)
  have "map (pg_eval F e) xs = map (pg_eval F e') xs"
    using ArrayExpr.prems by (intro map_cong refl ArrayExpr.IH) (auto simp: list_ex_iff)
  then show ?case by (simp only: pg_eval.simps)
next
  case (CaseExpr i arg ws d)
  have t: "(case arg of None \<Rightarrow> case_test e | Some x \<Rightarrow> pg_eval F e x) = (case arg of None \<Rightarrow> case_test e' | Some x \<Rightarrow> pg_eval F e' x)"
    using CaseExpr.prems by (cases arg) (auto intro!: CaseExpr.IH(1))
  have d: "(case d of None \<Rightarrow> None | Some x \<Rightarrow> pg_eval F e x) = (case d of None \<Rightarrow> None | Some x \<Rightarrow> pg_eval F e' x)"
    using CaseExpr.prems by (cases d) (auto intro!: CaseExpr.IH(3))
  have w: "map (pg_when F (with_test t e) e) ws = map (pg_when F (with_test t e') e') ws" for t
    using CaseExpr.prems by (intro map_cong refl CaseExpr.IH(2)) (auto simp: list_ex_iff)
  show ?case unfolding pg_eval.simps Let_def t w d ..
next
  case (CaseWhen c r)
  have "pg_eval F (with_test t e) c = pg_eval F (with_test t e') c" "pg_eval F e r = pg_eval F e' r"
    using CaseWhen.prems by (auto intro!: CaseWhen.IH simp: with_test_def)
  then show ?case by simp
next
  case (RelabelType x)
  then have "pg_eval F e x = pg_eval F e' x" by (intro RelabelType.IH) simp_all
  then show ?case by simp
next
  case (NullTest n x)
  then have "pg_eval F e x = pg_eval F e' x" by (intro NullTest.IH) simp_all
  then show ?case by simp
qed simp_all

lemma free_depends_on:
  assumes "\<not> contain_subplans x" and "varno ` set (expr_vars x) \<subseteq> N"
  shows "depends_on Q F N x"
  unfolding depends_on_def
proof (intro allI impI pg_eval_vars(1) [OF assms(1)])
  fix r r' :: row and v
  assume "\<forall>n \<in> N. r n = r' n" "v \<in> set (expr_vars x)"
  then show "var_val (row_env Q r) v = var_val (row_env Q r') v"
    using assms(2) by (auto simp: row_env_def row_var_def)
qed (simp_all add: row_env_def)

section \<open>The parts of an accepted join\<close>

lemma extract_join_equals_eq:
  "extract_join_equals C cs to = (filter (\<lambda>c. \<not> is_simple_join_clause C c) cs, to @ filter (is_simple_join_clause C) cs)"
  by (induction C cs to rule: extract_join_equals.induct) auto

lemma split_restrictlist_eq:
  assumes "split_restrictlist foreign jt rels ris = Some (js, rs, ls)"
  shows "js = filter (\<lambda>ri. IS_OUTER_JOIN jt \<and> \<not> RINFO_IS_PUSHED_DOWN ri rels) ris"
    and "rs = filter (\<lambda>ri. \<not> (IS_OUTER_JOIN jt \<and> \<not> RINFO_IS_PUSHED_DOWN ri rels) \<and> foreign ri) ris"
    and "ls = filter (\<lambda>ri. \<not> (IS_OUTER_JOIN jt \<and> \<not> RINFO_IS_PUSHED_DOWN ri rels) \<and> \<not> foreign ri) ris"
  using assms by (induction ris arbitrary: js rs ls) (auto split: if_splits)

text \<open>A clause of the ON condition, and a clause that can be sent.\<close>

definition is_on :: "JoinType \<Rightarrow> nat list \<Rightarrow> RestrictInfo \<Rightarrow> bool" where
  "is_on jt rels ri \<longleftrightarrow> IS_OUTER_JOIN jt \<and> \<not> RINFO_IS_PUSHED_DOWN ri rels"

definition is_sent :: "catalog \<Rightarrow> walk \<Rightarrow> nat list \<Rightarrow> RestrictInfo \<Rightarrow> bool" where
  "is_sent C W rels ri = chfdw_is_foreign_expr C W \<lparr>root = None, relids = rels, outer_arg = Map.empty\<rparr> False (clause ri)"

definition accepted ::
    "catalog \<Rightarrow> walk \<Rightarrow> join_rel \<Rightarrow> JoinType \<Rightarrow> RelOptInfo \<Rightarrow> RelOptInfo \<Rightarrow> RestrictInfo list
      \<Rightarrow> CHFdwRelationInfo \<Rightarrow> CHFdwRelationInfo \<Rightarrow> CHFdwRelationInfo \<Rightarrow> bool" where
  "accepted C W j jt outer inner ris fo fi fp \<longleftrightarrow>
     fdw_private outer = Some fo \<and> fdw_private inner = Some fi \<and> pushdown_safe fo \<and> pushdown_safe fi
     \<and> \<not> is_semi_anti_rel outer fo \<and> \<not> is_semi_anti_rel inner fi \<and> local_conds fo = [] \<and> local_conds fi = []
     \<and> jointype fp = jt \<and> jt \<in> {JOIN_INNER, JOIN_LEFT, JOIN_RIGHT, JOIN_FULL, JOIN_SEMI, JOIN_ANTI}
     \<and> (jt \<in> {JOIN_SEMI, JOIN_ANTI} \<longrightarrow> semijoin_target_ok j outer inner)
     \<and> (jt = JOIN_ANTI \<longrightarrow> \<not> IS_JOIN_REL outer)
     \<and> set (lower_subquery_rels fp) = set (lower_subquery_rels fo) \<union> set (lower_subquery_rels fi)
         \<union> (if make_outerrel_subquery fp then set (rel_relids outer) else {})
         \<union> (if make_innerrel_subquery fp then set (rel_relids inner) else {})
     \<and> (let on = is_on jt (joinrelids j);
            rs = filter (\<lambda>ri. \<not> on ri \<and> is_sent C W (joinrelids j) ri) ris;
            simple = is_simple_join_clause C
        in local_conds fp = filter (\<lambda>ri. \<not> on ri \<and> \<not> is_sent C W (joinrelids j) ri) ris
           \<and> make_outerrel_subquery fp = (jt = JOIN_FULL \<and> remote_conds fo \<noteq> [])
           \<and> make_innerrel_subquery fp = (jt = JOIN_FULL \<and> remote_conds fi \<noteq> [])
           \<and> remote_conds fp = (case jt of
               JOIN_INNER \<Rightarrow> filter (\<lambda>c. \<not> simple c) (rs @ remote_conds fi @ remote_conds fo)
             | JOIN_LEFT \<Rightarrow> rs @ remote_conds fo
             | JOIN_RIGHT \<Rightarrow> rs @ remote_conds fi
             | JOIN_FULL \<Rightarrow> rs
             | _ \<Rightarrow> filter (\<lambda>c. \<not> simple c) (rs @ remote_conds fo))
           \<and> joinclauses fp = filter on ris @ (case jt of
               JOIN_INNER \<Rightarrow> filter simple (rs @ remote_conds fi @ remote_conds fo)
             | JOIN_LEFT \<Rightarrow> remote_conds fi
             | JOIN_RIGHT \<Rightarrow> remote_conds fo
             | JOIN_FULL \<Rightarrow> []
             | _ \<Rightarrow> remote_conds fi @ filter simple (rs @ remote_conds fo)))"

lemma foreign_join_ok_accepted:
  assumes "foreign_join_ok C W R j jt outer inner ris palloc0_info = Some fp"
  obtains fo fi where "accepted C W j jt outer inner ris fo fi fp"
proof -
  let ?foreign = "\<lambda>ri. chfdw_is_foreign_expr C W \<lparr>root = None, relids = joinrelids j, outer_arg = Map.empty\<rparr> False (clause ri)"
  obtain fo fi where p: "fdw_private outer = Some fo" "fdw_private inner = Some fi"
    using assms by (auto simp: foreign_join_ok_def split: option.splits if_splits)
  obtain js rs ls where sp: "split_restrictlist ?foreign jt (joinrelids j) ris = Some (js, rs, ls)"
    using assms p by (auto simp: foreign_join_ok_def Let_def split: option.splits if_splits)
  let ?fp0 = "(merge_fdw_options (palloc0_info\<lparr>fp_server := fp_server fo\<rparr>) fo (Some fi))\<lparr>joinclauses := js,
      remote_conds := rs, local_conds := ls, jointype := jt, make_outerrel_subquery := False,
      make_innerrel_subquery := False, lower_subquery_rels := lower_subquery_rels fo @ lower_subquery_rels fi\<rparr>"
  let ?fp1 = "pull_up_conds C jt outer inner fo fi ?fp0"
  have fields: "remote_conds (merge_fdw_options (palloc0_info\<lparr>fp_server := fp_server fo\<rparr>) fo (Some fi)) = []"
    "local_conds (merge_fdw_options (palloc0_info\<lparr>fp_server := fp_server fo\<rparr>) fo (Some fi)) = []"
    by (simp_all add: merge_fdw_options_def palloc0_info_def)
  have jt: "jt \<in> {JOIN_INNER, JOIN_LEFT, JOIN_RIGHT, JOIN_FULL, JOIN_SEMI, JOIN_ANTI}"
    using assms by (cases jt) (auto simp: foreign_join_ok_def)
  have "pushdown_safe fo \<and> pushdown_safe fi \<and> \<not> is_semi_anti_rel outer fo \<and> \<not> is_semi_anti_rel inner fi
      \<and> local_conds fo = [] \<and> local_conds fi = [] \<and> (jt \<in> {JOIN_SEMI, JOIN_ANTI} \<longrightarrow> semijoin_target_ok j outer inner)
      \<and> (jt = JOIN_ANTI \<longrightarrow> \<not> IS_JOIN_REL outer)
      \<and> (\<exists>u n i. fp = ?fp1\<lparr>pushdown_safe := True, fp_user := u, relation_name := n, relation_index := i\<rparr>)"
    using assms unfolding foreign_join_ok_def p sp prod.case option.case Let_def fields append_Nil
    by (auto split: if_splits sum.splits)
  then have "accepted C W j jt outer inner ris fo fi fp"
    using jt split_restrictlist_eq [OF sp, folded is_on_def is_sent_def] p
    by (elim conjE exE) (cases jt; cases "remote_conds fo = []"; cases "remote_conds fi = []"; simp add: Un_ac accepted_def pull_up_conds_def Let_def extract_join_equals_eq merge_fdw_options_def palloc0_info_def)
  then show thesis by (rule that)
qed


section \<open>Soundness of join pushdown\<close>

fun plan_relids :: "plan \<Rightarrow> nat list" where
  "plan_relids (PBase i target ris name) = [i]"
| "plan_relids (PJoin jt j R ris p q) = joinrelids j"

fun plan_conds :: "plan \<Rightarrow> RestrictInfo list" where
  "plan_conds (PBase i target ris name) = ris"
| "plan_conds (PJoin jt j R ris p q) = ris"

fun plan_target :: "plan \<Rightarrow> expr list" where
  "plan_target (PBase i target ris name) = target"
| "plan_target (PJoin jt j R ris p q) = join_target j"

text \<open>
  What the planner promises: a clause reads only tables below it, the two sides of a join are
  disjoint, and the relids of one side do not name tables of the other. For semijoins and
  antijoins the code needs more, as the last two lines say: at a semijoin, clauses that read
  the inner side must be simple equalities that can be sent; at an antijoin, clauses above the
  join must read the outer side only, and neither they nor the conditions of the outer table
  may be simple equalities. Theorems \<open>semijoin_filter_after_match\<close> and
  \<open>antijoin_outer_equality\<close> show that the code does not test this and what happens then.
\<close>

fun plan_ok :: "catalog \<Rightarrow> walk \<Rightarrow> query_world \<Rightarrow> sql_params \<Rightarrow> plan \<Rightarrow> bool" where
  "plan_ok C W Q F (PBase i target ris name) = (\<forall>ri \<in> set ris. depends_on Q F {i} (clause ri))"
| "plan_ok C W Q F (PJoin jt j R ris p q) =
     (plan_ok C W Q F p \<and> plan_ok C W Q F q \<and> plan_tables p \<inter> plan_tables q = {}
      \<and> plan_tables q \<subseteq> set (plan_relids q) \<and> set (plan_relids p) \<inter> plan_tables q = {}
      \<and> (\<forall>ri \<in> set ris. depends_on Q F (plan_tables p \<union> plan_tables q) (clause ri))
      \<and> (jt = JOIN_SEMI \<longrightarrow> (\<forall>ri \<in> set ris. depends_on Q F (plan_tables p) (clause ri)
           \<or> is_simple_join_clause C ri \<and> is_sent C W (joinrelids j) ri))
      \<and> (jt = JOIN_ANTI \<longrightarrow>
           (\<forall>ri \<in> set ris. RINFO_IS_PUSHED_DOWN ri (joinrelids j) \<longrightarrow>
              depends_on Q F (plan_tables p) (clause ri) \<and> \<not> is_simple_join_clause C ri)
           \<and> (\<forall>ri \<in> set (plan_conds p). \<not> is_simple_join_clause C ri)))"

lemma map_add_outer: "dom b \<subseteq> N \<Longrightarrow> M \<inter> N = {} \<Longrightarrow> n \<in> M \<Longrightarrow> (a ++ b) n = a n"
  by (auto simp: map_add_def split: option.splits)

lemma map_add_inner: "dom a \<subseteq> M \<Longrightarrow> M \<inter> N = {} \<Longrightarrow> n \<in> N \<Longrightarrow> (a ++ b) n = b n"
  by (auto simp: map_add_def split: option.splits)

lemma all_hold_sides:
  assumes "dom a \<subseteq> M" and "dom b \<subseteq> N" and "M \<inter> N = {}"
  shows all_hold_outer: "(\<And>x. x \<in> set xs \<Longrightarrow> depends_on Q F M x) \<Longrightarrow> all_hold Q F xs (a ++ b) = all_hold Q F xs a"
    and all_hold_inner: "(\<And>x. x \<in> set xs \<Longrightarrow> depends_on Q F N x) \<Longrightarrow> all_hold Q F xs (a ++ b) = all_hold Q F xs b"
  using map_add_outer [OF assms(2,3)] map_add_inner [OF assms(1,3)] all_hold_depends by metis+

lemma all_hold_partition:
  "all_hold Q F (map clause (filter P xs)) r \<and> all_hold Q F (map clause (filter (\<lambda>x. \<not> P x) xs)) r
     \<longleftrightarrow> all_hold Q F (map clause xs) r"
  by (auto simp: all_hold_set)

text \<open>
  A pushed-down relation: its conditions read its tables, its FROM clause can be written, and
  the rows that pass the remote and the local conditions are those of the plan.
\<close>

definition rel_sound ::
    "query_world \<Rightarrow> sql_params \<Rightarrow> (nat \<Rightarrow> DefElem list) \<Rightarrow> plan \<Rightarrow> RelOptInfo \<Rightarrow> CHFdwRelationInfo \<Rightarrow> bool" where
  "rel_sound Q F T p rel fp \<longleftrightarrow>
     (\<forall>ri \<in> set (remote_conds fp). depends_on Q F (plan_tables p) (clause ri))
     \<and> (\<forall>al st. \<exists>t st'. deparseFromExprForRel T rel al st = Inr (t, st')
         \<and> (\<forall>r \<in> set (ch_from_rows Q F t). dom r \<subseteq> plan_tables p)
         \<and> filter (all_hold Q F (map clause (local_conds fp)))
             (filter (all_hold Q F (map clause (remote_conds fp))) (ch_from_rows Q F t)) = plan_rows Q F p)"

lemma base_rel_sound:
  assumes "plan_ok C W Q F (PBase i target ris name)"
    and "fdw_private (plan_rel C W srv (PBase i target ris name)) = Some fp"
  shows "rel_sound Q F T (PBase i target ris name) (plan_rel C W srv (PBase i target ris name)) fp"
  using assms all_hold_partition [of Q F "\<lambda>ri. chfdw_is_foreign_expr C W \<lparr>root = None, relids = [i], outer_arg = Map.empty\<rparr> False (clause ri)" ris]
  by (auto simp: rel_sound_def clickhouseGetForeignRelSize_def Let_def deparseFromExprForRel.simps table_rows_def
      conj_commute cong: filter_cong)

text \<open>One side of a join, as a FROM item or as a subquery.\<close>

lemma range_tbl_ref:
  assumes "rel_sound Q F T p rel fp" and "fdw_private rel = Some fp" and "local_conds fp = []"
  obtains t st' where "deparseRangeTblRef T rel sub st = Inr (t, st')"
    and "\<And>r. r \<in> set (ch_from_rows Q F t) \<Longrightarrow> dom r \<subseteq> plan_tables p"
    and "sub \<Longrightarrow> ch_from_rows Q F t = plan_rows Q F p"
    and "\<not> sub \<Longrightarrow> filter (all_hold Q F (map clause (remote_conds fp))) (ch_from_rows Q F t) = plan_rows Q F p"
proof -
  let ?al = "if sub then 1 < length (remdups (rel_relids rel)) \<or> list_ex contain_subplans (map clause (remote_conds fp)) else True"
  obtain t st' where t: "deparseFromExprForRel T rel ?al st = Inr (t, st')"
      "\<And>r. r \<in> set (ch_from_rows Q F t) \<Longrightarrow> dom r \<subseteq> plan_tables p"
      "filter (all_hold Q F (map clause (remote_conds fp))) (ch_from_rows Q F t) = plan_rows Q F p"
  proof -
    obtain t st' where "deparseFromExprForRel T rel ?al st = Inr (t, st')"
        "\<forall>r \<in> set (ch_from_rows Q F t). dom r \<subseteq> plan_tables p"
        "filter (all_hold Q F (map clause (local_conds fp)))
           (filter (all_hold Q F (map clause (remote_conds fp))) (ch_from_rows Q F t)) = plan_rows Q F p"
      using assms(1) unfolding rel_sound_def by meson
    with assms(3) that show thesis by simp
  qed
  have d: "dom r \<subseteq> plan_tables p" if "r \<in> set (plan_rows Q F p)" for r
    using t(2,3) that by (metis filter_is_subset subsetD)
  show thesis
  proof (cases sub)
    case True
    with t d assms(2) that [of "ChSubselect (reltarget rel) t (map clause (remote_conds fp)) (relation_index fp) (length (reltarget rel))" st']
    show thesis by (auto simp: deparseRangeTblRef.simps Let_def)
  next
    case False
    with t assms(2) that [of t st'] show thesis by (auto simp: deparseRangeTblRef.simps)
  qed
qed


definition both_sides ::
    "query_world \<Rightarrow> sql_params \<Rightarrow> plan \<Rightarrow> plan \<Rightarrow> CHFdwRelationInfo \<Rightarrow> CHFdwRelationInfo \<Rightarrow> row list \<Rightarrow> row list \<Rightarrow> bool" where
  "both_sides Q F p q fo fi A B \<longleftrightarrow>
     (\<forall>a \<in> set A. dom a \<subseteq> plan_tables p) \<and> (\<forall>b \<in> set B. dom b \<subseteq> plan_tables q)
     \<and> plan_tables p \<inter> plan_tables q = {}
     \<and> (\<forall>ri \<in> set (remote_conds fo). depends_on Q F (plan_tables p) (clause ri))
     \<and> (\<forall>ri \<in> set (remote_conds fi). depends_on Q F (plan_tables q) (clause ri))"

lemma both_sidesD:
  assumes "both_sides Q F p q fo fi A B" and "a \<in> set A" and "b \<in> set B"
  shows "all_hold Q F (map clause (remote_conds fo)) (a ++ b) = all_hold Q F (map clause (remote_conds fo)) a"
    and "all_hold Q F (map clause (remote_conds fi)) (a ++ b) = all_hold Q F (map clause (remote_conds fi)) b"
proof -
  have "dom a \<subseteq> plan_tables p" "dom b \<subseteq> plan_tables q" "plan_tables p \<inter> plan_tables q = {}"
    using assms by (simp_all add: both_sides_def)
  note sides = all_hold_outer [OF this] all_hold_inner [OF this]
  show "all_hold Q F (map clause (remote_conds fo)) (a ++ b) = all_hold Q F (map clause (remote_conds fo)) a"
    using assms(1) by (intro sides) (auto simp: both_sides_def)
  show "all_hold Q F (map clause (remote_conds fi)) (a ++ b) = all_hold Q F (map clause (remote_conds fi)) b"
    using assms(1) by (intro sides) (auto simp: both_sides_def)
qed

text \<open>The conditions of a join that PostgreSQL evaluates, split as the code splits them.\<close>

lemma where_quals:
  "all_hold Q F (map clause (filter (\<lambda>ri. \<not> is_on jt rels ri \<and> is_sent C W rels ri) ris)) r
     \<and> all_hold Q F (map clause (filter (\<lambda>ri. \<not> is_on jt rels ri \<and> \<not> is_sent C W rels ri) ris)) r
   \<longleftrightarrow> all_hold Q F (map clause (filter (\<lambda>ri. \<not> is_on jt rels ri) ris)) r"
  by (auto simp: all_hold_set)

lemma quals_eq:
  "IS_OUTER_JOIN jt \<Longrightarrow> join_quals jt rels ris = map clause (filter (is_on jt rels) ris)"
  "IS_OUTER_JOIN jt \<Longrightarrow> other_quals jt rels ris = map clause (filter (\<lambda>ri. \<not> is_on jt rels ri) ris)"
  "\<not> IS_OUTER_JOIN jt \<Longrightarrow> join_quals jt rels ris = map clause ris"
  "\<not> IS_OUTER_JOIN jt \<Longrightarrow> other_quals jt rels ris = []"
  "\<not> IS_OUTER_JOIN jt \<Longrightarrow> \<not> is_on jt rels ri"
  by (auto simp: join_quals_def other_quals_def is_on_def cong: filter_cong)

lemma outer_joins [simp]:
  "\<not> IS_OUTER_JOIN JOIN_INNER" "\<not> IS_OUTER_JOIN JOIN_SEMI" "IS_OUTER_JOIN JOIN_LEFT" "IS_OUTER_JOIN JOIN_RIGHT"
  "IS_OUTER_JOIN JOIN_FULL" "IS_OUTER_JOIN JOIN_ANTI"
  by (simp_all add: IS_OUTER_JOIN_def)

lemma inner_quals:
  assumes "accepted C W j JOIN_INNER outer inner ris fo fi fp"
  shows "(all_hold Q F (map clause (joinclauses fp)) r \<and> all_hold Q F (map clause (remote_conds fp)) r)
      \<and> all_hold Q F (map clause (local_conds fp)) r
    \<longleftrightarrow> all_hold Q F (map clause ris) r \<and> all_hold Q F (map clause (remote_conds fo)) r
      \<and> all_hold Q F (map clause (remote_conds fi)) r"
proof -
  let ?rs = "filter (\<lambda>ri. \<not> is_on JOIN_INNER (joinrelids j) ri \<and> is_sent C W (joinrelids j) ri) ris @ remote_conds fi @ remote_conds fo"
  have "joinclauses fp = filter (is_simple_join_clause C) ?rs"
    "remote_conds fp = filter (\<lambda>c. \<not> is_simple_join_clause C c) ?rs"
    "local_conds fp = filter (\<lambda>ri. \<not> is_on JOIN_INNER (joinrelids j) ri \<and> \<not> is_sent C W (joinrelids j) ri) ris"
    using assms by (simp_all add: accepted_def Let_def quals_eq(5))
  then show ?thesis
    using all_hold_partition [of Q F "is_simple_join_clause C" ?rs r] where_quals [of Q F JOIN_INNER "joinrelids j" C W ris r]
    by (simp add: quals_eq(5)) blast
qed

lemma outer_quals:
  assumes "accepted C W j jt outer inner ris fo fi fp" and "jt \<in> {JOIN_LEFT, JOIN_RIGHT, JOIN_FULL}"
  shows "all_hold Q F (map clause (joinclauses fp)) r \<longleftrightarrow> all_hold Q F (join_quals jt (joinrelids j) ris) r
      \<and> (jt = JOIN_LEFT \<longrightarrow> all_hold Q F (map clause (remote_conds fi)) r)
      \<and> (jt = JOIN_RIGHT \<longrightarrow> all_hold Q F (map clause (remote_conds fo)) r)"
    and "all_hold Q F (map clause (remote_conds fp)) r \<and> all_hold Q F (map clause (local_conds fp)) r
      \<longleftrightarrow> all_hold Q F (other_quals jt (joinrelids j) ris) r
      \<and> (jt = JOIN_LEFT \<longrightarrow> all_hold Q F (map clause (remote_conds fo)) r)
      \<and> (jt = JOIN_RIGHT \<longrightarrow> all_hold Q F (map clause (remote_conds fi)) r)"
proof -
  have "IS_OUTER_JOIN jt" using assms(2) by auto
  note eqs = quals_eq(1,2) [OF this, of "joinrelids j" ris] where_quals [of Q F jt "joinrelids j" C W ris r]
  show "all_hold Q F (map clause (joinclauses fp)) r \<longleftrightarrow> all_hold Q F (join_quals jt (joinrelids j) ris) r
      \<and> (jt = JOIN_LEFT \<longrightarrow> all_hold Q F (map clause (remote_conds fi)) r)
      \<and> (jt = JOIN_RIGHT \<longrightarrow> all_hold Q F (map clause (remote_conds fo)) r)"
    unfolding eqs(1) using assms by (elim insertE) (simp_all add: accepted_def Let_def)
  show "all_hold Q F (map clause (remote_conds fp)) r \<and> all_hold Q F (map clause (local_conds fp)) r
      \<longleftrightarrow> all_hold Q F (other_quals jt (joinrelids j) ris) r
      \<and> (jt = JOIN_LEFT \<longrightarrow> all_hold Q F (map clause (remote_conds fo)) r)
      \<and> (jt = JOIN_RIGHT \<longrightarrow> all_hold Q F (map clause (remote_conds fi)) r)"
    unfolding eqs(2) eqs(3) [symmetric] using assms by (elim insertE) (auto simp add: accepted_def Let_def)
qed

text \<open>
  The rows of a join that the code sends, for each side its FROM item: the rows of PostgreSQL's
  join of the two filtered sides.
\<close>

lemma pushed_join_rows:
  assumes acc: "accepted C W j jt outer inner ris fo fi fp" and jt: "jt \<in> {JOIN_INNER, JOIN_LEFT, JOIN_RIGHT, JOIN_FULL}"
    and AB: "both_sides Q F p q fo fi A B" and name: "chfdw_get_jointype_name jt = Inr name"
  shows "filter (all_hold Q F (map clause (local_conds fp)))
      (filter (all_hold Q F (map clause (remote_conds fp)))
         (ch_join_rows Q name (all_hold Q F (map clause (joinclauses fp))) A B))
    = filter (all_hold Q F (other_quals jt (joinrelids j) ris))
        (join_rows jt (all_hold Q F (join_quals jt (joinrelids j) ris))
           (if jt = JOIN_FULL then A else filter (all_hold Q F (map clause (remote_conds fo))) A)
           (if jt = JOIN_FULL then B else filter (all_hold Q F (map clause (remote_conds fi))) B))"
proof -
  let ?on = "all_hold Q F (join_quals jt (joinrelids j) ris)" and ?where = "all_hold Q F (other_quals jt (joinrelids j) ris)"
  let ?o = "all_hold Q F (map clause (remote_conds fo))" and ?i = "all_hold Q F (map clause (remote_conds fi))"
  note sides = both_sidesD [OF AB]
  consider "jt = JOIN_INNER" | "jt \<in> {JOIN_LEFT, JOIN_RIGHT, JOIN_FULL}" using jt by blast
  then show ?thesis
  proof cases
    case 1
    have "(\<lambda>r. (all_hold Q F (map clause (joinclauses fp)) r \<and> all_hold Q F (map clause (remote_conds fp)) r)
        \<and> all_hold Q F (map clause (local_conds fp)) r) = (\<lambda>r. (?on r \<and> ?o r \<and> ?i r) \<and> ?where r)"
      using inner_quals [OF acc [unfolded 1], of Q F] 1 by (simp add: quals_eq(3,4))
    then show ?thesis
      using 1 name inner_rows_filter [of A B ?o ?i ?on, OF sides]
      by (simp add: chfdw_get_jointype_name_def ch_join_rows_def filter_inner_rows)
  next
    case 2
    then have on: "all_hold Q F (map clause (joinclauses fp)) = (\<lambda>r. ?on r \<and> (jt = JOIN_LEFT \<longrightarrow> ?i r) \<and> (jt = JOIN_RIGHT \<longrightarrow> ?o r))"
      and wh: "filter (all_hold Q F (map clause (local_conds fp))) (filter (all_hold Q F (map clause (remote_conds fp))) rs)
        = filter ?where (filter (\<lambda>r. (jt = JOIN_LEFT \<longrightarrow> ?o r) \<and> (jt = JOIN_RIGHT \<longrightarrow> ?i r)) rs)" for rs
      using outer_quals [OF acc] by (auto simp: conj_commute cong: filter_cong)
    consider "jt = JOIN_LEFT" | "jt = JOIN_RIGHT" | "jt = JOIN_FULL" using 2 by blast
    then show ?thesis
    proof cases
      case 1
      then have "name = ''LEFT''" using name by (simp add: chfdw_get_jointype_name_def)
      with 1 left_rows_filter [of A B ?o ?i ?on, OF sides] show ?thesis
        unfolding on wh by (simp add: ch_join_rows_def)
    next
      case 2
      then have "name = ''RIGHT''" using name by (simp add: chfdw_get_jointype_name_def)
      moreover have "filter ?i (inner_rows (\<lambda>r. ?on r \<and> ?o r) A B) = inner_rows ?on (filter ?o A) (filter ?i B)"
        by (simp add: filter_inner_rows inner_rows_filter [of A B ?o ?i ?on, OF sides])
      ultimately show ?thesis
        unfolding on wh using 2 unmatched_filter [of A B ?o ?on ?i, OF sides(1)] by (simp add: ch_join_rows_def del: filter_filter)
    next
      case 3
      then have "name = ''FULL''" using name by (simp add: chfdw_get_jointype_name_def)
      with 3 show ?thesis unfolding on wh by (simp add: ch_join_rows_def)
    qed
  qed
qed


text \<open>
  The two sides of an accepted join, as they stand in the FROM clause.
\<close>

lemma join_from:
  assumes ok: "plan_ok C W Q F (PJoin jt j R ris p q)"
    and acc: "accepted C W j jt (plan_rel C W srv p) (plan_rel C W srv q) ris fo fi fp"
    and p: "rel_sound Q F T p (plan_rel C W srv p) fo" and q: "rel_sound Q F T q (plan_rel C W srv q) fi"
  obtains ta tb st' name where "chfdw_get_jointype_name jt = Inr name"
    and "deparseFromExprForRel T (JoinRel rels tgt (Some fp) (plan_rel C W srv p) (plan_rel C W srv q)) al st
      = Inr (ChJoinFrom (jt \<notin> {JOIN_SEMI, JOIN_ANTI}) name ta tb (map clause (joinclauses fp)), st')"
    and "both_sides Q F p q fo fi (ch_from_rows Q F ta) (ch_from_rows Q F tb)"
    and "(if jt = JOIN_FULL then ch_from_rows Q F ta else filter (all_hold Q F (map clause (remote_conds fo))) (ch_from_rows Q F ta)) = plan_rows Q F p"
    and "(if jt = JOIN_FULL then ch_from_rows Q F tb else filter (all_hold Q F (map clause (remote_conds fi))) (ch_from_rows Q F tb)) = plan_rows Q F q"
proof -
  have priv: "fdw_private (plan_rel C W srv p) = Some fo" "local_conds fo = []"
    "fdw_private (plan_rel C W srv q) = Some fi" "local_conds fi = []"
    and subs: "make_outerrel_subquery fp = (jt = JOIN_FULL \<and> remote_conds fo \<noteq> [])"
      "make_innerrel_subquery fp = (jt = JOIN_FULL \<and> remote_conds fi \<noteq> [])" and jtp: "jointype fp = jt"
    using acc by (auto simp: accepted_def Let_def)
  obtain name where name: "chfdw_get_jointype_name jt = Inr name"
    using acc by (auto simp: accepted_def chfdw_get_jointype_name_def)
  obtain ta st1 where ta: "deparseRangeTblRef T (plan_rel C W srv p) (make_outerrel_subquery fp) st = Inr (ta, st1)"
      "\<And>r. r \<in> set (ch_from_rows Q F ta) \<Longrightarrow> dom r \<subseteq> plan_tables p"
      "make_outerrel_subquery fp \<Longrightarrow> ch_from_rows Q F ta = plan_rows Q F p"
      "\<not> make_outerrel_subquery fp \<Longrightarrow> filter (all_hold Q F (map clause (remote_conds fo))) (ch_from_rows Q F ta) = plan_rows Q F p"
    by (rule range_tbl_ref [OF p priv(1,2)]) blast
  obtain tb st2 where tb: "deparseRangeTblRef T (plan_rel C W srv q) (make_innerrel_subquery fp) st1 = Inr (tb, st2)"
      "\<And>r. r \<in> set (ch_from_rows Q F tb) \<Longrightarrow> dom r \<subseteq> plan_tables q"
      "make_innerrel_subquery fp \<Longrightarrow> ch_from_rows Q F tb = plan_rows Q F q"
      "\<not> make_innerrel_subquery fp \<Longrightarrow> filter (all_hold Q F (map clause (remote_conds fi))) (ch_from_rows Q F tb) = plan_rows Q F q"
    by (rule range_tbl_ref [OF q priv(3,4)]) blast
  have "both_sides Q F p q fo fi (ch_from_rows Q F ta) (ch_from_rows Q F tb)"
    using ta(2) tb(2) ok p q by (auto simp: both_sides_def rel_sound_def)
  moreover have "deparseFromExprForRel T (JoinRel rels tgt (Some fp) (plan_rel C W srv p) (plan_rel C W srv q)) al st
      = Inr (ChJoinFrom (jt \<notin> {JOIN_SEMI, JOIN_ANTI}) name ta tb (map clause (joinclauses fp)), st2)"
    using ta(1) tb(1) name jtp by (simp add: deparseFromExprForRel.simps)
  moreover have "(if jt = JOIN_FULL then ch_from_rows Q F ta else filter (all_hold Q F (map clause (remote_conds fo))) (ch_from_rows Q F ta)) = plan_rows Q F p"
    using ta(3,4) subs(1) by (cases "remote_conds fo = []") auto
  moreover have "(if jt = JOIN_FULL then ch_from_rows Q F tb else filter (all_hold Q F (map clause (remote_conds fi))) (ch_from_rows Q F tb)) = plan_rows Q F q"
    using tb(3,4) subs(2) by (cases "remote_conds fi = []") auto
  ultimately show thesis using name that by blast
qed

lemma ch_join_rows_eq:
  assumes "jt \<in> {JOIN_INNER, JOIN_LEFT, JOIN_RIGHT, JOIN_FULL}" and "chfdw_get_jointype_name jt = Inr name"
  shows "ch_join_rows Q name on A B = join_rows jt on A B"
proof -
  have "name = (case jt of JOIN_INNER \<Rightarrow> ''INNER'' | JOIN_LEFT \<Rightarrow> ''LEFT'' | JOIN_RIGHT \<Rightarrow> ''RIGHT'' | _ \<Rightarrow> ''FULL'')"
    using assms by (cases jt) (simp_all add: chfdw_get_jointype_name_def)
  with assms(1) show ?thesis by (elim insertE) (simp_all add: ch_join_rows_def)
qed

lemma join_rows_dom:
  assumes "r \<in> set (join_rows jt on A B)" and "\<And>a. a \<in> set A \<Longrightarrow> dom a \<subseteq> M" and "\<And>b. b \<in> set B \<Longrightarrow> dom b \<subseteq> N"
  shows "dom r \<subseteq> M \<union> N"
proof -
  have "(r \<in> set A) \<or> (r \<in> set B) \<or> (\<exists>a \<in> set A. \<exists>b \<in> set B. r = a ++ b)"
    using assms(1) by (cases jt) (auto simp: inner_rows_def left_rows_def matches_def unmatched_def Let_def split: if_splits)
  with assms(2,3) show ?thesis by fastforce
qed

lemma accepted_depends:
  assumes "accepted C W j jt outer inner ris fo fi fp" and "ri \<in> set (remote_conds fp)"
  shows "ri \<in> set ris \<or> ri \<in> set (remote_conds fo) \<or> ri \<in> set (remote_conds fi)"
  using assms by (cases jt) (auto simp: accepted_def Let_def)

lemma plan_rel_join:
  assumes "fdw_private (plan_rel C W srv (PJoin jt j R ris p q)) = Some fp" and "pushdown_safe fp"
  obtains fo fi where "plan_rel C W srv (PJoin jt j R ris p q)
      = JoinRel (joinrelids j) (join_target j) (Some fp) (plan_rel C W srv p) (plan_rel C W srv q)"
    and "accepted C W j jt (plan_rel C W srv p) (plan_rel C W srv q) ris fo fi fp"
proof -
  have "foreign_join_ok C W R j jt (plan_rel C W srv p) (plan_rel C W srv q) ris palloc0_info = Some fp"
    using assms by (auto simp: clickhouseGetForeignJoinPaths_def palloc0_info_def split: option.splits)
  moreover from this obtain fo fi where "accepted C W j jt (plan_rel C W srv p) (plan_rel C W srv q) ris fo fi fp"
    by (rule foreign_join_ok_accepted)
  ultimately show thesis using that by (simp add: clickhouseGetForeignJoinPaths_def)
qed

lemma plan_rel_sound:
  assumes "plan_ok C W Q F p" and "fdw_private (plan_rel C W srv p) = Some fp" and "pushdown_safe fp"
    and "\<not> is_semi_anti_rel (plan_rel C W srv p) fp"
  shows "rel_sound Q F T p (plan_rel C W srv p) fp"
  using assms
proof (induction p arbitrary: fp)
  case (PBase i target ris name)
  then show ?case by (intro base_rel_sound)
next
  case (PJoin jt j R ris p q)
  obtain fo fi where rel: "plan_rel C W srv (PJoin jt j R ris p q)
        = JoinRel (joinrelids j) (join_target j) (Some fp) (plan_rel C W srv p) (plan_rel C W srv q)"
      and acc: "accepted C W j jt (plan_rel C W srv p) (plan_rel C W srv q) ris fo fi fp"
    by (rule plan_rel_join [OF PJoin.prems(2,3)])
  have jt: "jt \<in> {JOIN_INNER, JOIN_LEFT, JOIN_RIGHT, JOIN_FULL}"
    using acc PJoin.prems(4) rel by (auto simp: accepted_def is_semi_anti_rel_def)
  have sides: "rel_sound Q F T p (plan_rel C W srv p) fo" "rel_sound Q F T q (plan_rel C W srv q) fi"
    using PJoin.prems(1) acc by (auto simp: accepted_def intro: PJoin.IH)
  have cond: "depends_on Q F (plan_tables (PJoin jt j R ris p q)) (clause ri)" if "ri \<in> set (remote_conds fp)" for ri
    using accepted_depends [OF acc that] PJoin.prems(1) sides
    by (auto simp: rel_sound_def intro: depends_on_mono)
  have "\<exists>t st'. deparseFromExprForRel T (plan_rel C W srv (PJoin jt j R ris p q)) al st = Inr (t, st')
      \<and> (\<forall>r \<in> set (ch_from_rows Q F t). dom r \<subseteq> plan_tables (PJoin jt j R ris p q))
      \<and> filter (all_hold Q F (map clause (local_conds fp)))
          (filter (all_hold Q F (map clause (remote_conds fp))) (ch_from_rows Q F t)) = plan_rows Q F (PJoin jt j R ris p q)"
    for al st
  proof -
    obtain ta tb st' name where t: "chfdw_get_jointype_name jt = Inr name"
      "deparseFromExprForRel T (plan_rel C W srv (PJoin jt j R ris p q)) al st
         = Inr (ChJoinFrom (jt \<notin> {JOIN_SEMI, JOIN_ANTI}) name ta tb (map clause (joinclauses fp)), st')"
      "both_sides Q F p q fo fi (ch_from_rows Q F ta) (ch_from_rows Q F tb)"
      "(if jt = JOIN_FULL then ch_from_rows Q F ta else filter (all_hold Q F (map clause (remote_conds fo))) (ch_from_rows Q F ta)) = plan_rows Q F p"
      "(if jt = JOIN_FULL then ch_from_rows Q F tb else filter (all_hold Q F (map clause (remote_conds fi))) (ch_from_rows Q F tb)) = plan_rows Q F q"
      unfolding rel by (rule join_from [OF PJoin.prems(1) acc sides])
    have rows: "ch_join_rows Q name on A B = join_rows jt on A B" for on A B
      by (rule ch_join_rows_eq [OF jt t(1)])
    have "dom r \<subseteq> plan_tables p \<union> plan_tables q"
      if "r \<in> set (ch_join_rows Q name (all_hold Q F (map clause (joinclauses fp))) (ch_from_rows Q F ta) (ch_from_rows Q F tb))" for r
      by (rule join_rows_dom [OF that [unfolded rows]]) (use t(3) in \<open>simp_all add: both_sides_def\<close>)
    with t pushed_join_rows [OF acc jt t(3,1)] show ?thesis by auto
  qed
  with cond show ?case by (simp add: rel_sound_def)
qed


text \<open>
  ClickHouse's own choices in semijoins and antijoins: a semijoin returns the left row joined
  with one of its matches; an antijoin keeps the columns of the left row.
\<close>

definition documented_joins :: "query_world \<Rightarrow> bool" where
  "documented_joins Q \<longleftrightarrow> (\<forall>a ms. ms \<noteq> [] \<longrightarrow> semi_row Q a ms \<in> set ms) \<and> (\<forall>a. a \<subseteq>\<^sub>m anti_row Q a)"

definition outputs :: "query_world \<Rightarrow> sql_params \<Rightarrow> expr list \<Rightarrow> row \<Rightarrow> sqlval list" where
  "outputs Q F xs r = map (pg_eval F (row_env Q r)) xs"

lemma outputs_depend:
  assumes "\<And>x. x \<in> set xs \<Longrightarrow> depends_on Q F N x" and "\<And>n. n \<in> N \<Longrightarrow> r n = r' n"
  shows "outputs Q F xs r = outputs Q F xs r'"
  using assms unfolding outputs_def depends_on_def by (intro map_cong refl) blast

lemma map_filter_map:
  assumes "\<And>a. a \<in> set A \<Longrightarrow> p a \<Longrightarrow> q (f a) \<longleftrightarrow> q a" and "\<And>a. a \<in> set A \<Longrightarrow> p a \<Longrightarrow> out (f a) = out a"
  shows "map out (filter q (map f (filter p A))) = map out (filter (\<lambda>a. p a \<and> q a) A)"
  using assms by (induction A) auto

lemma semi_quals:
  assumes "accepted C W j JOIN_SEMI outer inner ris fo fi fp"
  shows "all_hold Q F (map clause (joinclauses fp)) r \<and> all_hold Q F (map clause (remote_conds fp)) r
      \<and> all_hold Q F (map clause (local_conds fp)) r
    \<longleftrightarrow> all_hold Q F (map clause ris) r \<and> all_hold Q F (map clause (remote_conds fo)) r
      \<and> all_hold Q F (map clause (remote_conds fi)) r"
proof -
  let ?rs = "filter (\<lambda>ri. \<not> is_on JOIN_SEMI (joinrelids j) ri \<and> is_sent C W (joinrelids j) ri) ris @ remote_conds fo"
  have "joinclauses fp = remote_conds fi @ filter (is_simple_join_clause C) ?rs"
    "remote_conds fp = filter (\<lambda>c. \<not> is_simple_join_clause C c) ?rs"
    "local_conds fp = filter (\<lambda>ri. \<not> is_on JOIN_SEMI (joinrelids j) ri \<and> \<not> is_sent C W (joinrelids j) ri) ris"
    using assms by (simp_all add: accepted_def Let_def quals_eq(5))
  then show ?thesis
    using all_hold_partition [of Q F "is_simple_join_clause C" ?rs r] where_quals [of Q F JOIN_SEMI "joinrelids j" C W ris r]
    by (simp add: quals_eq(5)) blast
qed

lemma semi_join_rows:
  assumes acc: "accepted C W j JOIN_SEMI outer inner ris fo fi fp" and AB: "both_sides Q F p q fo fi A B"
    and doc: "documented_joins Q"
    and ris: "\<And>ri. ri \<in> set ris \<Longrightarrow> depends_on Q F (plan_tables p) (clause ri)
      \<or> is_simple_join_clause C ri \<and> is_sent C W (joinrelids j) ri"
    and tgt: "\<And>x. x \<in> set tgt \<Longrightarrow> depends_on Q F (plan_tables p) x"
  shows "map (outputs Q F tgt) (filter (all_hold Q F (map clause (local_conds fp)))
      (filter (all_hold Q F (map clause (remote_conds fp)))
         (ch_join_rows Q ''LEFT SEMI'' (all_hold Q F (map clause (joinclauses fp))) A B)))
    = map (outputs Q F tgt) (join_rows JOIN_SEMI (all_hold Q F (map clause ris))
        (filter (all_hold Q F (map clause (remote_conds fo))) A) (filter (all_hold Q F (map clause (remote_conds fi))) B))"
proof -
  let ?js = "all_hold Q F (map clause (joinclauses fp))" and ?ris = "all_hold Q F (map clause ris)"
  let ?o = "all_hold Q F (map clause (remote_conds fo))" and ?i = "all_hold Q F (map clause (remote_conds fi))"
  let ?w = "\<lambda>r. all_hold Q F (map clause (remote_conds fp)) r \<and> all_hold Q F (map clause (local_conds fp)) r"
  have "depends_on Q F (plan_tables p) (clause ri)" if "ri \<in> set (remote_conds fp) \<union> set (local_conds fp)" for ri
    using that acc AB ris [of ri] by (auto simp: accepted_def Let_def quals_eq(5) both_sides_def)
  then have w: "?w r = ?w r'" if "\<And>n. n \<in> plan_tables p \<Longrightarrow> r n = r' n" for r r'
    using that all_hold_depends [of "map clause (remote_conds fp)" Q F "plan_tables p" r r']
      all_hold_depends [of "map clause (local_conds fp)" Q F "plan_tables p" r r'] by auto
  have side: "(a ++ b) n = a n" if "a \<in> set A" "b \<in> set B" "n \<in> plan_tables p" for a b n
    using AB that by (intro map_add_outer [where M = "plan_tables p" and N = "plan_tables q"]) (auto simp: both_sides_def)
  have pick: "semi_row Q a (matches ?js a B) n = a n"
    if "a \<in> set A" "matches ?js a B \<noteq> []" "n \<in> plan_tables p" for a n
  proof -
    have "semi_row Q a (matches ?js a B) \<in> set (matches ?js a B)" using doc that(2) by (simp add: documented_joins_def)
    then show ?thesis using side that(1,3) by (auto simp: matches_def)
  qed
  have eq: "matches ?js a B \<noteq> [] \<and> ?w a \<longleftrightarrow> ?o a \<and> matches ?ris a (filter ?i B) \<noteq> []" if a: "a \<in> set A" for a
  proof -
    have "?w (a ++ b) = ?w a" if "b \<in> set B" for b by (rule w) (rule side [OF a that])
    then have "matches ?js a B \<noteq> [] \<and> ?w a \<longleftrightarrow> (\<exists>b \<in> set B. ?js (a ++ b) \<and> ?w (a ++ b))"
      unfolding matches_def filter_empty_conv by fastforce
    also have "\<dots> \<longleftrightarrow> (\<exists>b \<in> set B. ?ris (a ++ b) \<and> ?o a \<and> ?i b)"
      using semi_quals [OF acc, of Q F] both_sidesD [OF AB a] by auto
    finally show ?thesis by (auto simp: matches_def filter_empty_conv)
  qed
  have "map (outputs Q F tgt) (filter ?w (map (\<lambda>a. semi_row Q a (matches ?js a B)) (filter (\<lambda>a. matches ?js a B \<noteq> []) A)))
      = map (outputs Q F tgt) (filter (\<lambda>a. matches ?js a B \<noteq> [] \<and> ?w a) A)"
    using w pick outputs_depend [OF tgt] by (intro map_filter_map) blast+
  also have "filter (\<lambda>a. matches ?js a B \<noteq> [] \<and> ?w a) A = filter (\<lambda>a. ?o a \<and> matches ?ris a (filter ?i B) \<noteq> []) A"
    by (intro filter_cong refl eq)
  finally show ?thesis by (simp add: ch_join_rows_def)
qed


lemma anti_join_rows:
  assumes acc: "accepted C W j JOIN_ANTI outer inner ris fo fi fp" and AB: "both_sides Q F p q fo fi A B"
    and doc: "documented_joins Q"
    and ris: "\<And>ri. ri \<in> set ris \<Longrightarrow> RINFO_IS_PUSHED_DOWN ri (joinrelids j) \<Longrightarrow>
      depends_on Q F (plan_tables p) (clause ri) \<and> \<not> is_simple_join_clause C ri"
    and fo: "\<And>ri. ri \<in> set (remote_conds fo) \<Longrightarrow> \<not> is_simple_join_clause C ri"
    and A: "\<And>a. a \<in> set A \<Longrightarrow> dom a = plan_tables p"
    and tgt: "\<And>x. x \<in> set tgt \<Longrightarrow> depends_on Q F (plan_tables p) x"
  shows "map (outputs Q F tgt) (filter (all_hold Q F (map clause (local_conds fp)))
      (filter (all_hold Q F (map clause (remote_conds fp)))
         (ch_join_rows Q ''LEFT ANTI'' (all_hold Q F (map clause (joinclauses fp))) A B)))
    = map (outputs Q F tgt) (filter (all_hold Q F (other_quals JOIN_ANTI (joinrelids j) ris))
        (join_rows JOIN_ANTI (all_hold Q F (join_quals JOIN_ANTI (joinrelids j) ris))
          (filter (all_hold Q F (map clause (remote_conds fo))) A) (filter (all_hold Q F (map clause (remote_conds fi))) B)))"
proof -
  let ?on = "is_on JOIN_ANTI (joinrelids j)"
  let ?rs = "filter (\<lambda>ri. \<not> ?on ri \<and> is_sent C W (joinrelids j) ri) ris"
  let ?ls = "filter (\<lambda>ri. \<not> ?on ri \<and> \<not> is_sent C W (joinrelids j) ri) ris"
  let ?js = "all_hold Q F (map clause (joinclauses fp))" and ?jq = "all_hold Q F (join_quals JOIN_ANTI (joinrelids j) ris)"
  let ?o = "all_hold Q F (map clause (remote_conds fo))" and ?i = "all_hold Q F (map clause (remote_conds fi))"
  let ?oq = "all_hold Q F (other_quals JOIN_ANTI (joinrelids j) ris)"
  let ?w = "\<lambda>r. all_hold Q F (map clause (remote_conds fp)) r \<and> all_hold Q F (map clause (local_conds fp)) r"
  have above: "RINFO_IS_PUSHED_DOWN ri (joinrelids j)" if "\<not> ?on ri" for ri using that by (simp add: is_on_def)
  have "\<not> is_simple_join_clause C ri" if "ri \<in> set (?rs @ remote_conds fo)" for ri
    using that ris [of ri] fo [of ri] above by auto
  then have "filter (is_simple_join_clause C) (?rs @ remote_conds fo) = []"
    "filter (\<lambda>ri. \<not> is_simple_join_clause C ri) (?rs @ remote_conds fo) = ?rs @ remote_conds fo"
    unfolding filter_empty_conv filter_id_conv by blast+
  then have fp: "joinclauses fp = filter ?on ris @ remote_conds fi" "remote_conds fp = ?rs @ remote_conds fo" "local_conds fp = ?ls"
    using acc by (simp_all add: accepted_def Let_def)
  have wq: "?w r \<longleftrightarrow> ?o r \<and> ?oq r" for r
    using where_quals [of Q F JOIN_ANTI "joinrelids j" C W ris r] by (auto simp: fp quals_eq(2))
  have jq: "?js = (\<lambda>r. ?jq r \<and> ?i r)" by (simp add: fp quals_eq(1) fun_eq_iff)
  have "depends_on Q F (plan_tables p) (clause ri)" if "ri \<in> set (remote_conds fp) \<union> set (local_conds fp)" for ri
    using that AB ris [of ri] above by (auto simp: fp both_sides_def)
  then have w: "?w r = ?w r'" if "\<And>n. n \<in> plan_tables p \<Longrightarrow> r n = r' n" for r r'
    using that all_hold_depends [of "map clause (remote_conds fp)" Q F "plan_tables p" r r']
      all_hold_depends [of "map clause (local_conds fp)" Q F "plan_tables p" r r'] by auto
  have pick: "anti_row Q a n = a n" if "a \<in> set A" "n \<in> plan_tables p" for a n
    using doc A [OF that(1)] that(2) by (auto simp: documented_joins_def map_le_def)
  have eq: "matches ?js a B = [] \<and> ?w a \<longleftrightarrow> (?o a \<and> matches ?jq a (filter ?i B) = []) \<and> ?oq a" if a: "a \<in> set A" for a
    using matches_filter [of B ?i a ?jq, OF both_sidesD(2) [OF AB a]] wq [of a] unfolding jq by auto
  have "map (outputs Q F tgt) (filter ?w (map (anti_row Q) (filter (\<lambda>a. matches ?js a B = []) A)))
      = map (outputs Q F tgt) (filter (\<lambda>a. matches ?js a B = [] \<and> ?w a) A)"
    using w pick outputs_depend [OF tgt] by (intro map_filter_map) blast+
  also have "filter (\<lambda>a. matches ?js a B = [] \<and> ?w a) A = filter ?oq (filter (\<lambda>a. ?o a \<and> matches ?jq a (filter ?i B) = []) A)"
    unfolding filter_filter by (intro filter_cong refl eq)
  finally show ?thesis by (simp add: ch_join_rows_def)
qed

text \<open>
  A plan over relations of the wrapper, at the top: the target reads tables of the plan and
  contains no subquery.
\<close>

definition target_ok :: "plan \<Rightarrow> bool" where
  "target_ok p \<longleftrightarrow> (\<forall>x \<in> set (plan_target p). \<not> contain_subplans x \<and> varno ` set (expr_vars x) \<subseteq> plan_tables p)"

lemma rel_relids_plan: "rel_relids (plan_rel C W srv p) = plan_relids p"
  by (cases p) (simp_all add: rel_relids_def clickhouseGetForeignRelSize_def clickhouseGetForeignJoinPaths_def Let_def)

lemma semi_target_depends:
  assumes "accepted C W j jt (plan_rel C W srv p) (plan_rel C W srv q) ris fo fi fp"
    and "jt \<in> {JOIN_SEMI, JOIN_ANTI}" and "plan_ok C W Q F (PJoin jt j R ris p q)" and "target_ok (PJoin jt j R ris p q)"
    and "x \<in> set (join_target j)"
  shows "depends_on Q F (plan_tables p) x"
proof (rule free_depends_on)
  show "\<not> contain_subplans x" using assms(4,5) by (simp add: target_ok_def)
  have "semijoin_target_ok j (plan_rel C W srv p) (plan_rel C W srv q)" using assms(1,2) unfolding accepted_def by blast
  then have "varno v \<notin> plan_tables q" if "v \<in> set (expr_vars x)" for v
    using assms(3,5) that by (fastforce simp: semijoin_target_ok_def list_all_iff rel_relids_plan)
  then show "varno ` set (expr_vars x) \<subseteq> plan_tables p"
    using assms(4,5) by (fastforce simp: target_ok_def)
qed

lemma base_conds:
  assumes "fdw_private (plan_rel C W srv p) = Some fo" and "\<not> IS_JOIN_REL (plan_rel C W srv p)"
  obtains i target ris name where "p = PBase i target ris name" and "set (remote_conds fo) \<subseteq> set (plan_conds p)"
  using assms by (cases p) (auto simp: clickhouseGetForeignRelSize_def clickhouseGetForeignJoinPaths_def Let_def)



text \<open>
  \<open>orders o LEFT JOIN lines l ON o.a = l.a AND l.b = 7 WHERE o.a > 2\<close>, where the server has no
  counterpart of the last operator.
\<close>

definition col :: "nat \<Rightarrow> int \<Rightarrow> expr" where
  "col n a = Var \<lparr>varno = n, varattno = a, varlevelsup = 0, vartype = 23, varnulled = False\<rparr>"

definition cond :: "bool \<Rightarrow> nat list \<Rightarrow> expr \<Rightarrow> RestrictInfo" where
  "cond down rels x = \<lparr>clause = x, is_pushed_down = down, required_relids = rels\<rparr>"

definition cells :: "int list \<Rightarrow> int \<Rightarrow> sqlval" where
  "cells xs i = (if 1 \<le> i \<and> nat i \<le> length xs then Some (VInt (xs ! (nat i - 1))) else None)"

definition ex_query :: query_world where
  "ex_query = \<lparr>tables = (\<lambda>i. if i = 1 then [cells [3, 3], cells [1, 1], cells [5, 6]] else [cells [3, 7], cells [5, 8]]),
     q_params = (\<lambda>_. None), q_subs = (\<lambda>_ _. []), semi_row = (\<lambda>a ms. hd ms), anti_row = (\<lambda>a. a)\<rparr>"

definition ex_join :: "expr list \<Rightarrow> join_rel" where
  "ex_join target = \<lparr>joinrelids = [1, 2], top_parent_relids = None, join_target = target\<rparr>"

definition ex_root :: PlannerInfo where
  "ex_root = \<lparr>ph_eval_at = [], rtable_length = 3, join_rel_list_length = 1\<rparr>"

definition ex_plan :: plan where
  "ex_plan = PJoin JOIN_LEFT (ex_join [col 1 1, col 2 2]) ex_root
     [cond False [1, 2] (OpExpr 96 [col 1 1, col 2 1]), cond True [1] (OpExpr 521 [col 1 1, Const (CScalar (VInt 2))])]
     (PBase 1 [col 1 1] [] ''o'')
     (PBase 2 [col 2 1, col 2 2] [cond False [2] (OpExpr 96 [col 2 2, Const (CScalar (VInt 7))])] ''l'')"

lemma documented_ex_query: "documented_joins ex_query"
  by (simp add: documented_joins_def ex_query_def)

lemma col_cond [simp]: "\<not> contain_subplans (col n a)" "expr_vars (col n a) = [\<lparr>varno = n, varattno = a, varlevelsup = 0, vartype = 23, varnulled = False\<rparr>]"
  "clause (cond d rels x) = x"
  by (simp_all add: col_def cond_def)


section \<open>Semijoins and antijoins outside these conditions\<close>

text \<open>
  \<open>SELECT a FROM o WHERE o.a = o.b AND NOT EXISTS (SELECT FROM l WHERE l.b = o.a)\<close>. The filter
  on the outer table is a simple equality, so it is moved to the ON clause of the antijoin, where
  a row that fails it counts as a row without a match: the query returns a row that SQL rejects.
\<close>

definition anti_plan :: plan where
  "anti_plan = PJoin JOIN_ANTI (ex_join [col 1 1]) ex_root [cond False [1, 2] (OpExpr 96 [col 1 1, col 2 2])]
     (PBase 1 [col 1 1] [cond False [1] (OpExpr 96 [col 1 1, col 1 2])] ''o'') (PBase 2 [col 2 2] [] ''l'')"

definition pushed_outputs :: "query_world \<Rightarrow> sql_params \<Rightarrow> plan \<Rightarrow> sqlval list list option" where
  "pushed_outputs Q F p = (let rel = plan_rel ex_catalog ex_walk 7 p in
     case (fdw_private rel, deparseFromExprForRel (\<lambda>_. []) rel True []) of
       (Some fp, Inr (t, _)) \<Rightarrow> if pushdown_safe fp
         then Some (map (outputs Q F (plan_target p)) (filter (all_hold Q F (map clause (local_conds fp)))
                (filter (all_hold Q F (map clause (remote_conds fp))) (ch_from_rows Q F t))))
         else None
     | _ \<Rightarrow> None)"

lemma antijoin_outer_equality:
  "pushed_outputs ex_query ex_params anti_plan = Some [[Some (VInt 3)], [Some (VInt 1)], [Some (VInt 5)]]
   \<and> map (outputs ex_query ex_params [col 1 1]) (plan_rows ex_query ex_params anti_plan) = [[Some (VInt 3)], [Some (VInt 1)]]"
  by code_simp

text \<open>
  \<open>SELECT a FROM o WHERE EXISTS (SELECT FROM l WHERE l.a = o.a AND l.b <> o.b)\<close>. The second
  clause is no simple equality, so it stays in the WHERE clause after the semijoin, where it is
  tested on one match of ClickHouse's choice: the query loses a row that another match satisfies.
\<close>

definition semi_query :: query_world where
  "semi_query = \<lparr>tables = (\<lambda>i. if i = 1 then [cells [3, 7]] else [cells [3, 7], cells [3, 8]]),
     q_params = (\<lambda>_. None), q_subs = (\<lambda>_ _. []), semi_row = (\<lambda>a ms. hd ms), anti_row = (\<lambda>a. a)\<rparr>"

definition semi_plan :: plan where
  "semi_plan = PJoin JOIN_SEMI (ex_join [col 1 1]) ex_root
     [cond False [1, 2] (OpExpr 96 [col 1 1, col 2 1]), cond False [1, 2] (OpExpr 518 [col 2 2, col 1 2])]
     (PBase 1 [col 1 1] [] ''o'') (PBase 2 [col 2 2] [] ''l'')"

lemma semijoin_filter_after_match:
  "documented_joins semi_query \<and> pushed_outputs semi_query ex_params semi_plan = Some []
   \<and> map (outputs semi_query ex_params [col 1 1]) (plan_rows semi_query ex_params semi_plan) = [[Some (VInt 3)]]"
proof (intro conjI)
  show "documented_joins semi_query" by (simp add: documented_joins_def semi_query_def)
qed code_simp+

end
