(* ===== verification/Cursor.thy ===== *)
theory Cursor
  imports ConnCache Literals Http
begin

text \<open>
  Cursors over a driver's response (\<open>src/cursor.c\<close>) and the functions of the two drivers that
  open them (\<open>src/pglink.c\<close>): who owns a response, and when it is released.

  A response is a number. The world records which responses are live, each with the handle of
  its connection, the requests sent, whether a response was ever released that was not live,
  and the HTTP connections whose server version was asked for. Memory contexts are modelled by what their deletion does: the reset callback of a
  cursor's context is \<open>cursor_free\<close>. The decoder of the Native format, the outcome of
  allocations, pending interrupts and what the server answers are parameters (\<open>cursor_env\<close>).
\<close>

section \<open>Responses\<close>

record resp_world =
  live :: "(nat \<times> nat) list"
  next_resp :: nat
  bad_free :: bool
  sent_sql :: "(nat \<times> string) list"
  versions_known :: "nat set"

definition new_resp :: "nat \<Rightarrow> resp_world \<Rightarrow> resp_world \<times> nat" where
  "new_resp c w = (w\<lparr>live := (next_resp w, c) # live w, next_resp := Suc (next_resp w)\<rparr>, next_resp w)"

text \<open>\<open>free_response\<close> of a driver, which accepts NULL.\<close>

definition free_resp :: "nat option \<Rightarrow> resp_world \<Rightarrow> resp_world" where
  "free_resp r w = (case r of
       None \<Rightarrow> w
     | Some i \<Rightarrow> if i \<in> fst ` set (live w) then w\<lparr>live := filter (\<lambda>(j, c). j \<noteq> i) (live w)\<rparr>
                 else w\<lparr>bad_free := True\<rparr>)"

definition log_sql :: "nat \<Rightarrow> string \<Rightarrow> resp_world \<Rightarrow> resp_world" where
  "log_sql c sql w = w\<lparr>sent_sql := sent_sql w @ [(c, sql)]\<rparr>"

section \<open>Cursors\<close>

record 'rd ch_cursor =
  cur_methods :: driver_methods
  cur_response :: "nat option"
  cur_conn :: nat
  cur_query :: string
  cur_reader :: 'rd
  columns_count :: nat
  fill_dest :: "nat list option"

text \<open>
  What the cursor relies on. The i-th allocation of \<open>chfdw_cursor_open\<close> may fail; the reader's
  functions are those of the decoder; the last group is what the HTTP stream of a response
  reports.
\<close>

record ('rd, 'v) cursor_env =
  alloc_ok :: "nat \<Rightarrow> bool"
  interrupt :: "pg_error option"
  rd_init :: "nat \<Rightarrow> 'rd pg"
  rd_columns :: "'rd \<Rightarrow> nat"
  rd_error :: "'rd \<Rightarrow> string option"
  rd_next :: "'rd \<Rightarrow> 'rd \<times> bool"
  rd_row :: "'rd \<Rightarrow> 'v option list"
  rd_fill :: "'rd \<Rightarrow> nat list \<Rightarrow> 'v option list \<Rightarrow> 'v option list pg"
  stream_canceled :: "nat \<Rightarrow> bool"
  stream_query_id :: "nat \<Rightarrow> string"
  stream_exception :: "nat \<Rightarrow> string option"

definition out_of_memory :: pg_error where
  "out_of_memory = Ereport ERRCODE_OUT_OF_MEMORY ''out of memory'' []"

definition query_aborted :: pg_error where
  "query_aborted = Ereport ERRCODE_SQL_ROUTINE_EXCEPTION ''pg_clickhouse: query was aborted'' []"

definition remote_query :: "string \<Rightarrow> string" where
  "remote_query sql = ''Remote Query: '' @ take 64000 sql"

text \<open>\<open>CHECK_FOR_INTERRUPTS\<close> before raising \<open>e\<close>: a pending interrupt is raised instead.\<close>

definition or_interrupt :: "('rd, 'v) cursor_env \<Rightarrow> pg_error \<Rightarrow> pg_error" where
  "or_interrupt env e = (case interrupt env of None \<Rightarrow> e | Some i \<Rightarrow> i)"

definition cursor_free :: "'rd ch_cursor \<Rightarrow> resp_world \<Rightarrow> resp_world" where
  "cursor_free c w = free_resp (cur_response c) w"

definition kill_query :: "nat \<Rightarrow> string \<Rightarrow> resp_world \<Rightarrow> resp_world" where
  "kill_query cn qid w = log_sql cn (''kill query where query_id='' @ ch_quote_literal qid) w"

text \<open>\<open>http_native_read_error\<close>: the world, the cursor, and the error it raises, if any.\<close>

definition http_native_read_error ::
    "('rd, 'v) cursor_env \<Rightarrow> 'rd ch_cursor \<Rightarrow> resp_world \<Rightarrow> resp_world \<times> 'rd ch_cursor \<times> pg_error option" where
  "http_native_read_error env c w =
     (case cur_response c of
        None \<Rightarrow> (w, c, None)
      | Some r \<Rightarrow>
          if stream_canceled env r \<or> interrupt env \<noteq> None then
            (kill_query (cur_conn c) (stream_query_id env r) (free_resp (Some r) w), c\<lparr>cur_response := None\<rparr>,
             Some (or_interrupt env query_aborted))
          else (case stream_exception env r of
                  Some m \<Rightarrow> (w, c, Some (Ereport ERRCODE_SQL_ROUTINE_EXCEPTION (''pg_clickhouse: '' @ m)
                                      [remote_query (cur_query c)]))
                | None \<Rightarrow> (w, c, None)))"

definition raise_reader_error ::
    "('rd, 'v) cursor_env \<Rightarrow> 'rd ch_cursor \<Rightarrow> resp_world \<Rightarrow> resp_world \<times> 'rd ch_cursor \<times> pg_error" where
  "raise_reader_error env c w =
     (let own = or_interrupt env (Ereport ERRCODE_SQL_ROUTINE_EXCEPTION
            (''pg_clickhouse: '' @ (case rd_error env (cur_reader c) of None \<Rightarrow> '''' | Some m \<Rightarrow> m))
            [remote_query (cur_query c)])
      in case cur_methods c of
           binary_methods \<Rightarrow> (w, c, own)
         | http_methods \<Rightarrow>
             (case http_native_read_error env c w of
                (w, c, Some e) \<Rightarrow> (w, c, e)
              | (w, c, None) \<Rightarrow> (w, c, own)))"

definition configure_columns ::
    "('rd, 'v) cursor_env \<Rightarrow> string \<Rightarrow> nat list option \<Rightarrow> 'rd ch_cursor \<Rightarrow> unit pg" where
  "configure_columns env sql attrs c =
     (case attrs of
        Some as \<Rightarrow>
          if as \<noteq> [] \<and> columns_count c > 0 \<and> length as \<noteq> columns_count c
          then Inl (Ereport ERRCODE_DATATYPE_MISMATCH
                 (''pg_clickhouse: returned '' @ show_nat (columns_count c) @ '' columns, expected ''
                  @ show_nat (length as)) [remote_query sql])
          else Inr ()
      | None \<Rightarrow> Inr ())"

text \<open>
  \<open>chfdw_cursor_open\<close>. The allocations are the context (0), the cursor (1) and the copy of the
  query (2); until the response is taken an error releases it directly, and from then on
  through the callback that deleting the context runs.
\<close>

definition chfdw_cursor_open ::
    "('rd, 'v) cursor_env \<Rightarrow> driver_methods \<Rightarrow> nat \<Rightarrow> string \<Rightarrow> nat list option \<Rightarrow> nat \<Rightarrow> resp_world
      \<Rightarrow> resp_world \<times> 'rd ch_cursor pg" where
  "chfdw_cursor_open env m cn sql attrs r w =
     (if \<not> alloc_ok env 0 \<or> \<not> alloc_ok env 1 \<or> \<not> alloc_ok env 2 then (free_resp (Some r) w, Inl out_of_memory)
      else (case rd_init env r of
              Inl e \<Rightarrow> (free_resp (Some r) w, Inl e)
            | Inr rd \<Rightarrow>
                (let c = \<lparr>cur_methods = m, cur_response = Some r, cur_conn = cn, cur_query = sql, cur_reader = rd,
                          columns_count = rd_columns env rd, fill_dest = None\<rparr>
                 in if rd_error env rd \<noteq> None then
                      (case raise_reader_error env c w of (w, c, e) \<Rightarrow> (cursor_free c w, Inl e))
                    else (case configure_columns env sql attrs c of
                            Inl e \<Rightarrow> (cursor_free c w, Inl e)
                          | Inr _ \<Rightarrow> (w, Inr c)))))"

text \<open>The row context: the attributes to fill, and the tuple with one slot per attribute.\<close>

record 'v row_ctx =
  retrieved_attrs :: "nat list"
  tupdesc :: bool
  tup_slots :: "'v option list"

definition build_conversion :: "'v row_ctx \<Rightarrow> nat list" where
  "build_conversion ctx = map (\<lambda>attnum. attnum - 1) (retrieved_attrs ctx)"

definition apply_row ::
    "('rd, 'v) cursor_env \<Rightarrow> 'v row_ctx \<Rightarrow> 'rd ch_cursor \<Rightarrow> 'rd ch_cursor \<times> 'v option list pg" where
  "apply_row env ctx c =
     (let rd = cur_reader c; attcount = length (retrieved_attrs ctx)
      in if attcount = 0 then
           (c, if rd_columns env rd = 1 \<and> hd (rd_row env rd) = None then Inr (tup_slots ctx)
               else Inl (Ereport ERRCODE_FDW_ERROR (''pg_clickhouse: unexpected state: attributes ''
                      @ ''count == 0 and haven't got NULL in the response'') []))
         else if attcount \<noteq> rd_columns env rd then
           (c, Inl (Ereport ERRCODE_DATATYPE_MISMATCH
                 (''pg_clickhouse: returned '' @ show_nat (rd_columns env rd) @ '' columns, expected ''
                  @ show_nat attcount) []))
         else if tupdesc ctx then
           (let dest = (case fill_dest c of None \<Rightarrow> build_conversion ctx | Some d \<Rightarrow> d)
            in (c\<lparr>fill_dest := Some dest\<rparr>, rd_fill env rd dest (tup_slots ctx)))
         else (c, Inr (rd_row env rd)))"

text \<open>\<open>None\<close> is the end of the rows. An error of the conversion has the query as detail.\<close>

definition chfdw_cursor_fetch_row ::
    "('rd, 'v) cursor_env \<Rightarrow> 'v row_ctx \<Rightarrow> 'rd ch_cursor \<Rightarrow> resp_world
      \<Rightarrow> resp_world \<times> 'rd ch_cursor \<times> 'v option list option pg" where
  "chfdw_cursor_fetch_row env ctx c w =
     (case rd_next env (cur_reader c) of
        (rd, have_data) \<Rightarrow>
          (let c = c\<lparr>cur_reader := rd\<rparr>
           in if rd_error env rd \<noteq> None then
                (case raise_reader_error env c w of (w, c, e) \<Rightarrow> (w, c, Inl e))
              else if have_data then
                (case apply_row env ctx c of
                   (c, Inr t) \<Rightarrow> (w, c, Inr (Some t))
                 | (c, Inl (Ereport s m ls)) \<Rightarrow> (w, c, Inl (Ereport s m (ls @ [remote_query (cur_query c)]))))
              else (w, c, Inr None)))"


section \<open>The drivers' queries\<close>

text \<open>
  What sending a query by the binary driver gives: the response's error text, if any. For HTTP,
  what one request gives: no stream, or a stream with its status, its transport error, and
  the error text of its body.
\<close>

datatype http_outcome =
    BeginFailed
  | Begun (oc_status: int) (oc_error: "string option") (oc_text: string) (oc_query_id: string)

text \<open>\<open>clip\<close> is the copy of the message into the error buffer.\<close>

definition binary_simple_query ::
    "('rd, 'v) cursor_env \<Rightarrow> (string \<Rightarrow> string) \<Rightarrow> nat \<Rightarrow> string \<Rightarrow> nat list option \<Rightarrow> string option \<Rightarrow> resp_world
      \<Rightarrow> resp_world \<times> 'rd ch_cursor pg" where
  "binary_simple_query env clip cn sql attrs msg w =
     (case new_resp cn (log_sql cn sql w) of
        (w, r) \<Rightarrow>
          (case msg of
             Some m \<Rightarrow>
               (free_resp (Some r) w,
                Inl (or_interrupt env (Ereport ERRCODE_SQL_ROUTINE_EXCEPTION (''pg_clickhouse: '' @ clip m)
                       [remote_query sql])))
           | None \<Rightarrow> chfdw_cursor_open env binary_methods cn sql attrs r w))"

definition native_overrides :: "ch_server_version \<Rightarrow> string \<Rightarrow> (string \<times> string) list" where
  "native_overrides version session_timezone =
     [(''default_format'', ''Native'')]
     @ (if chfdw_version_ge version 24 7 then [(''output_format_native_encode_types_in_binary_format'', ''0'')] else [])
     @ (if chfdw_version_ge version 24 10 then [(''output_format_native_write_json_as_string'', ''1'')] else [])
     @ (if chfdw_version_ge version 23 6 then [(''session_timezone'', session_timezone)] else [])"

text \<open>\<open>report_http_stream_query_failure\<close>: always raises, and ends the stream.\<close>

definition report_http_stream_query_failure ::
    "('rd, 'v) cursor_env \<Rightarrow> nat \<Rightarrow> string \<Rightarrow> nat \<Rightarrow> http_outcome \<Rightarrow> resp_world \<Rightarrow> resp_world \<times> pg_error" where
  "report_http_stream_query_failure env cn sql r oc w =
     (if oc_status oc = CH_HTTP_STATUS_CANCELED then
        (free_resp (Some r) (kill_query cn (oc_query_id oc) w), or_interrupt env query_aborted)
      else if oc_status oc = CH_HTTP_STATUS_TRANSPORT_ERROR then
        (free_resp (Some r) w,
         Ereport ERRCODE_SQLCLIENT_UNABLE_TO_ESTABLISH_SQLCONNECTION
           (''pg_clickhouse: communication error: ''
            @ (case oc_error oc of Some m \<Rightarrow> m | None \<Rightarrow> ''connection error'')) [])
      else
        (free_resp (Some r) w,
         Ereport ERRCODE_SQL_ROUTINE_EXCEPTION (''pg_clickhouse: '' @ oc_text oc)
           ((if oc_status oc < 404 then [] else [remote_query sql])
            @ [''HTTP status code: '' @ show_int (oc_status oc)])))"

text \<open>
  The attempts of \<open>http_native_cursor\<close>: the outcome of each attempt is the argument \<open>oc\<close>, and
  \<open>attempts\<close> counts the requests made before.
\<close>

function http_native_attempts ::
    "('rd, 'v) cursor_env \<Rightarrow> (nat \<Rightarrow> http_outcome) \<Rightarrow> nat \<Rightarrow> string \<Rightarrow> nat list option \<Rightarrow> nat \<Rightarrow> resp_world
      \<Rightarrow> resp_world \<times> 'rd ch_cursor pg" where
  "http_native_attempts env oc cn sql attrs attempts w =
     (case oc attempts of
        BeginFailed \<Rightarrow>
          (w, Inl (Ereport ERRCODE_INTERNAL_ERROR ''pg_clickhouse: failed to initialize HTTP stream'' []))
      | Begun status err msg qid \<Rightarrow>
          (case new_resp cn (log_sql cn sql w) of
             (w, r) \<Rightarrow>
               if status = CH_HTTP_STATUS_TRANSPORT_ERROR \<and> attempts + 1 < 3
               then http_native_attempts env oc cn sql attrs (attempts + 1) (free_resp (Some r) w)
               else if \<not> ch_http_status_ok status
               then (case report_http_stream_query_failure env cn sql r (oc attempts) w of
                       (w, e) \<Rightarrow> (w, Inl e))
               else chfdw_cursor_open env http_methods cn sql attrs r w))"
  by pat_completeness auto
termination
  by (relation "measure (\<lambda>(env, oc, cn, sql, attrs, attempts, w). 3 - attempts)") auto

declare http_native_attempts.simps [simp del]

text \<open>
  \<open>ch_http_server_version\<close>: the first time, the version is asked for; the response is freed at once,
  and whatever it says the question is not repeated.
\<close>

definition ch_http_server_version :: "nat \<Rightarrow> resp_world \<Rightarrow> resp_world" where
  "ch_http_server_version cn w =
     (if cn \<in> versions_known w then w
      else (log_sql cn ''SELECT version()'' w)\<lparr>versions_known := insert cn (versions_known w)\<rparr>)"

text \<open>\<open>http_native_cursor\<close>: \<open>native_overrides\<close> asks for the version before the first attempt.\<close>

definition http_native_cursor ::
    "('rd, 'v) cursor_env \<Rightarrow> (nat \<Rightarrow> http_outcome) \<Rightarrow> nat \<Rightarrow> string \<Rightarrow> nat list option \<Rightarrow> resp_world
      \<Rightarrow> resp_world \<times> 'rd ch_cursor pg" where
  "http_native_cursor env oc cn sql attrs w = http_native_attempts env oc cn sql attrs 0 (ch_http_server_version cn w)"

section \<open>Ownership\<close>

text \<open>Response numbers are given out once, so live ones are distinct and below the counter.\<close>

definition resp_ok :: "resp_world \<Rightarrow> bool" where
  "resp_ok w \<longleftrightarrow> distinct (map fst (live w)) \<and> (\<forall>p \<in> set (live w). fst p < next_resp w) \<and> \<not> bad_free w"

lemma resp_ok_log [simp]: "resp_ok (log_sql c sql w) = resp_ok w" "live (log_sql c sql w) = live w"
    "bad_free (log_sql c sql w) = bad_free w" "next_resp (log_sql c sql w) = next_resp w"
  by (simp_all add: resp_ok_def log_sql_def)

lemma resp_ok_kill [simp]: "resp_ok (kill_query c q w) = resp_ok w" "live (kill_query c q w) = live w"
    "next_resp (kill_query c q w) = next_resp w"
  by (simp_all add: kill_query_def)

lemma version_keeps [simp]: "resp_ok (ch_http_server_version cn w) = resp_ok w" "live (ch_http_server_version cn w) = live w"
    "next_resp (ch_http_server_version cn w) = next_resp w"
  by (simp_all add: ch_http_server_version_def resp_ok_def log_sql_def)

text \<open>Releasing the newest response restores the live ones as they were.\<close>

definition others :: "nat \<Rightarrow> resp_world \<Rightarrow> (nat \<times> nat) list" where
  "others r w = filter (\<lambda>(j, c). j \<noteq> r) (live w)"

lemma free_resp_live:
  assumes "resp_ok w" and "r \<in> fst ` set (live w)"
  shows "resp_ok (free_resp (Some r) w)" and "live (free_resp (Some r) w) = others r w"
    and "next_resp (free_resp (Some r) w) = next_resp w" and "sent_sql (free_resp (Some r) w) = sent_sql w"
  using assms by (auto simp: resp_ok_def free_resp_def others_def distinct_map intro: inj_on_subset)

lemma free_resp_None [simp]: "free_resp None w = w"
  by (simp add: free_resp_def)

lemma new_resp_ok:
  assumes "resp_ok w" and "new_resp c w = (w', r)"
  shows "resp_ok w'" and "live w' = (r, c) # live w" and "others r w' = live w" and "r = next_resp w"
    and "next_resp w' = Suc r" and "sent_sql w' = sent_sql w"
  using assms by (fastforce simp: resp_ok_def new_resp_def others_def intro!: filter_True)+

text \<open>
  The effect of code that holds one response: it is still live and owned, or it was released
  exactly once; the other responses are untouched.
\<close>

definition releases :: "nat \<Rightarrow> resp_world \<Rightarrow> resp_world \<Rightarrow> bool" where
  "releases r w w' \<longleftrightarrow> resp_ok w' \<and> live w' = others r w \<and> next_resp w' = next_resp w"

lemma releases_free: "resp_ok w \<Longrightarrow> r \<in> fst ` set (live w) \<Longrightarrow> releases r w (free_resp (Some r) w)"
  by (simp add: releases_def free_resp_live)

lemma raise_reader_error_owner:
  assumes "resp_ok w" and "r \<in> fst ` set (live w)" and "cur_response c = Some r"
    and "raise_reader_error env c w = (w', c', e)"
  shows "(w' = w \<and> cur_response c' = Some r) \<or> (releases r w w' \<and> cur_response c' = None)"
proof -
  have kill: "releases r w (kill_query cn q (free_resp (Some r) w))" for cn q
    using releases_free [OF assms(1,2)] by (simp add: releases_def)
  show ?thesis using assms(3,4) kill
    by (auto simp: raise_reader_error_def http_native_read_error_def Let_def
        split: driver_methods.splits if_splits option.splits)
qed

lemma cursor_open_owner:
  assumes "resp_ok w" and "r \<in> fst ` set (live w)" and "chfdw_cursor_open env m cn sql attrs r w = (w', res)"
  shows "case res of Inl e \<Rightarrow> releases r w w' | Inr c \<Rightarrow> w' = w \<and> cur_response c = Some r \<and> cur_conn c = cn"
proof -
  note free = releases_free [OF assms(1,2)]
  show ?thesis
  proof (cases "\<not> alloc_ok env 0 \<or> \<not> alloc_ok env 1 \<or> \<not> alloc_ok env 2")
    case True
    then show ?thesis using assms(3) free by (auto simp: chfdw_cursor_open_def)
  next
    case alloc: False
    show ?thesis
    proof (cases "rd_init env r")
      case (Inl e)
      then show ?thesis using assms(3) free alloc by (auto simp: chfdw_cursor_open_def)
    next
      case (Inr rd)
      define c where "c = \<lparr>cur_methods = m, cur_response = Some r, cur_conn = cn, cur_query = sql, cur_reader = rd,
          columns_count = rd_columns env rd, fill_dest = None\<rparr>"
      have c: "cur_response c = Some r" "cur_conn c = cn" by (simp_all add: c_def)
      have open': "chfdw_cursor_open env m cn sql attrs r w =
          (if rd_error env rd \<noteq> None then
             (case raise_reader_error env c w of (w, c, e) \<Rightarrow> (cursor_free c w, Inl e))
           else (case configure_columns env sql attrs c of Inl e \<Rightarrow> (cursor_free c w, Inl e) | Inr _ \<Rightarrow> (w, Inr c)))"
        unfolding chfdw_cursor_open_def Let_def c_def using alloc Inr by simp
      show ?thesis
      proof (cases "rd_error env rd = None")
        case True
        then show ?thesis using assms(3) c free unfolding open'
          by (auto simp: cursor_free_def split: sum.splits)
      next
        case False
        obtain w1 c1 e where raised: "raise_reader_error env c w = (w1, c1, e)" by (cases "raise_reader_error env c w")
        with raise_reader_error_owner [OF assms(1,2) c(1) raised] have "releases r w (cursor_free c1 w1)"
          using free by (auto simp: cursor_free_def)
        with False raised assms(3) show ?thesis unfolding open' by auto
      qed
    qed
  qed
qed


text \<open>A cursor with its response, live or already released by the driver's error report.\<close>

definition owns :: "nat \<Rightarrow> resp_world \<Rightarrow> 'rd ch_cursor \<Rightarrow> resp_world \<Rightarrow> bool" where
  "owns r w c w' \<longleftrightarrow> (cur_response c = Some r \<and> live w' = live w \<and> resp_ok w' \<and> next_resp w' = next_resp w)
     \<or> (cur_response c = None \<and> releases r w w')"

lemma owns_free:
  assumes "r \<in> fst ` set (live w)" and "owns r w c w'"
  shows "releases r w (cursor_free c w')"
proof (cases "cur_response c")
  case None
  with assms(2) show ?thesis by (simp add: owns_def cursor_free_def)
next
  case (Some r')
  with assms(2) have "r' = r" "live w' = live w" "resp_ok w'" "next_resp w' = next_resp w" by (auto simp: owns_def)
  with Some assms(1) releases_free [of w' r] show ?thesis by (simp add: cursor_free_def releases_def others_def)
qed

lemma apply_row_response: "cur_response (fst (apply_row env ctx c)) = cur_response c"
    "cur_conn (fst (apply_row env ctx c)) = cur_conn c"
  by (simp_all add: apply_row_def Let_def)

lemma fetch_row_owner:
  assumes r: "r \<in> fst ` set (live w)" and own: "owns r w c w1"
    and f: "chfdw_cursor_fetch_row env ctx c w1 = (w2, c2, res)"
  shows "owns r w c2 w2"
proof -
  obtain rd d where rd: "rd_next env (cur_reader c) = (rd, d)" by fastforce
  let ?c = "c\<lparr>cur_reader := rd\<rparr>"
  show ?thesis
  proof (cases "rd_error env rd = None")
    case True
    then have "w2 = w1 \<and> cur_response c2 = cur_response c"
      using f rd apply_row_response [of env ctx ?c]
      by (auto simp: chfdw_cursor_fetch_row_def Let_def split: prod.splits sum.splits pg_error.splits if_splits)
    with own show ?thesis by (simp add: owns_def)
  next
    case False
    then obtain e where raised: "raise_reader_error env ?c w1 = (w2, c2, e)"
      using f rd by (auto simp: chfdw_cursor_fetch_row_def Let_def split: prod.splits)
    from own consider "cur_response c = Some r" "live w1 = live w" "resp_ok w1" "next_resp w1 = next_resp w"
      | "cur_response c = None" "releases r w w1" by (auto simp: owns_def)
    then show ?thesis
    proof cases
      case 1
      with r have "r \<in> fst ` set (live w1)" "cur_response ?c = Some r" by auto
      from raise_reader_error_owner [OF 1(3) this raised] 1 show ?thesis
        by (auto simp: owns_def releases_def others_def)
    next
      case 2
      with raised have "w2 = w1 \<and> cur_response c2 = None"
        by (auto simp: raise_reader_error_def http_native_read_error_def Let_def split: driver_methods.splits)
      with 2 show ?thesis by (simp add: owns_def)
    qed
  qed
qed

text \<open>Fetching any number of rows, going on after errors.\<close>

fun fetch_rows ::
    "('rd, 'v) cursor_env \<Rightarrow> 'v row_ctx list \<Rightarrow> 'rd ch_cursor \<Rightarrow> resp_world \<Rightarrow> resp_world \<times> 'rd ch_cursor" where
  "fetch_rows env [] c w = (w, c)"
| "fetch_rows env (ctx # ctxs) c w =
     (case chfdw_cursor_fetch_row env ctx c w of (w, c, _) \<Rightarrow> fetch_rows env ctxs c w)"

lemma fetch_rows_owner:
  assumes "r \<in> fst ` set (live w)" and "owns r w c w1" and "fetch_rows env ctxs c w1 = (w2, c2)"
  shows "owns r w c2 w2"
  using assms(2,3)
proof (induction env ctxs c w1 rule: fetch_rows.induct)
  case (2 env ctx ctxs c w1)
  obtain w' c' res where f: "chfdw_cursor_fetch_row env ctx c w1 = (w', c', res)" by (metis prod_cases3)
  from 2 f fetch_row_owner [OF assms(1) "2.prems"(1) f] show ?case by simp
qed simp

text \<open>The requests that opening a cursor adds: at most one that kills the query.\<close>

lemma sent_free [simp]: "sent_sql (free_resp r w) = sent_sql w"
  by (simp add: free_resp_def split: option.splits)

lemma cursor_open_sent:
  assumes "chfdw_cursor_open env m cn sql attrs r w = (w', res)"
  shows "\<exists>k. sent_sql w' = sent_sql w @ k \<and> length k \<le> 1"
proof -
  have raised: "\<exists>k. sent_sql w1 = sent_sql w @ k \<and> length k \<le> 1" if "raise_reader_error env c w = (w1, c1, e)" for w1 c c1 e
    using that by (auto simp: raise_reader_error_def http_native_read_error_def kill_query_def log_sql_def Let_def
        split: driver_methods.splits option.splits if_splits)
  show ?thesis using assms
    by (auto simp: chfdw_cursor_open_def cursor_free_def Let_def dest: raised
        split: if_splits sum.splits prod.splits)
qed

lemma new_resp_sent [simp]: "sent_sql (fst (new_resp c w)) = sent_sql w"
  by (simp add: new_resp_def)

lemma http_native_attempts_effect:
  assumes "resp_ok w" and "attempts < 3" and "http_native_attempts env oc cn sql attrs attempts w = (w', res)"
  shows "(\<exists>n k. sent_sql w' = sent_sql w @ replicate n (cn, sql) @ k \<and> attempts + n \<le> 3 \<and> length k \<le> 1
           \<and> (\<forall>i. attempts \<le> i \<and> Suc i < attempts + n \<longrightarrow> oc_status (oc i) = CH_HTTP_STATUS_TRANSPORT_ERROR))
    \<and> (case res of Inl e \<Rightarrow> live w' = live w
       | Inr c \<Rightarrow> \<exists>r. cur_response c = Some r \<and> cur_conn c = cn \<and> live w' = (r, cn) # live w \<and> r \<notin> fst ` set (live w))
    \<and> resp_ok w'"
  using assms
proof (induction env oc cn sql attrs attempts w arbitrary: w' res rule: http_native_attempts.induct)
  case (1 env oc cn sql attrs attempts w)
  show ?case
  proof (cases "oc attempts")
    case BeginFailed
    with 1(2,3,4) show ?thesis by (subst (asm) http_native_attempts.simps) (auto intro!: exI [of _ 0])
  next
    case (Begun status err msg qid)
    obtain w1 r where new: "new_resp cn (log_sql cn sql w) = (w1, r)" by fastforce
    have okl: "resp_ok (log_sql cn sql w)" using 1(2) by simp
    note n = new_resp_ok [OF okl new]
    have live1: "live w1 = (r, cn) # live w" and oth: "others r w1 = live w" using n by simp_all
    have sent1: "sent_sql w1 = sent_sql w @ [(cn, sql)]" using n(6) by (simp add: log_sql_def)
    have rl: "r \<in> fst ` set (live w1)" and rn: "r \<notin> fst ` set (live w)"
      using live1 n(1) by (auto simp: resp_ok_def)
    note free = free_resp_live [OF n(1) rl]
    consider (again) "status = CH_HTTP_STATUS_TRANSPORT_ERROR" "attempts + 1 < 3"
      | (fail) "\<not> (status = CH_HTTP_STATUS_TRANSPORT_ERROR \<and> attempts + 1 < 3)" "\<not> ch_http_status_ok status"
      | (opens) "\<not> (status = CH_HTTP_STATUS_TRANSPORT_ERROR \<and> attempts + 1 < 3)" "ch_http_status_ok status" by blast
    then show ?thesis
    proof cases
      case again
      have rec: "http_native_attempts env oc cn sql attrs (attempts + 1) (free_resp (Some r) w1) = (w', res)"
        using 1(4) again Begun new by (subst (asm) http_native_attempts.simps) simp
      have sentf: "sent_sql (free_resp (Some r) w1) = sent_sql w @ [(cn, sql)]" using sent1 by simp
      from "1.IH" [OF Begun new [symmetric] conjI [OF again] free(1) again(2) rec, unfolded free(2) oth sentf]
      obtain n k where "sent_sql w' = (sent_sql w @ [(cn, sql)]) @ replicate n (cn, sql) @ k" "attempts + 1 + n \<le> 3" "length k \<le> 1"
        "\<forall>i. attempts + 1 \<le> i \<and> Suc i < attempts + 1 + n \<longrightarrow> oc_status (oc i) = CH_HTTP_STATUS_TRANSPORT_ERROR"
        and rest: "case res of Inl e \<Rightarrow> live w' = live w
       | Inr c \<Rightarrow> \<exists>r. cur_response c = Some r \<and> cur_conn c = cn \<and> live w' = (r, cn) # live w \<and> r \<notin> fst ` set (live w)"
          "resp_ok w'"
        by blast
      moreover have "\<forall>i. attempts \<le> i \<and> Suc i < attempts + Suc n \<longrightarrow> oc_status (oc i) = CH_HTTP_STATUS_TRANSPORT_ERROR"
        using calculation(4) Begun again(1) by (metis Suc_eq_plus1 add_Suc add_Suc_right http_outcome.sel(1) le_neq_implies_less not_less_eq_eq not_le)
      ultimately show ?thesis
        by (intro conjI exI [of _ "Suc n"] exI [of _ k]) auto
    next
      case fail
      then obtain e where "report_http_stream_query_failure env cn sql r (oc attempts) w1 = (w', e)" "res = Inl e"
        using 1(4) Begun new by (subst (asm) http_native_attempts.simps) (auto split: prod.splits)
      moreover have "releases r w1 (free_resp (Some r) (kill_query cn q w1))" for q
        using releases_free [of "kill_query cn q w1" r] n(1) rl by (simp add: releases_def others_def)
      ultimately have "releases r w1 w'" "\<exists>k. sent_sql w' = sent_sql w1 @ k \<and> length k \<le> 1"
        using releases_free [OF n(1) rl]
        by (auto simp: report_http_stream_query_failure_def kill_query_def log_sql_def split: if_splits)
      with oth sent1 \<open>res = Inl e\<close> 1(3) show ?thesis
        by (auto simp: releases_def intro!: exI [of _ 1])
    next
      case opens
      then have o: "chfdw_cursor_open env http_methods cn sql attrs r w1 = (w', res)"
        using 1(4) Begun new by (subst (asm) http_native_attempts.simps) (auto split: if_splits)
      from cursor_open_sent [OF o] cursor_open_owner [OF n(1) rl o] oth sent1 live1 rn n(1) 1(3) show ?thesis
        by (auto simp: releases_def intro!: exI [of _ 1] split: sum.splits)
    qed
  qed
qed


section \<open>Properties\<close>

text \<open>An environment with a decoder of two rows of two columns, and a world with one response.\<close>

definition ex_env :: "((int option list list), int) cursor_env" where
  "ex_env = \<lparr>alloc_ok = (\<lambda>_. True), interrupt = None, rd_init = (\<lambda>_. Inr [[], [Some 1, None], [Some 2, Some 7]]),
     rd_columns = (\<lambda>_. 2), rd_error = (\<lambda>_. None),
     rd_next = (\<lambda>rs. case rs of _ # x # xs \<Rightarrow> (x # xs, True) | _ \<Rightarrow> ([], False)),
     rd_row = hd, rd_fill = (\<lambda>rs dest t. Inr (fold (\<lambda>j t. t[dest ! j := hd rs ! j]) [0..<length dest] t)),
     stream_canceled = (\<lambda>_. False), stream_query_id = (\<lambda>_. ''q''), stream_exception = (\<lambda>_. None)\<rparr>"

definition ex_world :: resp_world where
  "ex_world = \<lparr>live = [(4, 9)], next_resp = 5, bad_free = False, sent_sql = [], versions_known = {}\<rparr>"

text \<open>
  C33: Ownership of a response. Opening a cursor either fails, and then the response has been
  released, exactly once, on every error path (a failed allocation before or after the
  cursor took it, an error or a column mismatch of the decoder, a cancellation that already
  released it); or it succeeds, and then deleting the cursor's context after any number of
  fetches, failed ones included, releases it exactly once. Other responses are untouched.
\<close>

theorem cursor_releases_response_once:
  assumes "resp_ok w" and "r \<in> fst ` set (live w)"
    and "chfdw_cursor_open env m cn sql attrs r w = (w', res)"
  shows "case res of
      Inl e \<Rightarrow> live w' = others r w \<and> \<not> bad_free w'
    | Inr c \<Rightarrow> \<forall>ctxs. case fetch_rows env ctxs c w' of (w2, c2) \<Rightarrow>
        live (cursor_free c2 w2) = others r w \<and> \<not> bad_free (cursor_free c2 w2)"
proof (cases res)
  case (Inl e)
  with cursor_open_owner [OF assms] show ?thesis by (simp add: releases_def resp_ok_def)
next
  case (Inr c)
  have "owns r w c w'" using cursor_open_owner [OF assms] Inr assms(1) by (simp add: owns_def)
  then have "releases r w (cursor_free c2 w2)" if "fetch_rows env ctxs c w' = (w2, c2)" for ctxs w2 c2
    using fetch_rows_owner [OF assms(2) _ that] owns_free [OF assms(2)] by blast
  with Inr show ?thesis by (auto simp: releases_def resp_ok_def split: prod.splits)
qed

theorem cursor_releases_response_once_witness:
  "\<exists>c. chfdw_cursor_open ex_env binary_methods 9 ''SELECT 1'' (Some [1, 2]) 4 ex_world = (ex_world, Inr c)
     \<and> live (cursor_free c ex_world) = []"
proof -
  have ok: "resp_ok ex_world" "4 \<in> fst ` set (live ex_world)" by code_simp+
  obtain c where o: "chfdw_cursor_open ex_env binary_methods 9 ''SELECT 1'' (Some [1, 2]) 4 ex_world = (ex_world, Inr c)"
    by (simp add: chfdw_cursor_open_def ex_env_def configure_columns_def)
  from cursor_releases_response_once [OF ok o] have "live (cursor_free c ex_world) = others 4 ex_world"
    by (auto dest: spec [of _ "[]"])
  with o show ?thesis by (auto simp: others_def ex_world_def)
qed

text \<open>
  C34: Retries. \<open>http_native_cursor\<close> always returns; it asks for the server version once per
  connection, sends the query at most three times, again only after a transport error, and at
  most one request to kill it. When it raises, no stream of it is left open; when it returns,
  exactly one is, and the cursor has it.
\<close>

theorem http_native_cursor_retries:
  assumes "resp_ok w" and "http_native_cursor env oc cn sql attrs w = (w', res)"
  shows "(\<exists>n k. sent_sql w' = sent_sql w @ (if cn \<in> versions_known w then [] else [(cn, ''SELECT version()'')])
        @ replicate n (cn, sql) @ k \<and> n \<le> 3 \<and> length k \<le> 1
      \<and> (\<forall>i. Suc i < n \<longrightarrow> oc_status (oc i) = CH_HTTP_STATUS_TRANSPORT_ERROR))
    \<and> (case res of
        Inl e \<Rightarrow> live w' = live w
      | Inr c \<Rightarrow> \<exists>r. cur_response c = Some r \<and> live w' = (r, cn) # live w \<and> r \<notin> fst ` set (live w))"
proof -
  let ?v = "ch_http_server_version cn w"
  have "sent_sql ?v = sent_sql w @ (if cn \<in> versions_known w then [] else [(cn, ''SELECT version()'')])"
    by (simp add: ch_http_server_version_def log_sql_def)
  moreover have "resp_ok ?v" using assms(1) by simp
  ultimately show ?thesis
    using http_native_attempts_effect [of ?v 0 env oc cn sql attrs w' res] assms(2)
    by (auto simp: http_native_cursor_def split: sum.splits)
qed

theorem http_native_cursor_retries_witness:
  "\<exists>n k. sent_sql (fst (http_native_cursor ex_env (\<lambda>_. Begun 419 None [] []) 9 ''SELECT 1'' None ex_world))
     = (9, ''SELECT version()'') # replicate n (9, ''SELECT 1'') @ k \<and> n \<le> 3 \<and> length k \<le> 1"
proof -
  have ok: "resp_ok ex_world" by code_simp
  obtain w' res where "http_native_cursor ex_env (\<lambda>_. Begun 419 None [] []) 9 ''SELECT 1'' None ex_world = (w', res)"
    by fastforce
  from http_native_cursor_retries [OF ok this] this show ?thesis by (auto simp: ex_world_def)
qed

end
