(* ===== verification/Scan.thy ===== *)
theory Scan
  imports Cursor
begin

text \<open>
  The scan callbacks of the foreign data wrapper (\<open>src/fdw.c\<close>): begin, iterate, rescan and end,
  over the connection cache of \<open>ConnCache\<close> and the cursors of \<open>Cursor\<close>, as operations and as a
  step relation of a backend that runs any number of scans.

  A scan is a plan node; its state is \<open>None\<close> before the scan begins and after its memory is
  gone. What the server answers, interrupts, parameters that cannot be converted and settings
  that cannot be read are arguments of the operations.
\<close>

section \<open>State\<close>

record 'rd ChFdwScanState =
  scan_conn :: ch_scan_connection
  s_cursor :: "'rd ch_cursor option"
  s_query :: string
  s_attrs :: "nat list"
  s_natts :: nat

record 'rd scan_world =
  scache :: conn_cache
  sresp :: resp_world
  nodes :: "'rd ChFdwScanState option list"

text \<open>The handle of a scan's connection; NULL is 0.\<close>

definition handle :: "'rd ChFdwScanState \<Rightarrow> nat" where
  "handle fs = (case conn (sc_gate (scan_conn fs)) of Some c \<Rightarrow> c | None \<Rightarrow> 0)"

text \<open>What the server and the environment answer to one call.\<close>

record ('rd, 'v) answers =
  cenv :: "('rd, 'v) cursor_env"
  http_answers :: "nat \<Rightarrow> http_outcome"
  binary_answer :: "string option"
  clip_text :: "string \<Rightarrow> string"
  params_error :: "pg_error option"
  settings_error :: "pg_error option"

section \<open>Operations\<close>

definition clickhouseBeginForeignScan ::
    "'enc conn_env \<Rightarrow> ('rd, 'v) answers \<Rightarrow> bool \<Rightarrow> UserMapping \<Rightarrow> string \<Rightarrow> nat list \<Rightarrow> nat \<Rightarrow> 'rd scan_world
      \<Rightarrow> 'rd scan_world \<times> unit pg" where
  "clickhouseBeginForeignScan env A explain_only user sql attrs natts st =
     (if explain_only then (st\<lparr>nodes := nodes st @ [None]\<rparr>, Inr ())
      else (case chfdw_get_scan_connection env user (scache st) of
              (c, Inl e) \<Rightarrow> (st\<lparr>scache := c\<rparr>, Inl e)
            | (c, Inr sc) \<Rightarrow>
                (st\<lparr>scache := c,
                    nodes := nodes st @ [Some \<lparr>scan_conn = sc, s_cursor = None, s_query = sql, s_attrs = attrs,
                                              s_natts = natts\<rparr>]\<rparr>,
                 case settings_error A of Some e \<Rightarrow> Inl e | None \<Rightarrow> Inr ())))"

text \<open>\<open>streaming_query\<close> of the HTTP driver, \<open>simple_query\<close> of the binary one.\<close>

definition run_query ::
    "('rd, 'v) answers \<Rightarrow> 'rd ChFdwScanState \<Rightarrow> resp_world \<Rightarrow> resp_world \<times> 'rd ch_cursor pg" where
  "run_query A fs w = (case methods (sc_gate (scan_conn fs)) of
       http_methods \<Rightarrow>
         http_native_cursor (cenv A) (http_answers A) (handle fs) (s_query fs) (Some (s_attrs fs)) w
     | binary_methods \<Rightarrow>
         binary_simple_query (cenv A) (clip_text A) (handle fs) (s_query fs) (Some (s_attrs fs)) (binary_answer A) w)"

definition fetch_tuple ::
    "('rd, 'v) cursor_env \<Rightarrow> 'rd ChFdwScanState \<Rightarrow> 'rd ch_cursor \<Rightarrow> resp_world
      \<Rightarrow> resp_world \<times> 'rd ch_cursor \<times> 'v option list option pg" where
  "fetch_tuple env fs c w =
     chfdw_cursor_fetch_row env
       \<lparr>retrieved_attrs = s_attrs fs, tupdesc = True, tup_slots = replicate (s_natts fs) None\<rparr> c w"

definition iterate_scan ::
    "('rd, 'v) answers \<Rightarrow> 'rd ChFdwScanState \<Rightarrow> resp_world
      \<Rightarrow> resp_world \<times> 'rd ChFdwScanState \<times> 'v option list option pg" where
  "iterate_scan A fs w =
     (case interrupt (cenv A) of
        Some e \<Rightarrow> (w, fs, Inl e)
      | None \<Rightarrow>
          (let fetch = (\<lambda>c w. case fetch_tuple (cenv A) fs c w of (w, c, r) \<Rightarrow> (w, fs\<lparr>s_cursor := Some c\<rparr>, r))
           in case s_cursor fs of
                Some c \<Rightarrow> fetch c w
              | None \<Rightarrow>
                  (case params_error A of
                     Some e \<Rightarrow> (w, fs, Inl e)
                   | None \<Rightarrow>
                       (case run_query A fs w of
                          (w, Inl e) \<Rightarrow> (w, fs, Inl e)
                        | (w, Inr c) \<Rightarrow> fetch c w))))"

definition clickhouseIterateForeignScan ::
    "('rd, 'v) answers \<Rightarrow> nat \<Rightarrow> 'rd scan_world \<Rightarrow> 'rd scan_world \<times> 'v option list option pg" where
  "clickhouseIterateForeignScan A i st = (case nodes st ! i of
       None \<Rightarrow> (st, Inr None)
     | Some fs \<Rightarrow>
         (case iterate_scan A fs (sresp st) of
            (w, fs, r) \<Rightarrow> (st\<lparr>sresp := w, nodes := (nodes st)[i := Some fs]\<rparr>, r)))"

definition dispose_scan :: "'rd ChFdwScanState \<Rightarrow> resp_world \<Rightarrow> resp_world \<times> 'rd ChFdwScanState" where
  "dispose_scan fs w = (case s_cursor fs of
       None \<Rightarrow> (w, fs)
     | Some c \<Rightarrow> (cursor_free c w, fs\<lparr>s_cursor := None\<rparr>))"

definition clickhouseReScanForeignScan :: "nat \<Rightarrow> 'rd scan_world \<Rightarrow> 'rd scan_world" where
  "clickhouseReScanForeignScan i st = (case nodes st ! i of
       None \<Rightarrow> st
     | Some fs \<Rightarrow> (case dispose_scan fs (sresp st) of
                     (w, fs) \<Rightarrow> st\<lparr>sresp := w, nodes := (nodes st)[i := Some fs]\<rparr>))"

definition clickhouseEndForeignScan :: "nat \<Rightarrow> 'rd scan_world \<Rightarrow> 'rd scan_world" where
  "clickhouseEndForeignScan i st = (case nodes st ! i of
       None \<Rightarrow> st
     | Some fs \<Rightarrow> (case dispose_scan fs (sresp st) of
                     (w, _) \<Rightarrow> st\<lparr>sresp := w, scache := chfdw_release_scan_connection (scan_conn fs) (scache st),
                                 nodes := (nodes st)[i := None]\<rparr>))"

text \<open>
  The memory of a scan is freed by an error instead of \<open>clickhouseEndForeignScan\<close>: the cursor's
  context, a child of the query's context, and then the lease, whose reset callback is
  registered in the query's context.
\<close>

definition free_scan_memory :: "nat \<Rightarrow> 'rd scan_world \<Rightarrow> 'rd scan_world" where
  "free_scan_memory i st = (case nodes st ! i of
       None \<Rightarrow> st
     | Some fs \<Rightarrow> (case dispose_scan fs (sresp st) of
                     (w, _) \<Rightarrow> st\<lparr>sresp := w,
                                 scache := (case sc_lease (scan_conn fs) of
                                     Some l \<Rightarrow> release_lease l (scache st) | None \<Rightarrow> scache st),
                                 nodes := (nodes st)[i := None]\<rparr>))"

section \<open>The backend as a state machine\<close>

text \<open>
  Besides the scans, other code takes and releases leases (inserts, utility queries), asks for
  the server's version, and the callbacks run. A transaction ends when no scan has state any
  more, which is what the callback relies on. Values of rows are numbers here; the state does
  not depend on them.
\<close>

definition node :: "'rd ChFdwScanState option list \<Rightarrow> nat \<Rightarrow> 'rd ChFdwScanState \<Rightarrow> bool" where
  "node N i fs \<longleftrightarrow> i < length N \<and> N ! i = Some fs"

definition scan_lease :: "'rd scan_world \<Rightarrow> nat \<Rightarrow> bool" where
  "scan_lease st l \<longleftrightarrow> (\<exists>i fs. node (nodes st) i fs \<and> sc_lease (scan_conn fs) = Some l)"

inductive scan_step :: "'rd scan_world \<Rightarrow> 'rd scan_world \<Rightarrow> bool" where
  sbegin: "fresh_handles (env :: unit conn_env) \<Longrightarrow>
     scan_step st (fst (clickhouseBeginForeignScan env (A :: ('rd, nat) answers) explain_only user sql attrs natts st))"
| siterate: "i < length (nodes st) \<Longrightarrow> scan_step st (fst (clickhouseIterateForeignScan (A :: ('rd, nat) answers) i st))"
| srescan: "i < length (nodes st) \<Longrightarrow> scan_step st (clickhouseReScanForeignScan i st)"
| send: "i < length (nodes st) \<Longrightarrow> scan_step st (clickhouseEndForeignScan i st)"
| sfree: "i < length (nodes st) \<Longrightarrow> scan_step st (free_scan_memory i st)"
| sget: "fresh_handles (env :: unit conn_env) \<Longrightarrow>
     scan_step st (st\<lparr>scache := fst (chfdw_get_scan_connection env user (scache st))\<rparr>)"
| srelease: "l < length (leases (scache st)) \<Longrightarrow> \<not> scan_lease st l \<Longrightarrow>
     scan_step st (st\<lparr>scache := release_lease l (scache st)\<rparr>)"
| sversion: "fresh_handles (env :: unit conn_env) \<Longrightarrow>
     scan_step st (st\<lparr>scache := fst (chfdw_get_server_version env version_of user (scache st))\<rparr>)"
| sinval: "scan_step st (st\<lparr>scache := chfdw_inval_callback cacheid hashvalue (scache st)\<rparr>)"
| sxact: "lease_generation (scache st) + 1 \<noteq> 0 \<Longrightarrow> (\<forall>i < length (nodes st). nodes st ! i = None) \<Longrightarrow>
     scan_step st (st\<lparr>scache := chfdw_xact_callback event (scache st)\<rparr>)"

inductive_cases scan_stepE: "scan_step st st'"

definition scan_init :: "'rd scan_world" where
  "scan_init = \<lparr>scache = conn_cache_init, sresp = \<lparr>live = [], next_resp = 0, bad_free = False, sent_sql = [], versions_known = {}\<rparr>, nodes = []\<rparr>"


section \<open>Leases and the cache\<close>

text \<open>A lease of the current transaction that a scan holds.\<close>

definition node_lease :: "conn_cache \<Rightarrow> 'rd ChFdwScanState \<Rightarrow> bool" where
  "node_lease c fs \<longleftrightarrow> (\<exists>l. sc_lease (scan_conn fs) = Some l \<and> l < length (leases c)
     \<and> sconn (leases c ! l) = scan_conn fs \<and> active (lease_generation c) (leases c ! l))"

lemma disconnect_leases [simp]:
  "leases (disconnect h st) = leases st" "lease_generation (disconnect h st) = lease_generation st"
  by (simp_all add: disconnect_def)

lemma close_idle_leases:
  "leases (snd (close_idle test es)) = leases (snd es)"
  "lease_generation (snd (close_idle test es)) = lease_generation (snd es)"
  by (simp_all add: close_idle_def split: prod.splits option.splits)

lemma connect_leases:
  "leases (fst (clickhouse_connect env so uo st)) = leases st"
  "lease_generation (fst (clickhouse_connect env so uo st)) = lease_generation st"
  by (simp_all add: clickhouse_connect_def Let_def split: sum.splits)

lemma get_entry_leases:
  "leases (fst (get_connection_entry env user st)) = leases st"
  "lease_generation (fst (get_connection_entry env user st)) = lease_generation st"
proof -
  obtain e s where es: "close_idle (test_broken env) (close_idle test_invalidated (enter_entry (umid user) st, st)) = (e, s)"
    by fastforce
  have s: "leases s = leases st" "lease_generation s = lease_generation st"
    using close_idle_leases [of "test_broken env" "close_idle test_invalidated (enter_entry (umid user) st, st)"]
      close_idle_leases [of test_invalidated "(enter_entry (umid user) st, st)"] es by simp_all
  have con: "leases s' = leases s \<and> lease_generation s' = lease_generation s"
    if "clickhouse_connect env so uo s = (s', r)" for so uo s' r
    using connect_leases [of env so uo s] that by simp
  show "leases (fst (get_connection_entry env user st)) = leases st"
    "lease_generation (fst (get_connection_entry env user st)) = lease_generation st"
    using s con by (simp_all add: get_connection_entry_def es Let_def split: prod.splits sum.splits)
qed

lemma version_leases:
  "leases (fst (chfdw_get_server_version env v user st)) = leases st"
  "lease_generation (fst (chfdw_get_server_version env v user st)) = lease_generation st"
proof -
  obtain s r where "get_connection_entry env user st = (s, r)" by fastforce
  with get_entry_leases [of env user st]
  show "leases (fst (chfdw_get_server_version env v user st)) = leases st"
    "lease_generation (fst (chfdw_get_server_version env v user st)) = lease_generation st"
    by (simp_all add: chfdw_get_server_version_def split: sum.splits)
qed

lemma inval_leases:
  "leases (chfdw_inval_callback i h st) = leases st"
  "lease_generation (chfdw_inval_callback i h st) = lease_generation st"
  by (simp_all add: chfdw_inval_callback_def)

text \<open>A new lease is the last one, current, and not yet released.\<close>

lemma get_scan_leases:
  assumes "chfdw_get_scan_connection env user st = (st', r)"
  shows "lease_generation st' = lease_generation st"
    and "case r of
        Inl e \<Rightarrow> leases st' = leases st
      | Inr sc \<Rightarrow> sc_lease sc = Some (length (leases st))
          \<and> leases st' = leases st @ [\<lparr>sconn = sc, generation = lease_generation st, released = False\<rparr>]"
proof -
  obtain s e where get: "get_connection_entry env user st = (s, e)" by fastforce
  have s: "leases s = leases st" "lease_generation s = lease_generation st"
    using get_entry_leases [of env user st] get by simp_all
  have con: "leases s' = leases s \<and> lease_generation s' = lease_generation s"
    if "clickhouse_connect env so uo s = (s', r)" for so uo s' r
    using connect_leases [of env so uo s] that by simp
  show "lease_generation st' = lease_generation st"
    and "case r of
        Inl e \<Rightarrow> leases st' = leases st
      | Inr sc \<Rightarrow> sc_lease sc = Some (length (leases st))
          \<and> leases st' = leases st @ [\<lparr>sconn = sc, generation = lease_generation st, released = False\<rparr>]"
    using assms s
    by (auto simp: chfdw_get_scan_connection_def get new_lease_def Let_def dest!: con
        split: sum.splits if_splits prod.splits)
qed

lemma give_back_leases:
  "leases (give_back sc st) = leases st" "lease_generation (give_back sc st) = lease_generation st"
  by (simp_all add: give_back_def Let_def split: option.splits)

lemma release_leases:
  "lease_generation (chfdw_release_scan_connection sc st) = lease_generation st"
  "length (leases (chfdw_release_scan_connection sc st)) = length (leases st)"
  "sc_lease sc = Some l \<Longrightarrow> l' \<noteq> l \<Longrightarrow> leases (chfdw_release_scan_connection sc st) ! l' = leases st ! l'"
  by (simp_all add: chfdw_release_scan_connection_def give_back_leases mark_released_def split: option.splits)


section \<open>Invariant\<close>

definition resp_of :: "'rd ChFdwScanState \<Rightarrow> nat option" where
  "resp_of fs = (case s_cursor fs of None \<Rightarrow> None | Some c \<Rightarrow> cur_response c)"

definition nodes_ok :: "conn_cache \<Rightarrow> 'rd ChFdwScanState option list \<Rightarrow> bool" where
  "nodes_ok c N \<longleftrightarrow> (\<forall>i fs. node N i fs \<longrightarrow> node_lease c fs)
   \<and> (\<forall>i j fs fs'. node N i fs \<and> node N j fs' \<and> i \<noteq> j \<longrightarrow> sc_lease (scan_conn fs) \<noteq> sc_lease (scan_conn fs'))"

text \<open>The live responses are exactly those of the scans' cursors, each on its scan's connection.\<close>

definition owned :: "(nat \<times> nat) list \<Rightarrow> 'rd ChFdwScanState option list \<Rightarrow> bool" where
  "owned L N \<longleftrightarrow> (\<forall>r h. (r, h) \<in> set L \<longleftrightarrow> (\<exists>i fs. node N i fs \<and> resp_of fs = Some r \<and> handle fs = h))"

definition scan_inv :: "'rd scan_world \<Rightarrow> bool" where
  "scan_inv st \<longleftrightarrow> cache_inv (scache st) \<and> resp_ok (sresp st) \<and> nodes_ok (scache st) (nodes st)
     \<and> owned (live (sresp st)) (nodes st)"

lemma node_upd:
  "node (N[i := x]) j fs \<longleftrightarrow> (if i = j \<and> i < length N then x = Some fs else node N j fs)"
  by (auto simp: node_def nth_list_update)

lemma node_append [simp]:
  "node (N @ [x]) j fs \<longleftrightarrow> node N j fs \<or> (j = length N \<and> x = Some fs)"
  by (auto simp: node_def nth_append less_Suc_eq)

lemma nodes_ok_cache:
  assumes "nodes_ok c N" and "\<And>i fs. node N i fs \<Longrightarrow> node_lease c fs \<Longrightarrow> node_lease c' fs"
  shows "nodes_ok c' N"
  using assms unfolding nodes_ok_def by blast

lemma nodes_ok_upd:
  assumes "nodes_ok c N" and "node N i fs" and "scan_conn fs' = scan_conn fs"
  shows "nodes_ok c (N[i := Some fs'])"
proof -
  have lease: "node_lease c fs'" using assms by (auto simp: nodes_ok_def node_lease_def)
  have same: "\<exists>f. node N k f \<and> scan_conn f = scan_conn f'" if "node (N[i := Some fs']) k f'" for k f'
    using that assms(2,3) by (auto simp: node_upd split: if_splits)
  show ?thesis using assms(1) lease same unfolding nodes_ok_def
    by (smt (verit) node_upd option.inject)
qed

lemma nodes_ok_drop: "nodes_ok c N \<Longrightarrow> nodes_ok c (N[i := None])"
  unfolding nodes_ok_def by (auto simp: node_upd)

text \<open>Two scans with a response are on different connections, so a response has one scan.\<close>

lemma node_conn:
  assumes inv: "cache_inv c" and "node_lease c fs"
  obtains h where "conn (sc_gate (scan_conn fs)) = Some h" and "handle fs = h" and "h \<in> set (open_conns c)"
proof -
  have cs: "conns_ok (lookup c) (map conn (PrivateConnections c)) (open_conns c)"
    and ls: "leases_ok (lookup c) (PrivateConnections c) (lease_generation c) (leases c)"
    using inv by (simp_all add: cache_inv_def)
  obtain l where l: "l < length (leases c)" "sconn (leases c ! l) = scan_conn fs" "active (lease_generation c) (leases c ! l)"
    using assms(2) unfolding node_lease_def by blast
  obtain h where "conn (sc_gate (scan_conn fs)) = Some h"
    "(\<exists>k. cached (lookup c) k h) \<or> Some h \<in> set (map conn (PrivateConnections c))"
    using holds_owner [OF leases_okD(3) [OF ls l(1,3)]] l(2) by metis
  with conns_okD(5) [OF cs] that show thesis by (simp add: handle_def)
qed

lemma handles_differ:
  assumes inv: "cache_inv c" and N: "nodes_ok c N" and i: "node N i fs" and j: "node N j fs'" and "i \<noteq> j"
  shows "handle fs \<noteq> handle fs'"
proof -
  have ls: "leases_ok (lookup c) (PrivateConnections c) (lease_generation c) (leases c)"
    using inv by (simp add: cache_inv_def)
  have lease: "node_lease c fs" "node_lease c fs'" using N i j unfolding nodes_ok_def by blast+
  have "sc_lease (scan_conn fs) \<noteq> sc_lease (scan_conn fs')" using N i j \<open>i \<noteq> j\<close> unfolding nodes_ok_def by blast
  with lease obtain l l' where l: "l < length (leases c)" "sconn (leases c ! l) = scan_conn fs"
      "active (lease_generation c) (leases c ! l)"
    and l': "l' < length (leases c)" "sconn (leases c ! l') = scan_conn fs'"
      "active (lease_generation c) (leases c ! l')" and ne: "l \<noteq> l'"
    unfolding node_lease_def by metis
  have "conn (sc_gate (scan_conn fs)) \<noteq> conn (sc_gate (scan_conn fs'))"
    using leases_okD(4) [OF ls l(1) l'(1) ne l(3) l'(3)] l(2) l'(2) by simp
  with node_conn [OF inv lease(1)] node_conn [OF inv lease(2)] show ?thesis by metis
qed

lemma response_node_unique:
  assumes inv: "cache_inv c" and N: "nodes_ok c N" and own: "owned L N" and L: "distinct (map fst L)"
    and "node N i fs" and "node N j fs'" and "resp_of fs = Some r" and "resp_of fs' = Some r"
  shows "i = j"
proof (rule ccontr)
  assume "i \<noteq> j"
  with handles_differ [OF inv N assms(5,6)] have "handle fs \<noteq> handle fs'" by simp
  moreover have "(r, handle fs) \<in> set L" "(r, handle fs') \<in> set L" using own assms(5-8) unfolding owned_def by blast+
  ultimately show False using L by (metis eq_key_imp_eq_value)
qed

text \<open>The three ways in which the responses and the scans change together.\<close>

lemma owned_same:
  assumes "owned L N" and "node N i fs" and "resp_of fs' = resp_of fs" and "handle fs' = handle fs"
  shows "owned L (N[i := Some fs'])"
  using assms unfolding owned_def by (smt (verit) node_def node_upd option.inject)

lemma owned_add:
  assumes "owned L N" and "node N i fs" and "resp_of fs = None" and "resp_of fs' = Some r" and "handle fs' = h"
  shows "owned ((r, h) # L) (N[i := Some fs'])"
  unfolding owned_def
proof (intro allI iffI)
  fix r' h' assume "(r', h') \<in> set ((r, h) # L)"
  then have "(r', h') = (r, h) \<or> (r', h') \<in> set L" by simp
  then show "\<exists>j f. node (N[i := Some fs']) j f \<and> resp_of f = Some r' \<and> handle f = h'"
  proof
    assume "(r', h') = (r, h)"
    then show ?thesis using assms(2,4,5) by (intro exI [of _ i] exI [of _ fs']) (auto simp: node_upd node_def)
  next
    assume "(r', h') \<in> set L"
    with assms(1) obtain j f where "node N j f" "resp_of f = Some r'" "handle f = h'" unfolding owned_def by blast
    moreover from this assms(2,3) have "j \<noteq> i" by (auto simp: node_def)
    ultimately show ?thesis by (intro exI [of _ j] exI [of _ f]) (auto simp: node_upd)
  qed
next
  fix r' h' assume "\<exists>j f. node (N[i := Some fs']) j f \<and> resp_of f = Some r' \<and> handle f = h'"
  then obtain j f where jf: "node (N[i := Some fs']) j f" "resp_of f = Some r'" "handle f = h'" by blast
  show "(r', h') \<in> set ((r, h) # L)"
  proof (cases "i = j")
    case True
    with jf assms(2,4,5) show ?thesis by (auto simp: node_upd node_def)
  next
    case False
    with jf assms(1) show ?thesis unfolding owned_def by (auto simp: node_upd)
  qed
qed

lemma owned_release:
  assumes inv: "cache_inv c" and N: "nodes_ok c N" and own: "owned L N" and L: "distinct (map fst L)"
    and i: "node N i fs" and r: "resp_of fs = Some r" and x: "\<And>f. x = Some f \<Longrightarrow> resp_of f = None"
  shows "owned (filter (\<lambda>(j, h). j \<noteq> r) L) (N[i := x])"
  unfolding owned_def
proof (intro allI)
  fix r' h
  have "(r', h) \<in> set L \<and> r' \<noteq> r \<longleftrightarrow> (\<exists>j f. node (N[i := x]) j f \<and> resp_of f = Some r' \<and> handle f = h)"
  proof (intro iffI)
    assume a: "(r', h) \<in> set L \<and> r' \<noteq> r"
    with own obtain j f where jf: "node N j f" "resp_of f = Some r'" "handle f = h" unfolding owned_def by blast
    with a i r have "i \<noteq> j" by (auto simp: node_def)
    with jf show "\<exists>j f. node (N[i := x]) j f \<and> resp_of f = Some r' \<and> handle f = h" by (auto simp: node_upd)
  next
    assume "\<exists>j f. node (N[i := x]) j f \<and> resp_of f = Some r' \<and> handle f = h"
    then obtain j f where jf: "node (N[i := x]) j f" "resp_of f = Some r'" "handle f = h" by blast
    with x i have ij: "i \<noteq> j" by (auto simp: node_upd node_def)
    with jf have jN: "node N j f" by (simp add: node_upd)
    with jf own have "(r', h) \<in> set L" unfolding owned_def by blast
    moreover have "r' \<noteq> r" using response_node_unique [OF inv N own L i jN r] jf(2) ij by blast
    ultimately show "(r', h) \<in> set L \<and> r' \<noteq> r" by blast
  qed
  then show "((r', h) \<in> set (filter (\<lambda>(j, h). j \<noteq> r) L))
      = (\<exists>i' fs. node (N[i := x]) i' fs \<and> resp_of fs = Some r' \<and> handle fs = h)" by simp
qed

lemma owned_drop:
  assumes "owned L N" and "node N i fs" and "resp_of fs = None"
  shows "owned L (N[i := None])"
  using assms unfolding owned_def by (smt (verit) node_def node_upd option.distinct(1) option.inject)


section \<open>The operations keep the invariant\<close>

lemma binary_simple_query_effect:
  assumes "resp_ok w" and "binary_simple_query env clip cn sql attrs msg w = (w', res)"
  shows "(case res of Inl e \<Rightarrow> live w' = live w
       | Inr c \<Rightarrow> \<exists>r. cur_response c = Some r \<and> live w' = (r, cn) # live w) \<and> resp_ok w'"
proof -
  obtain w1 r where new: "new_resp cn (log_sql cn sql w) = (w1, r)" by fastforce
  have okl: "resp_ok (log_sql cn sql w)" using assms(1) by simp
  note n = new_resp_ok [OF okl new]
  have rl: "r \<in> fst ` set (live w1)" using n(2) by simp
  show ?thesis
  proof (cases msg)
    case None
    then have "chfdw_cursor_open env binary_methods cn sql attrs r w1 = (w', res)"
      using assms(2) new by (simp add: binary_simple_query_def)
    from cursor_open_owner [OF n(1) rl this] n show ?thesis by (auto simp: releases_def split: sum.splits)
  next
    case (Some m)
    then show ?thesis using assms(2) new free_resp_live [OF n(1) rl] n(3)
      by (auto simp: binary_simple_query_def)
  qed
qed

lemma run_query_effect:
  assumes "resp_ok w" and "run_query A fs w = (w', res)"
  shows "(case res of Inl e \<Rightarrow> live w' = live w
       | Inr c \<Rightarrow> \<exists>r. cur_response c = Some r \<and> live w' = (r, handle fs) # live w) \<and> resp_ok w'"
proof (cases "methods (sc_gate (scan_conn fs))")
  case http_methods
  with assms(2) have "http_native_cursor (cenv A) (http_answers A) (handle fs) (s_query fs) (Some (s_attrs fs)) w = (w', res)"
    by (simp add: run_query_def)
  with assms(1) http_native_attempts_effect [of "ch_http_server_version (handle fs) w" 0]
  show ?thesis by (fastforce simp: http_native_cursor_def split: sum.splits)
next
  case binary_methods
  with assms binary_simple_query_effect [OF assms(1)] show ?thesis by (simp add: run_query_def)
qed

text \<open>What one operation of a scan does to the live responses and to the scan's own.\<close>

definition scan_effect :: "'rd ChFdwScanState \<Rightarrow> resp_world \<Rightarrow> 'rd ChFdwScanState \<Rightarrow> resp_world \<Rightarrow> bool" where
  "scan_effect fs w fs' w' \<longleftrightarrow> scan_conn fs' = scan_conn fs \<and> resp_ok w' \<and>
     (live w' = live w \<and> resp_of fs' = resp_of fs
      \<or> (\<exists>r. resp_of fs = Some r \<and> resp_of fs' = None \<and> live w' = others r w)
      \<or> (\<exists>r. resp_of fs = None \<and> resp_of fs' = Some r \<and> live w' = (r, handle fs) # live w))"

lemma fetch_some:
  assumes "resp_ok w" and "cur_response c = Some r" and "r \<in> fst ` set (live w)"
    and "fetch_tuple env fs c w = (w', c', res)"
  shows "owns r w c' w'"
proof -
  have "owns r w c w" using assms(1,2) by (simp add: owns_def)
  from fetch_row_owner [OF assms(3) this] assms(4) show ?thesis unfolding fetch_tuple_def by blast
qed

lemma fetch_none:
  assumes "cur_response c = None" and "fetch_tuple env fs c w = (w', c', res)"
  shows "w' = w \<and> cur_response c' = None"
proof -
  obtain rd d where rd: "rd_next env (cur_reader c) = (rd, d)" by fastforce
  have raise: "raise_reader_error env (c\<lparr>cur_reader := rd\<rparr>) w = (w1, c1, e) \<Longrightarrow> w1 = w \<and> cur_response c1 = None" for w1 c1 e
    using assms(1) by (auto simp: raise_reader_error_def http_native_read_error_def Let_def split: driver_methods.splits)
  have app: "apply_row env ctx (c\<lparr>cur_reader := rd\<rparr>) = (c1, t) \<Longrightarrow> cur_response c1 = None" for ctx c1 t
    using apply_row_response [of env ctx "c\<lparr>cur_reader := rd\<rparr>"] assms(1) by simp
  show ?thesis using assms(2) rd
    by (auto simp: fetch_tuple_def chfdw_cursor_fetch_row_def Let_def assms(1) dest: raise app
        split: prod.splits sum.splits pg_error.splits if_splits)
qed

lemma iterate_effect:
  assumes ok: "resp_ok w" and lv: "\<And>r. resp_of fs = Some r \<Longrightarrow> r \<in> fst ` set (live w)"
    and it: "iterate_scan A fs w = (w', fs', res)"
  shows "scan_effect fs w fs' w'"
proof -
  have same: "scan_effect fs w fs w" using ok by (simp add: scan_effect_def)
  have fetched: "scan_effect fs w (fs\<lparr>s_cursor := Some c'\<rparr>) w2"
    if c: "resp_of fs = cur_response c" and f: "fetch_tuple (cenv A) fs c w = (w2, c', r)" for c c' w2 r
  proof (cases "cur_response c")
    case None
    with fetch_none [OF None f] ok c show ?thesis by (simp add: scan_effect_def resp_of_def)
  next
    case (Some r)
    with c lv have "r \<in> fst ` set (live w)" by simp
    from fetch_some [OF ok Some this f] Some c show ?thesis
      by (auto simp: scan_effect_def resp_of_def owns_def releases_def)
  qed
  have queried: "scan_effect fs w (fs\<lparr>s_cursor := Some c'\<rparr>) w2"
    if none: "s_cursor fs = None" and q: "run_query A fs w = (w1, Inr c)"
      and f: "fetch_tuple (cenv A) fs c w1 = (w2, c', r)" for c c' w1 w2 r
  proof -
    from run_query_effect [OF ok q] obtain n where n: "cur_response c = Some n"
      "live w1 = (n, handle fs) # live w" and ok1: "resp_ok w1" by auto
    then have nl: "n \<in> fst ` set (live w1)" by simp
    have "others n w1 = live w"
      using n(2) ok1 by (force simp: others_def resp_ok_def intro!: filter_True)
    with fetch_some [OF ok1 n(1) nl f] n none show ?thesis
      by (auto simp: scan_effect_def resp_of_def owns_def releases_def)
  qed
  have failed: "scan_effect fs w fs w1" if "run_query A fs w = (w1, Inl e)" for w1 e
    using run_query_effect [OF ok that] by (simp add: scan_effect_def)
  show ?thesis
  proof (cases "s_cursor fs")
    case None
    then show ?thesis using it same failed queried [OF None]
      by (auto simp: iterate_scan_def Let_def split: option.splits prod.splits sum.splits)
  next
    case (Some c)
    then have "resp_of fs = cur_response c" by (simp add: resp_of_def)
    then show ?thesis using it same fetched Some
      by (auto simp: iterate_scan_def Let_def split: option.splits prod.splits)
  qed
qed

lemma dispose_effect:
  assumes ok: "resp_ok w" and lv: "\<And>r. resp_of fs = Some r \<Longrightarrow> r \<in> fst ` set (live w)"
    and d: "dispose_scan fs w = (w', fs')"
  shows "scan_effect fs w fs' w'" and "resp_of fs' = None"
proof -
  have free: "resp_ok (free_resp (Some r) w) \<and> live (free_resp (Some r) w) = others r w" if "resp_of fs = Some r" for r
    using free_resp_live [OF ok lv [OF that]] by simp
  show "scan_effect fs w fs' w'" and "resp_of fs' = None"
    using d ok free by (auto simp: dispose_scan_def scan_effect_def resp_of_def cursor_free_def free_resp_def
        split: option.splits)
qed


lemma scan_effect_owned:
  assumes inv: "cache_inv c" and N: "nodes_ok c N" and own: "owned (live w) N" and ok: "resp_ok w"
    and i: "node N i fs" and eff: "scan_effect fs w fs' w'"
  shows "owned (live w') (N[i := Some fs'])"
proof -
  have h: "handle fs' = handle fs" using eff by (simp add: scan_effect_def handle_def)
  have d: "distinct (map fst (live w))" using ok by (simp add: resp_ok_def)
  from eff consider "live w' = live w" "resp_of fs' = resp_of fs"
    | r where "resp_of fs = Some r" "resp_of fs' = None" "live w' = others r w"
    | r where "resp_of fs = None" "resp_of fs' = Some r" "live w' = (r, handle fs) # live w"
    by (auto simp: scan_effect_def)
  then show ?thesis
  proof cases
    case 1
    then show ?thesis using owned_same [OF own i] h by simp
  next
    case 2
    then show ?thesis using owned_release [OF inv N own d i 2(1), of "Some fs'"] by (simp add: others_def)
  next
    case 3
    then show ?thesis using owned_add [OF own i 3(1,2) h] by simp
  qed
qed

lemma scan_inv_node:
  assumes "scan_inv st" and "node (nodes st) i fs"
  shows "\<And>r. resp_of fs = Some r \<Longrightarrow> r \<in> fst ` set (live (sresp st))" and "node_lease (scache st) fs"
  using assms unfolding scan_inv_def owned_def nodes_ok_def by force+

lemma scan_inv_op:
  assumes inv: "scan_inv st" and i: "node (nodes st) i fs" and eff: "scan_effect fs (sresp st) fs' w'"
  shows "scan_inv (st\<lparr>sresp := w', nodes := (nodes st)[i := Some fs']\<rparr>)"
proof -
  have "scan_conn fs' = scan_conn fs" "resp_ok w'" using eff by (simp_all add: scan_effect_def)
  with inv i scan_effect_owned [OF _ _ _ _ i eff, of "scache st"] nodes_ok_upd [OF _ i] show ?thesis
    by (simp add: scan_inv_def)
qed

text \<open>The end of a scan: its lease is given back once its cursor is gone.\<close>

lemma scan_inv_drop:
  assumes inv: "scan_inv st" and i: "node (nodes st) i fs" and none: "resp_of fs = None"
  shows "scan_inv (st\<lparr>scache := chfdw_release_scan_connection (scan_conn fs) (scache st), nodes := (nodes st)[i := None]\<rparr>)"
proof -
  let ?c = "scache st"
  have parts: "cache_inv ?c" "nodes_ok ?c (nodes st)" "owned (live (sresp st)) (nodes st)" "resp_ok (sresp st)"
    using inv by (simp_all add: scan_inv_def)
  obtain l where l: "sc_lease (scan_conn fs) = Some l" "l < length (leases ?c)" "sconn (leases ?c ! l) = scan_conn fs"
    "active (lease_generation ?c) (leases ?c ! l)"
    using scan_inv_node(2) [OF inv i] unfolding node_lease_def by blast
  have c: "cache_inv (chfdw_release_scan_connection (scan_conn fs) ?c)"
    using release_scan_connection_inv [OF parts(1) l(2)] l(3,4) by (simp add: active_def)
  have "nodes_ok (chfdw_release_scan_connection (scan_conn fs) ?c) ((nodes st)[i := None])"
  proof (rule nodes_ok_cache [OF nodes_ok_drop [OF parts(2)]])
    fix j f assume j: "node ((nodes st)[i := None]) j f" and "node_lease ?c f"
    then obtain m where m: "sc_lease (scan_conn f) = Some m" "m < length (leases ?c)"
      "sconn (leases ?c ! m) = scan_conn f" "active (lease_generation ?c) (leases ?c ! m)"
      unfolding node_lease_def by blast
    have "j \<noteq> i \<and> node (nodes st) j f" using j i by (auto simp: node_def nth_list_update split: if_splits)
    then have "m \<noteq> l" using parts(2) i l(1) m(1) unfolding nodes_ok_def by metis
    with m release_leases [where sc = "scan_conn fs" and st = ?c] l(1) show "node_lease (chfdw_release_scan_connection (scan_conn fs) ?c) f"
      by (simp add: node_lease_def)
  qed
  with c parts owned_drop [OF parts(3) i none] show ?thesis by (simp add: scan_inv_def)
qed

lemma release_lease_node:
  assumes "scan_inv st" and "node (nodes st) i fs" and "sc_lease (scan_conn fs) = Some l"
  shows "release_lease l (scache st) = chfdw_release_scan_connection (scan_conn fs) (scache st)"
  using scan_inv_node(2) [OF assms(1,2)] assms(3) by (auto simp: node_lease_def release_lease_def active_def)

lemma end_scan_inv:
  assumes inv: "scan_inv st" and i: "node (nodes st) i fs" and d: "dispose_scan fs (sresp st) = (w, fs')"
  shows "scan_inv (st\<lparr>sresp := w, scache := chfdw_release_scan_connection (scan_conn fs) (scache st),
                      nodes := (nodes st)[i := None]\<rparr>)"
proof -
  have ok: "resp_ok (sresp st)" using inv by (simp add: scan_inv_def)
  note eff = dispose_effect [OF ok scan_inv_node(1) [OF inv i] d]
  let ?st = "st\<lparr>sresp := w, nodes := (nodes st)[i := Some fs']\<rparr>"
  have "scan_inv ?st" by (rule scan_inv_op [OF inv i eff(1)])
  moreover have "node (nodes ?st) i fs'" using i by (simp add: node_upd node_def)
  ultimately have "scan_inv (?st\<lparr>scache := chfdw_release_scan_connection (scan_conn fs') (scache ?st), nodes := (nodes ?st)[i := None]\<rparr>)"
    using eff(2) by (rule scan_inv_drop)
  then show ?thesis using eff(1) by (simp add: scan_effect_def)
qed

lemma scan_inv_cache:
  assumes inv: "scan_inv st" and c: "cache_inv c"
    and keep: "\<And>i fs. node (nodes st) i fs \<Longrightarrow> node_lease (scache st) fs \<Longrightarrow> node_lease c fs"
  shows "scan_inv (st\<lparr>scache := c\<rparr>)"
  using inv c nodes_ok_cache [of "scache st" "nodes st" c] keep by (simp add: scan_inv_def)

lemma node_lease_append:
  assumes "lease_generation c' = lease_generation c" and "leases c' = leases c @ ls" and "node_lease c fs"
  shows "node_lease c' fs"
  using assms by (auto simp: node_lease_def nth_append)


lemma begin_scan_inv:
  assumes inv: "scan_inv st" and env: "fresh_handles env"
  shows "scan_inv (fst (clickhouseBeginForeignScan env A explain_only user sql attrs natts st))"
proof (cases explain_only)
  case True
  have "nodes_ok (scache st) (nodes st @ [None])" "owned (live (sresp st)) (nodes st @ [None])"
    using inv by (simp_all add: scan_inv_def nodes_ok_def owned_def)
  with inv True show ?thesis by (simp add: clickhouseBeginForeignScan_def scan_inv_def)
next
  case False
  obtain c r where get: "chfdw_get_scan_connection env user (scache st) = (c, r)" by fastforce
  have ci: "cache_inv c" using get_scan_connection_inv [OF _ env, of "scache st" user] inv get by (simp add: scan_inv_def)
  note gl = get_scan_leases [OF get]
  show ?thesis
  proof (cases r)
    case (Inl e)
    have "scan_inv (st\<lparr>scache := c\<rparr>)"
      using gl Inl by (intro scan_inv_cache [OF inv ci] node_lease_append [of c "scache st" "[]"]) auto
    with False get Inl show ?thesis by (simp add: clickhouseBeginForeignScan_def)
  next
    case (Inr sc)
    let ?fs = "\<lparr>scan_conn = sc, s_cursor = None, s_query = sql, s_attrs = attrs, s_natts = natts\<rparr>"
    have sc: "sc_lease sc = Some (length (leases (scache st)))"
      and ls: "leases c = leases (scache st) @ [\<lparr>sconn = sc, generation = lease_generation (scache st), released = False\<rparr>]"
      using gl(2) Inr by simp_all
    have new: "node_lease c ?fs" using sc ls gl(1) by (simp add: node_lease_def active_def)
    have old: "node_lease c f \<and> sc_lease (scan_conn f) \<noteq> sc_lease sc" if "node (nodes st) j f" for j f
    proof -
      have "node_lease (scache st) f" by (rule scan_inv_node(2) [OF inv that])
      then show ?thesis using node_lease_append [OF gl(1) ls] sc by (auto simp: node_lease_def)
    qed
    have ok: "nodes_ok (scache st) (nodes st)" using inv by (simp add: scan_inv_def)
    have "nodes_ok c (nodes st @ [Some ?fs])" unfolding nodes_ok_def
    proof (intro conjI allI impI)
      fix j f assume "node (nodes st @ [Some ?fs]) j f"
      with old new show "node_lease c f" by auto
    next
      fix j k f f' assume "node (nodes st @ [Some ?fs]) j f \<and> node (nodes st @ [Some ?fs]) k f' \<and> j \<noteq> k"
      with old ok show "sc_lease (scan_conn f) \<noteq> sc_lease (scan_conn f')"
        unfolding nodes_ok_def by (auto dest: old)
    qed
    moreover have "owned (live (sresp st)) (nodes st @ [Some ?fs])"
      using inv unfolding scan_inv_def owned_def by (auto simp: resp_of_def)
    ultimately have "scan_inv (st\<lparr>scache := c, nodes := nodes st @ [Some ?fs]\<rparr>)"
      using inv ci by (simp add: scan_inv_def)
    with False get Inr show ?thesis by (simp add: clickhouseBeginForeignScan_def)
  qed
qed

lemma iterate_scan_inv:
  assumes inv: "scan_inv st" and i: "i < length (nodes st)"
  shows "scan_inv (fst (clickhouseIterateForeignScan A i st))"
proof (cases "nodes st ! i")
  case None
  with inv show ?thesis by (simp add: clickhouseIterateForeignScan_def)
next
  case (Some fs)
  then have n: "node (nodes st) i fs" using i by (simp add: node_def)
  obtain w fs' r where it: "iterate_scan A fs (sresp st) = (w, fs', r)" by (metis prod_cases3)
  have "resp_ok (sresp st)" using inv by (simp add: scan_inv_def)
  note eff = iterate_effect [OF this scan_inv_node(1) [OF inv n] it]
  from scan_inv_op [OF inv n eff] Some it show ?thesis by (simp add: clickhouseIterateForeignScan_def)
qed

lemma rescan_inv:
  assumes inv: "scan_inv st" and i: "i < length (nodes st)"
  shows "scan_inv (clickhouseReScanForeignScan i st)"
proof (cases "nodes st ! i")
  case None
  with inv show ?thesis by (simp add: clickhouseReScanForeignScan_def)
next
  case (Some fs)
  then have n: "node (nodes st) i fs" using i by (simp add: node_def)
  obtain w fs' where d: "dispose_scan fs (sresp st) = (w, fs')" by fastforce
  have "resp_ok (sresp st)" using inv by (simp add: scan_inv_def)
  note eff = dispose_effect(1) [OF this scan_inv_node(1) [OF inv n] d]
  from scan_inv_op [OF inv n eff] Some d show ?thesis by (simp add: clickhouseReScanForeignScan_def)
qed

lemma end_inv:
  assumes inv: "scan_inv st" and i: "i < length (nodes st)"
  shows "scan_inv (clickhouseEndForeignScan i st)" and "scan_inv (free_scan_memory i st)"
proof (atomize (full), cases "nodes st ! i")
  case None
  with inv show "scan_inv (clickhouseEndForeignScan i st) \<and> scan_inv (free_scan_memory i st)"
    by (simp add: clickhouseEndForeignScan_def free_scan_memory_def)
next
  case (Some fs)
  then have n: "node (nodes st) i fs" using i by (simp add: node_def)
  obtain w fs' where d: "dispose_scan fs (sresp st) = (w, fs')" by fastforce
  obtain l where l: "sc_lease (scan_conn fs) = Some l"
    using scan_inv_node(2) [OF inv n] by (auto simp: node_lease_def)
  from end_scan_inv [OF inv n d] Some d release_lease_node [OF inv n l] l
  show "scan_inv (clickhouseEndForeignScan i st) \<and> scan_inv (free_scan_memory i st)"
    by (simp add: clickhouseEndForeignScan_def free_scan_memory_def)
qed

lemma release_other_inv:
  assumes inv: "scan_inv st" and l: "l < length (leases (scache st))" and other: "\<not> scan_lease st l"
  shows "scan_inv (st\<lparr>scache := release_lease l (scache st)\<rparr>)"
proof (rule scan_inv_cache [OF inv])
  have c: "cache_inv (scache st)" using inv by (simp add: scan_inv_def)
  then show "cache_inv (release_lease l (scache st))" using l by (rule release_lease_inv)
  have "sc_lease (sconn (leases (scache st) ! l)) = Some l"
    using c l leases_okD(1) by (auto simp: cache_inv_def)
  then have keep: "leases (release_lease l (scache st)) ! m = leases (scache st) ! m"
    "length (leases (release_lease l (scache st))) = length (leases (scache st))"
    "lease_generation (release_lease l (scache st)) = lease_generation (scache st)" if "m \<noteq> l" for m
    using that by (simp_all add: release_lease_def release_leases)
  show "node_lease (release_lease l (scache st)) fs" if n: "node (nodes st) i fs" and fs: "node_lease (scache st) fs" for i fs
  proof -
    from fs obtain m where m: "sc_lease (scan_conn fs) = Some m" "m < length (leases (scache st))"
      "sconn (leases (scache st) ! m) = scan_conn fs" "active (lease_generation (scache st)) (leases (scache st) ! m)"
      unfolding node_lease_def by blast
    with n other have "m \<noteq> l" unfolding scan_lease_def by blast
    with keep m show ?thesis by (simp add: node_lease_def)
  qed
qed

lemma xact_scan_inv:
  assumes inv: "scan_inv st" and g: "lease_generation (scache st) + 1 \<noteq> 0" and "\<forall>i < length (nodes st). nodes st ! i = None"
  shows "scan_inv (st\<lparr>scache := chfdw_xact_callback event (scache st)\<rparr>)"
  using assms by (intro scan_inv_cache [OF inv]) (auto simp: node_def scan_inv_def xact_callback_inv)

lemma scan_init_inv: "scan_inv scan_init"
  by (simp add: scan_inv_def scan_init_def conn_cache_init_inv resp_ok_def nodes_ok_def owned_def node_def)

lemma get_other_inv:
  assumes inv: "scan_inv st" and env: "fresh_handles env"
  shows "scan_inv (st\<lparr>scache := fst (chfdw_get_scan_connection env user (scache st))\<rparr>)"
proof -
  obtain c r where get: "chfdw_get_scan_connection env user (scache st) = (c, r)" by fastforce
  have ci: "cache_inv c" using get_scan_connection_inv [OF _ env, of "scache st" user] inv get by (simp add: scan_inv_def)
  obtain ls where "leases c = leases (scache st) @ ls" using get_scan_leases(2) [OF get] by (cases r) auto
  with get scan_inv_cache [OF inv ci] node_lease_append [OF get_scan_leases(1) [OF get]] show ?thesis by auto
qed

lemma version_scan_inv:
  assumes inv: "scan_inv st" and env: "fresh_handles env"
  shows "scan_inv (st\<lparr>scache := fst (chfdw_get_server_version env v user (scache st))\<rparr>)"
  using inv get_server_version_inv [OF _ env]
  by (intro scan_inv_cache [OF inv]) (auto simp: scan_inv_def node_lease_def version_leases)

lemma inval_scan_inv:
  assumes inv: "scan_inv st"
  shows "scan_inv (st\<lparr>scache := chfdw_inval_callback i h (scache st)\<rparr>)"
  using inv by (intro scan_inv_cache [OF inv]) (auto simp: scan_inv_def node_lease_def inval_leases inval_callback_inv)

lemmas scan_inv_steps = begin_scan_inv iterate_scan_inv rescan_inv end_inv get_other_inv release_other_inv
  version_scan_inv inval_scan_inv xact_scan_inv

interpretation scan: inductive_invariant "\<lambda>st. st = scan_init" scan_step scan_inv
  by unfold_locales (auto simp: scan_init_inv elim!: scan_stepE intro: scan_inv_steps)

section \<open>Properties\<close>

abbreviation scan_reach :: "'rd scan_world \<Rightarrow> bool" where
  "scan_reach \<equiv> reach (\<lambda>st. st = scan_init) scan_step"

lemma live_node:
  assumes "scan_inv st" and "(r, h) \<in> set (live (sresp st))"
  obtains i fs where "node (nodes st) i fs" and "resp_of fs = Some r" and "handle fs = h"
  using assms unfolding scan_inv_def owned_def by blast

lemma live_handles:
  assumes inv: "scan_inv st" and "(r, h) \<in> set (live (sresp st))" and "(r', h) \<in> set (live (sresp st))"
  shows "r = r'"
proof -
  from live_node [OF inv assms(2)] obtain i fs where i: "node (nodes st) i fs" "resp_of fs = Some r" "handle fs = h" .
  from live_node [OF inv assms(3)] obtain j fs' where j: "node (nodes st) j fs'" "resp_of fs' = Some r'" "handle fs' = h" .
  have "i = j" using handles_differ [of "scache st" "nodes st" i fs j fs'] inv i j by (auto simp: scan_inv_def)
  with i j show ?thesis by (auto simp: node_def)
qed

lemma live_conn_open:
  assumes inv: "scan_inv st" and rh: "(r, h) \<in> set (live (sresp st))"
  shows "h \<in> set (open_conns (scache st))"
proof -
  from live_node [OF inv rh] obtain i fs where i: "node (nodes st) i fs" "resp_of fs = Some r" "handle fs = h" .
  with inv scan_inv_node(2) [OF inv i(1)] show ?thesis
    by (auto simp: scan_inv_def elim: node_conn)
qed

text \<open>A backend with two scans of the same user mapping, both running.\<close>

definition demo_answers :: "(int option list list, nat) answers" where
  "demo_answers = \<lparr>cenv = \<lparr>alloc_ok = (\<lambda>_. True), interrupt = None, rd_init = (\<lambda>_. Inr [[], [Some 1]]),
     rd_columns = (\<lambda>_. 1), rd_error = (\<lambda>_. None),
     rd_next = (\<lambda>rs. case rs of _ # x # xs \<Rightarrow> (x # xs, True) | _ \<Rightarrow> ([], False)),
     rd_row = (\<lambda>_. [Some 1]), rd_fill = (\<lambda>rs dest t. Inr t),
     stream_canceled = (\<lambda>_. False), stream_query_id = (\<lambda>_. ''q''), stream_exception = (\<lambda>_. None)\<rparr>,
     http_answers = (\<lambda>_. Begun 200 None [] []), binary_answer = None, clip_text = (\<lambda>m. m), params_error = None,
     settings_error = None\<rparr>"

definition demo_node :: "nat \<Rightarrow> Oid option \<Rightarrow> nat \<Rightarrow> int option list list ChFdwScanState" where
  "demo_node h k l = \<lparr>scan_conn = \<lparr>sc_gate = \<lparr>methods = binary_methods, conn = Some h\<rparr>, sc_entry = k, sc_lease = Some l\<rparr>,
     s_cursor = None, s_query = ''SELECT a'', s_attrs = [1], s_natts = 1\<rparr>"

definition demo_start :: "int option list list scan_world \<Rightarrow> int option list list scan_world" where
  "demo_start st = fst (clickhouseBeginForeignScan demo_env demo_answers False demo_user ''SELECT a'' [1] 1 st)"

definition demo_iterate :: "nat \<Rightarrow> int option list list scan_world \<Rightarrow> int option list list scan_world" where
  "demo_iterate i st = fst (clickhouseIterateForeignScan demo_answers i st)"

definition demo_scans :: "int option list list scan_world" where
  "demo_scans = demo_iterate 1 (demo_iterate 0 (demo_start (demo_start scan_init)))"

lemma demo_leases:
  "snd (chfdw_get_scan_connection demo_env demo_user conn_cache_init) = Inr (scan_conn (demo_node 1 (Some 1) 0))"
  "snd (chfdw_get_scan_connection demo_env demo_user demo_one) = Inr (scan_conn (demo_node 2 None 1))"
  by code_simp+

lemma demo_started:
  "demo_start (demo_start scan_init) = \<lparr>scache = demo_two, sresp = sresp (scan_init :: int option list list scan_world),
     nodes = [Some (demo_node 1 (Some 1) 0), Some (demo_node 2 None 1)]\<rparr>"
proof -
  have "demo_start scan_init = \<lparr>scache = demo_one, sresp = sresp (scan_init :: int option list list scan_world),
      nodes = [Some (demo_node 1 (Some 1) 0)]\<rparr>"
    using demo_leases(1) by (cases "chfdw_get_scan_connection demo_env demo_user conn_cache_init")
      (simp add: demo_start_def clickhouseBeginForeignScan_def scan_init_def demo_one_def demo_answers_def demo_node_def)
  with demo_leases(2) show ?thesis by (cases "chfdw_get_scan_connection demo_env demo_user demo_one")
      (simp add: demo_start_def clickhouseBeginForeignScan_def demo_two_def demo_answers_def demo_node_def)
qed

lemma demo_iterate_node:
  assumes "nodes st ! i = Some (demo_node h k l)" and "i < length (nodes st)"
  shows "live (sresp (demo_iterate i st)) = (next_resp (sresp st), h) # live (sresp st)"
    and "next_resp (sresp (demo_iterate i st)) = Suc (next_resp (sresp st))"
    and "\<And>j. j \<noteq> i \<Longrightarrow> nodes (demo_iterate i st) ! j = nodes st ! j"
    and "length (nodes (demo_iterate i st)) = length (nodes st)"
  using assms
  by (simp_all add: demo_iterate_def clickhouseIterateForeignScan_def iterate_scan_def demo_answers_def demo_node_def
      run_query_def binary_simple_query_def handle_def new_resp_def log_sql_def chfdw_cursor_open_def configure_columns_def
      fetch_tuple_def chfdw_cursor_fetch_row_def apply_row_def Let_def)

lemma demo_scans_live: "length (live (sresp demo_scans)) = 2"
proof -
  let ?st = "demo_start (demo_start scan_init)"
  have n: "nodes ?st = [Some (demo_node 1 (Some 1) 0), Some (demo_node 2 None 1)]" "live (sresp ?st) = []"
    unfolding demo_started by (simp_all add: scan_init_def)
  note one = demo_iterate_node [of ?st 0 1 "Some 1" 0]
  have "live (sresp (demo_iterate 0 ?st)) = [(next_resp (sresp ?st), 1)]" using one(1) n by simp
  moreover have "nodes (demo_iterate 0 ?st) ! 1 = Some (demo_node 2 None 1)" "1 < length (nodes (demo_iterate 0 ?st))"
    using one(3) [of 1] one(4) n by simp_all
  ultimately show ?thesis using demo_iterate_node(1) [of "demo_iterate 0 ?st" 1 2 None 1] by (simp add: demo_scans_def)
qed

lemma demo_scans_reach: "scan_reach demo_scans"
proof -
  have start: "scan_reach (demo_start st)" if "scan_reach st" for st
    unfolding demo_start_def by (rule reach_step [where stp = scan_step, OF that sbegin [OF demo_fresh]])
  have iterate: "scan_reach (demo_iterate i st)" if "scan_reach st" "i < length (nodes st)" for st i
    unfolding demo_iterate_def by (rule reach_step [where stp = scan_step, OF that(1) siterate [OF that(2)]])
  have two: "scan_reach (demo_start (demo_start scan_init))" by (intro start reach_init) simp
  have len: "length (nodes (demo_iterate 0 (demo_start (demo_start scan_init)))) = 2"
    by (subst demo_iterate_node(4) [where h = 1 and k = "Some 1" and l = 0]) (simp_all add: demo_started)
  have "scan_reach (demo_iterate 0 (demo_start (demo_start scan_init)))"
    by (rule iterate [OF two]) (simp add: demo_started)
  then show ?thesis unfolding demo_scans_def by (rule iterate) (simp add: len)
qed

text \<open>
  C14: One query at a time. In every reachable state of a backend with any number of scans, each
  connection has at most one response in flight and is still open, every response in flight
  belongs to the cursor of a running scan that holds the lease of that connection, and no
  response was released twice.
\<close>

theorem one_query_per_connection:
  assumes "scan_reach st"
  shows "distinct (map snd (live (sresp st))) \<and> \<not> bad_free (sresp st)
    \<and> (\<forall>(r, h) \<in> set (live (sresp st)). h \<in> set (open_conns (scache st))
         \<and> (\<exists>i < length (nodes st). \<exists>fs. nodes st ! i = Some fs \<and> resp_of fs = Some r \<and> handle fs = h))"
proof -
  have inv: "scan_inv st" using assms by (rule scan.reach_inv)
  have "distinct (live (sresp st))" using inv by (simp add: scan_inv_def resp_ok_def distinct_map)
  moreover have "inj_on snd (set (live (sresp st)))"
    using live_handles [OF inv] by (force simp: inj_on_def)
  ultimately have "distinct (map snd (live (sresp st)))" by (simp add: distinct_map)
  moreover have "h \<in> set (open_conns (scache st)) \<and> (\<exists>i < length (nodes st). \<exists>fs. nodes st ! i = Some fs \<and> resp_of fs = Some r \<and> handle fs = h)"
    if rh: "(r, h) \<in> set (live (sresp st))" for r h
    using live_conn_open [OF inv rh] live_node [OF inv rh] unfolding node_def by metis
  moreover have "\<not> bad_free (sresp st)" using inv by (simp add: scan_inv_def resp_ok_def)
  ultimately show ?thesis by blast
qed

theorem one_query_per_connection_witness:
  "length (live (sresp demo_scans)) = 2 \<and> distinct (map snd (live (sresp demo_scans)))"
proof
  show "length (live (sresp demo_scans)) = 2" by (rule demo_scans_live)
  show "distinct (map snd (live (sresp demo_scans)))" using one_query_per_connection [OF demo_scans_reach] by blast
qed

text \<open>
  The protocol of a connection, as ClickHouse has it: a query may be started on an idle
  connection only, and is over when its response is done.
\<close>

inductive proto_step :: "(nat \<rightharpoonup> nat) \<Rightarrow> (nat \<rightharpoonup> nat) \<Rightarrow> bool" where
  proto_idle: "proto_step P P"
| proto_start: "P h = None \<Longrightarrow> proto_step P (P(h \<mapsto> r))"
| proto_done: "P h = Some r \<Longrightarrow> proto_step P (P(h := None))"

definition in_flight :: "'rd scan_world \<Rightarrow> nat \<rightharpoonup> nat" where
  "in_flight st = map_of (map (\<lambda>(r, h). (h, r)) (live (sresp st)))"

lemma in_flight_iff:
  assumes "scan_inv st"
  shows "in_flight st h = Some r \<longleftrightarrow> (r, h) \<in> set (live (sresp st))"
proof
  assume "in_flight st h = Some r"
  then show "(r, h) \<in> set (live (sresp st))" by (auto simp: in_flight_def dest: map_of_SomeD)
next
  assume rh: "(r, h) \<in> set (live (sresp st))"
  then have "(h, r) \<in> set (map (\<lambda>(r, h). (h, r)) (live (sresp st)))" by force
  then have "h \<in> dom (in_flight st)" unfolding in_flight_def by (metis (no_types, lifting) domIff map_of_eq_None_iff fst_conv image_eqI)
  then obtain r' where r': "in_flight st h = Some r'" by blast
  then have "(r', h) \<in> set (live (sresp st))" by (auto simp: in_flight_def dest: map_of_SomeD)
  with live_handles [OF assms rh] r' show "in_flight st h = Some r" by simp
qed

lemma in_flight_step:
  assumes inv: "scan_inv st" "scan_inv st'"
    and eff: "live (sresp st') = live (sresp st) \<or> (\<exists>r. live (sresp st') = others r (sresp st) \<and> r \<in> fst ` set (live (sresp st)))
      \<or> (\<exists>r h. live (sresp st') = (r, h) # live (sresp st))"
  shows "proto_step (in_flight st) (in_flight st')"
proof -
  from eff consider "live (sresp st') = live (sresp st)"
    | r h where "live (sresp st') = others r (sresp st)" "(r, h) \<in> set (live (sresp st))"
    | r h where "live (sresp st') = (r, h) # live (sresp st)" by force
  then show ?thesis
  proof cases
    case 1
    then show ?thesis using proto_idle by (simp add: in_flight_def)
  next
    case 2
    have d: "distinct (map fst (live (sresp st)))" using inv(1) by (simp add: scan_inv_def resp_ok_def)
    have "in_flight st' k = ((in_flight st)(h := None)) k" for k
    proof (rule option.expand, goal_cases)
      case 1
      show ?case using in_flight_iff [OF inv(1)] in_flight_iff [OF inv(2)] 2 d
        by (auto simp: others_def) (metis eq_key_imp_eq_value not_None_eq)+
    next
      case 2
      then show ?case using in_flight_iff [OF inv(1)] in_flight_iff [OF inv(2)] \<open>live (sresp st') = others r (sresp st)\<close>
        by (auto simp: others_def split: if_splits) (metis (no_types, lifting) case_prodD mem_Collect_eq option.sel)
    qed
    then have "in_flight st' = (in_flight st)(h := None)" by blast
    with proto_done [of "in_flight st" h r] in_flight_iff [OF inv(1), of h r] 2(2) show ?thesis by simp
  next
    case 3
    then have "in_flight st' = (in_flight st)(h \<mapsto> r)" by (simp add: in_flight_def)
    moreover have "in_flight st h = None"
    proof (rule ccontr)
      assume "in_flight st h \<noteq> None"
      then obtain r' where "(r', h) \<in> set (live (sresp st))" using in_flight_iff [OF inv(1)] by blast
      with 3 live_handles [OF inv(2), of r h r'] inv(2) show False
        by (force simp: scan_inv_def resp_ok_def)
    qed
    ultimately show ?thesis using proto_start by simp
  qed
qed


text \<open>What every operation does to the responses in flight.\<close>

lemma effect_in_flight:
  assumes inv: "scan_inv st" and n: "node (nodes st) i fs" and eff: "scan_effect fs (sresp st) fs' w"
  shows "live w = live (sresp st) \<or> (\<exists>r. live w = others r (sresp st) \<and> r \<in> fst ` set (live (sresp st)))
      \<or> (\<exists>r h. live w = (r, h) # live (sresp st))"
  using eff scan_inv_node(1) [OF inv n] by (auto simp: scan_effect_def)

lemma dispose_in_flight:
  assumes inv: "scan_inv st" and n: "node (nodes st) i fs" and d: "dispose_scan fs (sresp st) = (w, fs')"
  shows "live w = live (sresp st) \<or> (\<exists>r. live w = others r (sresp st) \<and> r \<in> fst ` set (live (sresp st)))
      \<or> (\<exists>r h. live w = (r, h) # live (sresp st))"
proof -
  have "resp_ok (sresp st)" using inv by (simp add: scan_inv_def)
  from effect_in_flight [OF inv n dispose_effect(1) [OF this scan_inv_node(1) [OF inv n] d]] show ?thesis .
qed

lemma step_in_flight:
  assumes inv: "scan_inv st" and step: "scan_step st st'"
  shows "live (sresp st') = live (sresp st) \<or> (\<exists>r. live (sresp st') = others r (sresp st) \<and> r \<in> fst ` set (live (sresp st)))
      \<or> (\<exists>r h. live (sresp st') = (r, h) # live (sresp st))"
  using step
proof (cases rule: scan_step.cases)
  case (siterate i A)
  show ?thesis
  proof (cases "nodes st ! i")
    case (Some fs)
    with siterate have n: "node (nodes st) i fs" by (simp add: node_def)
    obtain w fs' r where it: "iterate_scan A fs (sresp st) = (w, fs', r)" by (metis prod_cases3)
    have "resp_ok (sresp st)" using inv by (simp add: scan_inv_def)
    from effect_in_flight [OF inv n iterate_effect [OF this scan_inv_node(1) [OF inv n] it]] siterate Some it
    show ?thesis by (simp add: clickhouseIterateForeignScan_def)
  qed (use siterate in \<open>simp add: clickhouseIterateForeignScan_def\<close>)
next
  case (srescan i)
  show ?thesis
  proof (cases "nodes st ! i")
    case (Some fs)
    with srescan have n: "node (nodes st) i fs" by (simp add: node_def)
    obtain w fs' where d: "dispose_scan fs (sresp st) = (w, fs')" by fastforce
    from dispose_in_flight [OF inv n d] srescan Some d show ?thesis by (simp add: clickhouseReScanForeignScan_def)
  qed (use srescan in \<open>simp add: clickhouseReScanForeignScan_def\<close>)
next
  case (send i)
  show ?thesis
  proof (cases "nodes st ! i")
    case (Some fs)
    with send have n: "node (nodes st) i fs" by (simp add: node_def)
    obtain w fs' where d: "dispose_scan fs (sresp st) = (w, fs')" by fastforce
    from dispose_in_flight [OF inv n d] send Some d show ?thesis by (simp add: clickhouseEndForeignScan_def)
  qed (use send in \<open>simp add: clickhouseEndForeignScan_def\<close>)
next
  case (sfree i)
  show ?thesis
  proof (cases "nodes st ! i")
    case (Some fs)
    with sfree have n: "node (nodes st) i fs" by (simp add: node_def)
    obtain w fs' where d: "dispose_scan fs (sresp st) = (w, fs')" by fastforce
    from dispose_in_flight [OF inv n d] sfree Some d show ?thesis by (simp add: free_scan_memory_def)
  qed (use sfree in \<open>simp add: free_scan_memory_def\<close>)
qed (simp_all add: clickhouseBeginForeignScan_def split: prod.splits sum.splits)

text \<open>
  C13: Refinement of the connection protocol. Every step of the backend, with scans beginning,
  iterating, rescanning, ending or being freed by an error in any order, is a step of
  the protocol in which a query is started on an idle connection only.
\<close>

theorem scan_refines_protocol:
  assumes "scan_reach st" and "scan_step st st'"
  shows "proto_step (in_flight st) (in_flight st')"
proof (rule in_flight_step)
  show inv: "scan_inv st" using assms(1) by (rule scan.reach_inv)
  with assms(2) show "scan_inv st'" by (rule scan.step_inv [rotated])
qed (rule step_in_flight [OF _ assms(2)], rule scan.reach_inv [OF assms(1)])

theorem scan_refines_protocol_witness:
  "proto_step (in_flight demo_scans) (in_flight (demo_iterate 0 demo_scans))"
proof (rule scan_refines_protocol [OF demo_scans_reach])
  have "length (nodes demo_scans) = 2"
    unfolding demo_scans_def demo_iterate_def demo_started
    by (simp add: clickhouseIterateForeignScan_def split: prod.splits option.splits)
  then show "scan_step demo_scans (demo_iterate 0 demo_scans)"
    unfolding demo_iterate_def by (intro siterate) simp
qed


section \<open>Rows\<close>

text \<open>The rows that a reader will still deliver, and a tuple filled with a row.\<close>

fun delivers :: "('rd, 'v) cursor_env \<Rightarrow> 'rd \<Rightarrow> 'v option list list \<Rightarrow> bool" where
  "delivers env rd [] \<longleftrightarrow> (\<exists>rd'. rd_next env rd = (rd', False) \<and> rd_error env rd' = None)"
| "delivers env rd (x # xs) \<longleftrightarrow>
     (\<exists>rd'. rd_next env rd = (rd', True) \<and> rd_error env rd' = None \<and> rd_row env rd' = x \<and> delivers env rd' xs)"

definition place :: "nat list \<Rightarrow> 'v option list \<Rightarrow> 'v option list \<Rightarrow> 'v option list" where
  "place dest row t = fold (\<lambda>(d, v) t. t[d := v]) (zip dest row) t"

text \<open>
  A server that answers the query with these rows, and the decoder's documented behaviour: it
  opens every response with the same reader, and fills attribute \<open>dest ! j\<close> from column \<open>j\<close>. A
  query that needs no attribute has \<open>NULL\<close> as its one column (\<open>deparseTargetList\<close>).
\<close>

definition answers_with :: "('rd, 'v) answers \<Rightarrow> nat list \<Rightarrow> 'v option list list \<Rightarrow> bool" where
  "answers_with A attrs rows \<longleftrightarrow>
     interrupt (cenv A) = None \<and> params_error A = None \<and> (\<forall>i. alloc_ok (cenv A) i)
   \<and> (\<exists>rd. (\<forall>r. rd_init (cenv A) r = Inr rd) \<and> rd_error (cenv A) rd = None \<and> delivers (cenv A) rd rows)
   \<and> binary_answer A = None \<and> (\<forall>i. oc_status (http_answers A i) = 200 \<and> http_answers A i \<noteq> BeginFailed)
   \<and> (\<forall>rd. rd_columns (cenv A) rd = (if attrs = [] then 1 else length attrs))
   \<and> (attrs = [] \<longrightarrow> (\<forall>row \<in> set rows. row = [None]))
   \<and> (\<forall>rd dest t. rd_fill (cenv A) rd dest t = Inr (place dest (rd_row (cenv A) rd) t))"

text \<open>The results of the next calls.\<close>

fun iterates ::
    "('rd, 'v) answers \<Rightarrow> nat \<Rightarrow> 'rd ChFdwScanState \<Rightarrow> resp_world \<Rightarrow> 'v option list option pg list" where
  "iterates A 0 fs w = []"
| "iterates A (Suc n) fs w = (case iterate_scan A fs w of (w, fs, r) \<Rightarrow> r # iterates A n fs w)"

definition row_result :: "'rd ChFdwScanState \<Rightarrow> 'v option list \<Rightarrow> 'v option list option pg" where
  "row_result fs row = Inr (Some (place (map (\<lambda>a. a - 1) (s_attrs fs)) row (replicate (s_natts fs) None)))"

lemma answers_open:
  assumes A: "answers_with A (s_attrs fs) rows"
  obtains w' c where "run_query A fs w = (w', Inr c)" and "delivers (cenv A) (cur_reader c) rows" and "fill_dest c = None"
proof -
  obtain rd where rd: "\<And>r. rd_init (cenv A) r = Inr rd" "rd_error (cenv A) rd = None" "delivers (cenv A) rd rows"
    using A unfolding answers_with_def by blast
  have env: "alloc_ok (cenv A) i" "rd_columns (cenv A) x = (if s_attrs fs = [] then 1 else length (s_attrs fs))" for i x
    using A by (auto simp: answers_with_def)
  have op: "\<exists>c. chfdw_cursor_open (cenv A) m cn sql (Some (s_attrs fs)) r v = (v, Inr c)
      \<and> cur_reader c = rd \<and> fill_dest c = None" for m cn sql r v
    by (simp add: chfdw_cursor_open_def rd env configure_columns_def)
  show thesis
  proof (cases "methods (sc_gate (scan_conn fs))")
    case http_methods
    obtain e m q where b: "http_answers A 0 = Begun 200 e m q"
      using A unfolding answers_with_def by (metis http_outcome.collapse)
    obtain v r where "new_resp (handle fs) (log_sql (handle fs) (s_query fs) (ch_http_server_version (handle fs) w)) = (v, r)"
      by fastforce
    with http_methods b op [of http_methods "handle fs" "s_query fs" r v] that rd(3) show thesis
      by (auto simp: run_query_def http_native_cursor_def http_native_attempts.simps [of _ _ _ _ _ 0] ch_http_status_ok_def)
  next
    case binary_methods
    obtain v r where "new_resp (handle fs) (log_sql (handle fs) (s_query fs) w) = (v, r)" by fastforce
    with binary_methods op [of binary_methods "handle fs" "s_query fs" r v] that rd(3) A show thesis
      by (auto simp: run_query_def binary_simple_query_def answers_with_def)
  qed
qed


lemma iterates_cursor:
  assumes "answers_with A (s_attrs fs) rs" and "s_cursor fs = Some c"
    and "delivers (cenv A) (cur_reader c) rows" and "set rows \<subseteq> set rs"
    and "\<And>d. fill_dest c = Some d \<Longrightarrow> d = map (\<lambda>a. a - 1) (s_attrs fs)"
  shows "iterates A (Suc (length rows)) fs w = map (row_result fs) rows @ [Inr None]"
  using assms(1-5)
proof (induction rows arbitrary: fs c w)
  case Nil
  then obtain rd' where "rd_next (cenv A) (cur_reader c) = (rd', False)" "rd_error (cenv A) rd' = None" by auto
  with Nil show ?case
    by (simp add: answers_with_def iterate_scan_def Let_def fetch_tuple_def chfdw_cursor_fetch_row_def)
next
  case (Cons row rows)
  then obtain rd' where rd: "rd_next (cenv A) (cur_reader c) = (rd', True)" "rd_error (cenv A) rd' = None"
    "rd_row (cenv A) rd' = row" "delivers (cenv A) rd' rows" by auto
  let ?dest = "map (\<lambda>a. a - 1) (s_attrs fs)"
  let ?c = "if s_attrs fs = [] then c\<lparr>cur_reader := rd'\<rparr> else c\<lparr>cur_reader := rd', fill_dest := Some ?dest\<rparr>"
  have dest: "(case fill_dest c of None \<Rightarrow> build_conversion ctx | Some d \<Rightarrow> d) = ?dest"
    if "retrieved_attrs ctx = s_attrs fs" for ctx :: "'b row_ctx"
    using Cons.prems(5) that by (cases "fill_dest c") (auto simp: build_conversion_def)
  have null: "row = [None]" if "s_attrs fs = []" using Cons.prems(1,4) that by (auto simp: answers_with_def)
  have it: "iterate_scan A fs w = (w, fs\<lparr>s_cursor := Some ?c\<rparr>, row_result fs row)"
    using Cons.prems(1,2) rd null
    by (cases "s_attrs fs = []")
       (simp_all add: answers_with_def iterate_scan_def Let_def fetch_tuple_def chfdw_cursor_fetch_row_def apply_row_def
        dest row_result_def place_def)
  have ih: "iterates A (Suc (length rows)) (fs\<lparr>s_cursor := Some ?c\<rparr>) w
      = map (row_result (fs\<lparr>s_cursor := Some ?c\<rparr>)) rows @ [Inr None]"
    using Cons.prems rd(4) by (intro Cons.IH [where c = ?c]) (auto split: if_splits)
  have row: "row_result (fs\<lparr>s_cursor := Some ?c\<rparr>) = row_result fs" by (rule ext) (simp add: row_result_def)
  show ?case
    unfolding list.map length_Cons iterates.simps(2) [of A "Suc (length rows)" fs] it prod.case ih row by simp
qed

lemma iterates_query:
  assumes "s_cursor fs = None" and "interrupt (cenv A) = None" and "params_error A = None"
    and "run_query A fs w = (w', Inr c)"
  shows "iterates A (Suc n) fs w = iterates A (Suc n) (fs\<lparr>s_cursor := Some c\<rparr>) w'"
  using assms by (simp add: iterate_scan_def Let_def fetch_tuple_def split: prod.splits)

text \<open>
  C15: A scan ends. Against a server that answers the query with a list of rows, calling
  \<open>clickhouseIterateForeignScan\<close> once for each row and once more returns exactly these rows,
  in order, each in a tuple in which the attributes that were not fetched are NULL, and then
  the end; so it does again after every rescan, however far the scan had got. A scan that
  fetches no attribute, as for \<open>count(*)\<close> above it, returns as many empty tuples.
\<close>

theorem scan_returns_rows:
  assumes A: "answers_with A (s_attrs fs) rows"
    and d: "dispose_scan fs w = (w', fs')"
  shows "iterates A (Suc (length rows)) fs' w' = map (row_result fs) rows @ [Inr None]"
proof -
  have fs': "s_cursor fs' = None" "s_attrs fs' = s_attrs fs" "row_result fs' = row_result fs"
    using d by (auto simp: dispose_scan_def row_result_def split: option.splits)
  with A have A': "answers_with A (s_attrs fs') rows" by simp
  obtain v c where q: "run_query A fs' w' = (v, Inr c)" "delivers (cenv A) (cur_reader c) rows" "fill_dest c = None"
    by (rule answers_open [OF A'])
  let ?fs = "fs'\<lparr>s_cursor := Some c\<rparr>"
  have "iterates A (Suc (length rows)) fs' w' = iterates A (Suc (length rows)) ?fs v"
    using A q(1) fs'(1) by (intro iterates_query) (simp_all add: answers_with_def)
  also have "\<dots> = map (row_result ?fs) rows @ [Inr None]"
    using A' fs' q(2,3) by (intro iterates_cursor [where c = c and rs = rows]) auto
  also have "row_result ?fs = row_result fs" using fs'(3) by (auto simp: row_result_def fun_eq_iff)
  finally show ?thesis .
qed

definition rows_answers :: "(int option list list, int) answers" where
  "rows_answers = \<lparr>cenv = \<lparr>alloc_ok = (\<lambda>_. True), interrupt = None, rd_init = (\<lambda>_. Inr [[], [Some 1, None], [Some 2, Some 7]]),
     rd_columns = (\<lambda>_. 2), rd_error = (\<lambda>_. None),
     rd_next = (\<lambda>rs. case rs of _ # x # xs \<Rightarrow> (x # xs, True) | _ \<Rightarrow> ([], False)),
     rd_row = hd, rd_fill = (\<lambda>rs dest t. Inr (place dest (hd rs) t)),
     stream_canceled = (\<lambda>_. False), stream_query_id = (\<lambda>_. ''q''), stream_exception = (\<lambda>_. None)\<rparr>,
     http_answers = (\<lambda>_. Begun 200 None [] []), binary_answer = None, clip_text = (\<lambda>m. m), params_error = None,
     settings_error = None\<rparr>"

theorem scan_returns_rows_witness:
  "iterates rows_answers 3 ((demo_node 1 None 0)\<lparr>s_attrs := [1, 3], s_natts := 3\<rparr>) (sresp (scan_init :: nat scan_world))
     = [Inr (Some [Some 1, None, None]), Inr (Some [Some 2, None, Some 7]), Inr None]"
proof -
  let ?fs = "(demo_node 1 None 0)\<lparr>s_attrs := [1, 3], s_natts := 3\<rparr>"
  let ?w = "sresp (scan_init :: nat scan_world)"
  have A: "answers_with rows_answers (s_attrs ?fs) [[Some 1, None], [Some 2, Some 7]]"
    by (simp add: answers_with_def rows_answers_def)
  have d: "dispose_scan ?fs ?w = (?w, ?fs)" by (simp add: dispose_scan_def demo_node_def)
  from scan_returns_rows [OF A d] show ?thesis
    by (simp add: row_result_def place_def numeral_3_eq_3 numeral_2_eq_2)
qed

end
