(* ===== verification/Plan.thy ===== *)
theory Plan
  imports Joins Scan
begin

text \<open>
  The names and the SELECT list of a remote query (\<open>src/deparse.c\<close>: \<open>is_subquery_var\<close>,
  \<open>get_relation_column_alias_ids\<close>, \<open>deparseVar\<close>, \<open>deparseColumnRef\<close>, \<open>deparseParam\<close>,
  \<open>chfdw_remote_table_name\<close>, the target lists and \<open>chfdw_deparse_select_stmt_for_rel\<close>) and the
  plan node made of it (\<open>clickhouseGetForeignPlan\<close> in \<open>src/fdw.c\<close>): that every column of the text
  names the column it stands for, that parameter numbers stay those of the parameter list, and
  that the tuple a scan returns holds every attribute that the plan reads.
\<close>

section \<open>Column names\<close>

datatype rel_alias = RelAlias nat | SubqueryAlias nat | SubplanAlias nat nat

text \<open>\<open>REL_ALIAS_PREFIX\<close>, \<open>SUBQUERY_REL_ALIAS_PREFIX\<close> and \<open>SUBPLAN_REL_ALIAS_PREFIX\<close>.\<close>

fun alias_text :: "rel_alias \<Rightarrow> string" where
  "alias_text (RelAlias i) = ''r'' @ show_nat i"
| "alias_text (SubqueryAlias i) = ''s'' @ show_nat i"
| "alias_text (SubplanAlias p i) = ''q'' @ show_nat p @ ''_'' @ show_nat i"

text \<open>
  What a column is written as: a column of a table, with the alias that qualifies it if any; or
  column \<open>c<n>\<close> of a subquery; or a parameter by its number, or a placeholder in EXPLAIN.
\<close>

datatype var_text =
    TableColumn "rel_alias option" nat int
  | SubqueryColumn nat nat
  | RemoteParam nat Oid
  | RemotePlaceholder Oid
  | InOuterScope expr

text \<open>
  \<open>get_relation_column_alias_ids\<close>: the subquery's number and the position of the column in
  its output.
\<close>

definition get_relation_column_alias_ids :: "var \<Rightarrow> RelOptInfo \<Rightarrow> (nat \<times> nat) pg" where
  "get_relation_column_alias_ids v rel = (case fdw_private rel of
       None \<Rightarrow> Inl null_private
     | Some fp \<Rightarrow> (case find_index (\<lambda>x. x = Var v) (reltarget rel) of
           Some i \<Rightarrow> Inr (relation_index fp, Suc i)
         | None \<Rightarrow> Inl (Ereport ERRCODE_INTERNAL_ERROR ''unexpected expression in subquery output'' [])))"

fun is_subquery_var :: "var \<Rightarrow> RelOptInfo \<Rightarrow> (nat \<times> nat) option pg" where
  "is_subquery_var v (BaseRel i target fp) = Inr None"
| "is_subquery_var v (JoinRel rels target fp outer inner) = (case fp of
       None \<Rightarrow> Inl null_private
     | Some fp \<Rightarrow>
         if varno v \<notin> set (lower_subquery_rels fp) then Inr None
         else if varno v \<in> set (rel_relids outer)
         then (if make_outerrel_subquery fp then map_sum id Some (get_relation_column_alias_ids v outer)
               else is_subquery_var v outer)
         else (if make_innerrel_subquery fp then map_sum id Some (get_relation_column_alias_ids v inner)
               else is_subquery_var v inner))"

text \<open>\<open>deparseColumnRef\<close>; the column's remote name is a matter of its table.\<close>

definition deparseColumnRef :: "nat \<Rightarrow> int \<Rightarrow> rel_alias option \<Rightarrow> var_text pg" where
  "deparseColumnRef i a qualifier =
     (if a \<le> 0 then Inl (Ereport ERRCODE_FEATURE_NOT_SUPPORTED ''ClickHouse does not support system attributes'' [])
      else Inr (TableColumn qualifier i a))"

text \<open>The remote name: the option of the column, or its own name.\<close>

definition column_name :: "(nat \<Rightarrow> int \<Rightarrow> string option) \<Rightarrow> (nat \<Rightarrow> int \<Rightarrow> string) \<Rightarrow> nat \<Rightarrow> int \<Rightarrow> string" where
  "column_name custom attname i a = (case custom i a of Some n \<Rightarrow> n | None \<Rightarrow> attname i a)"

text \<open>
  \<open>chfdw_remote_table_name\<close>: the database and the table, from the options of the server
  (\<open>srv_dbname\<close>) and of the table; a later option of the same name wins.
\<close>

definition chfdw_remote_table_name :: "string option \<Rightarrow> DefElem list \<Rightarrow> string \<Rightarrow> string \<times> string" where
  "chfdw_remote_table_name srv_dbname opts relname =
     (let db = (case srv_dbname of Some d \<Rightarrow> d | None \<Rightarrow> ''default'');
          pick = (\<lambda>(db, t) d.
            if defname d = ''table_name'' then (db, arg d)
            else if defname d = ''database'' then ((case arg d of Some x \<Rightarrow> x | None \<Rightarrow> db), t)
            else (db, t))
      in case foldl pick (db, None) opts of
           (db, Some t) \<Rightarrow> (db, t) | (db, None) \<Rightarrow> (db, relname))"

section \<open>Parameters\<close>

text \<open>
  The position of a node in the parameter list, which grows when the node is new. Without a list
  the query is for EXPLAIN.
\<close>

definition param_index :: "expr \<Rightarrow> expr list \<Rightarrow> nat \<times> expr list" where
  "param_index x ps = (case find_index (\<lambda>y. y = x) ps of
       Some i \<Rightarrow> (Suc i, ps) | None \<Rightarrow> (Suc (length ps), ps @ [x]))"

definition as_param :: "expr \<Rightarrow> Oid \<Rightarrow> expr list option \<Rightarrow> var_text \<times> expr list option" where
  "as_param x t params = (case params of
       None \<Rightarrow> (RemotePlaceholder t, None)
     | Some ps \<Rightarrow> (case param_index x ps of (n, ps) \<Rightarrow> (RemoteParam n t, Some ps)))"

definition remote_param_type_name :: "(Oid \<Rightarrow> string) \<Rightarrow> Oid \<Rightarrow> string" where
  "remote_param_type_name types t = (if t = INTERVALOID then ''Tuple(Int32, Int32, Int64)'' else types t)"

definition printRemoteParam :: "(Oid \<Rightarrow> string) \<Rightarrow> nat \<Rightarrow> Oid \<Rightarrow> string" where
  "printRemoteParam types n t = ''{p'' @ show_nat n @ '':'' @ remote_param_type_name types t @ ''}''"

definition printRemotePlaceholder :: "(Oid \<Rightarrow> string) \<Rightarrow> Oid \<Rightarrow> string" where
  "printRemotePlaceholder types t = ''((SELECT CAST(null AS Nullable('' @ remote_param_type_name types t @ ''))''"

text \<open>
  The scope of a deparse: the subquery being written (its number, and its correlation
  parameters with the outer expressions that feed them), or none; the relation being scanned;
  and whether any subquery is written inside the statement.
\<close>

record deparse_cxt =
  cx_subplan :: "(nat \<times> (nat \<times> expr) list) option"
  scanrel :: RelOptInfo
  has_inlined_subplan :: bool

definition correlation_arg :: "nat \<Rightarrow> bool \<Rightarrow> deparse_cxt \<Rightarrow> expr option" where
  "correlation_arg pid exec cx = (case cx_subplan cx of
       Some (plan, args) \<Rightarrow> if exec then map_of args pid else None
     | None \<Rightarrow> None)"

definition deparseParam ::
    "nat \<Rightarrow> Oid \<Rightarrow> bool \<Rightarrow> bool \<Rightarrow> deparse_cxt \<Rightarrow> expr list option \<Rightarrow> var_text \<times> expr list option" where
  "deparseParam i t m exec cx params = (case correlation_arg i exec cx of
       Some x \<Rightarrow> (InOuterScope x, params)
     | None \<Rightarrow> as_param (Param i t m) t params)"

definition deparseVar :: "var \<Rightarrow> deparse_cxt \<Rightarrow> expr list option \<Rightarrow> (var_text \<times> expr list option) pg" where
  "deparseVar v cx params = (case cx_subplan cx of
       Some (plan, _) \<Rightarrow>
         map_sum id (\<lambda>t. (t, params)) (deparseColumnRef (varno v) (varattno v) (Some (SubplanAlias plan (varno v))))
     | None \<Rightarrow>
         rbind (is_subquery_var v (scanrel cx)) (\<lambda>sub. case sub of
           Some (rel, c) \<Rightarrow> Inr (SubqueryColumn rel c, params)
         | None \<Rightarrow>
             (let rels = rel_relids (scanrel cx);
                  qualify = (1 < length (remdups rels) \<or> has_inlined_subplan cx)
              in if varno v \<in> set rels \<and> varlevelsup v = 0
                 then map_sum id (\<lambda>t. (t, params))
                        (deparseColumnRef (varno v) (varattno v) (if qualify then Some (RelAlias (varno v)) else None))
                 else Inr (as_param (Var v) (vartype v) params))))"

text \<open>\<open>is_foreign_param\<close>: whether an expression is sent as a parameter.\<close>

definition is_foreign_param :: "nat list \<Rightarrow> expr option \<Rightarrow> bool" where
  "is_foreign_param rels x = (case x of
       Some (Var v) \<Rightarrow> \<not> (varno v \<in> set rels \<and> varlevelsup v = 0)
     | Some (Param i t m) \<Rightarrow> True
     | _ \<Rightarrow> False)"

section \<open>The SELECT statement\<close>

text \<open>
  The columns of a base relation: attributes \<open>1..natts\<close> that are not dropped and are used (all
  of them when the whole row is). A reference to \<open>ctid\<close> raises an error. An empty list is
  written as \<open>NULL\<close>.
\<close>

definition used_attrs :: "nat \<Rightarrow> (nat \<Rightarrow> bool) \<Rightarrow> int list \<Rightarrow> nat list" where
  "used_attrs natts dropped used =
     filter (\<lambda>a. \<not> dropped a \<and> (0 \<in> set used \<or> int a \<in> set used)) [1 ..< Suc natts]"

definition deparseTargetList :: "nat \<Rightarrow> nat \<Rightarrow> (nat \<Rightarrow> bool) \<Rightarrow> int list \<Rightarrow> rel_alias option \<Rightarrow> (var_text list \<times> nat list) pg" where
  "deparseTargetList i natts dropped used qualifier =
     (let attrs = used_attrs natts dropped used
      in if (-1) \<in> set used
         then Inl (Ereport ERRCODE_FEATURE_NOT_SUPPORTED ''clickhouse does not support system columns'' [])
         else rbind (pg_list (\<lambda>a. deparseColumnRef i (int a) qualifier) attrs) (\<lambda>cols. Inr (cols, attrs)))"

text \<open>\<open>deparseExplicitTargetList\<close>: the expressions in order, numbered from 1.\<close>

definition deparseExplicitTargetList :: "expr list \<Rightarrow> expr list \<times> nat list" where
  "deparseExplicitTargetList tlist = (tlist, [1 ..< Suc (length tlist)])"

definition add_to_flat_tlist :: "expr list \<Rightarrow> expr list \<Rightarrow> expr list" where
  "add_to_flat_tlist tlist xs = foldl (\<lambda>ts x. if x \<in> set ts then ts else ts @ [x]) tlist xs"

definition chfdw_build_tlist_to_deparse :: "RelOptInfo \<Rightarrow> CHFdwRelationInfo \<Rightarrow> expr list" where
  "chfdw_build_tlist_to_deparse rel fp =
     foldl (\<lambda>ts ri. add_to_flat_tlist ts (map Var (expr_vars (clause ri))))
       (add_to_flat_tlist [] (map Var (concat (map expr_vars (reltarget rel))))) (local_conds fp)"

datatype select_list = BaseColumns "var_text list" | Expressions "expr list"

text \<open>A statement: its SELECT list, FROM clause and WHERE conditions.\<close>

record select_stmt =
  sel_list :: select_list
  sel_from :: ch_from
  sel_where :: "expr list"

text \<open>
  \<open>chfdw_deparse_select_stmt_for_rel\<close> with \<open>deparseSelectSql\<close> and \<open>deparseFromExpr\<close>, for base
  and join relations that are not subqueries, with no pathkeys and no limit. The alias of a base
  relation is written when a subquery stands in the statement.
\<close>

record table_info =
  natts :: nat
  attisdropped :: "nat \<Rightarrow> bool"

definition chfdw_deparse_select_stmt_for_rel ::
    "(nat \<Rightarrow> DefElem list) \<Rightarrow> (nat \<Rightarrow> table_info) \<Rightarrow> RelOptInfo \<Rightarrow> expr list \<Rightarrow> expr list \<Rightarrow> DefElem list
      \<Rightarrow> (select_stmt \<times> nat list \<times> DefElem list) pg" where
  "chfdw_deparse_select_stmt_for_rel T I rel tlist remote settings =
     (let inlined = list_ex contain_subplans (remote @ tlist);
          use_alias = (1 < length (remdups (rel_relids rel)) \<or> inlined);
          list = (case rel of
              BaseRel i target fp \<Rightarrow>
                (case fp of
                   None \<Rightarrow> Inl null_private
                 | Some fp \<Rightarrow> map_sum id (\<lambda>(cols, attrs). (BaseColumns cols, attrs))
                     (deparseTargetList i (natts (I i)) (attisdropped (I i)) (attrs_used fp) None))
            | JoinRel rels target fp outer inner \<Rightarrow>
                (case deparseExplicitTargetList tlist of (xs, attrs) \<Rightarrow> Inr (Expressions xs, attrs)))
      in rbind list (\<lambda>(cols, attrs).
         rbind (deparseFromExprForRel T rel use_alias settings) (\<lambda>(from, settings).
           Inr (\<lparr>sel_list = cols, sel_from = from, sel_where = remote\<rparr>, attrs, settings))))"

text \<open>
  \<open>clickhouseGetForeignPlan\<close>. The scan clauses of a base relation are those classified before,
  known by their identity, or join clauses that are judged now; pseudoconstant ones are left to
  the executor.
\<close>

record ForeignScan =
  local_exprs :: "expr list"
  scan_relid :: nat
  fdw_stmt :: select_stmt
  fdw_attrs :: "nat list"
  fdw_settings :: "DefElem list"
  fdw_scan_tlist :: "expr list"
  fdw_recheck_quals :: "expr list"

fun split_scan_clauses ::
    "(RestrictInfo \<Rightarrow> bool) \<Rightarrow> (RestrictInfo \<Rightarrow> bool) \<Rightarrow> CHFdwRelationInfo \<Rightarrow> RestrictInfo list
      \<Rightarrow> expr list \<times> expr list" where
  "split_scan_clauses pseudo foreign fp [] = ([], [])"
| "split_scan_clauses pseudo foreign fp (ri # ris) =
     (case split_scan_clauses pseudo foreign fp ris of
        (remote, local) \<Rightarrow>
          if pseudo ri then (remote, local)
          else if ri \<in> set (remote_conds fp) then (clause ri # remote, local)
          else if ri \<in> set (local_conds fp) then (remote, clause ri # local)
          else if foreign ri then (clause ri # remote, local)
          else (remote, clause ri # local))"

definition clickhouseGetForeignPlan ::
    "catalog \<Rightarrow> walk \<Rightarrow> (nat \<Rightarrow> DefElem list) \<Rightarrow> (nat \<Rightarrow> table_info) \<Rightarrow> (RestrictInfo \<Rightarrow> bool) \<Rightarrow> RelOptInfo
      \<Rightarrow> RestrictInfo list \<Rightarrow> ForeignScan pg" where
  "clickhouseGetForeignPlan C W T I pseudo rel scan_clauses = (case fdw_private rel of
       None \<Rightarrow> Inl null_private
     | Some fp \<Rightarrow>
         (let plan = (case rel of
              BaseRel i _ _ \<Rightarrow>
                (case split_scan_clauses pseudo
                        (\<lambda>ri. chfdw_is_foreign_expr C W \<lparr>root = None, relids = [i], outer_arg = Map.empty\<rparr> False (clause ri)) fp scan_clauses of
                   (remote, local) \<Rightarrow> (i, remote, local, [], remote))
            | JoinRel _ _ _ _ _ \<Rightarrow>
                (0, map clause (filter (\<lambda>ri. \<not> pseudo ri) (remote_conds fp)),
                 map clause (filter (\<lambda>ri. \<not> pseudo ri) (local_conds fp)),
                 chfdw_build_tlist_to_deparse rel fp, []))
          in case plan of (sid, remote, local, tlist, recheck) \<Rightarrow>
             rbind (chfdw_deparse_select_stmt_for_rel T I rel tlist remote []) (\<lambda>(stmt, attrs, settings).
               Inr \<lparr>local_exprs = local, scan_relid = sid, fdw_stmt = stmt, fdw_attrs = attrs,
                    fdw_settings = settings, fdw_scan_tlist = tlist, fdw_recheck_quals = recheck\<rparr>)))"

section \<open>Names resolve\<close>

text \<open>
  Which names a FROM clause offers: the columns of a table outside every subquery, by the
  alias of its range table index, and of a subquery the columns of its output list.
\<close>

fun offers :: "ch_from \<Rightarrow> var \<Rightarrow> (nat \<times> nat) option \<Rightarrow> bool" where
  "offers (ChTable i al) v n \<longleftrightarrow> n = None \<and> varno v = i"
| "offers (ChJoinFrom all name a b on) v n \<longleftrightarrow> offers a v n \<or> offers b v n"
| "offers (ChSubselect target q quals idx cols) v n \<longleftrightarrow>
     (case n of None \<Rightarrow> False
      | Some (rel, c) \<Rightarrow> rel = idx \<and> 1 \<le> c \<and> c \<le> cols \<and> c \<le> length target \<and> target ! (c - 1) = Var v)"

fun plan_scoped :: "plan \<Rightarrow> bool" where
  "plan_scoped (PBase i target ris name) = True"
| "plan_scoped (PJoin jt j R ris p q) =
     (plan_scoped p \<and> plan_scoped q \<and> plan_tables p \<subseteq> set (plan_relids p) \<and> plan_tables q \<subseteq> set (plan_relids q)
      \<and> set (plan_relids p) \<inter> plan_tables q = {})"

lemma subquery_column:
  assumes "get_relation_column_alias_ids v rel = Inr (r, c)" and "fdw_private rel = Some fp"
  shows "offers (ChSubselect (reltarget rel) q quals (relation_index fp) (length (reltarget rel))) v (Some (r, c))"
  using assms find_index_SomeD [of "\<lambda>x. x = Var v" "reltarget rel"]
  by (auto simp: get_relation_column_alias_ids_def split: option.splits)

lemma range_tbl_names:
  assumes "deparseRangeTblRef T rel sub st = Inr (t, st')" and "fdw_private rel = Some fp"
  shows "sub \<Longrightarrow> \<exists>q quals. t = ChSubselect (reltarget rel) q quals (relation_index fp) (length (reltarget rel))"
    and "\<not> sub \<Longrightarrow> deparseFromExprForRel T rel True st = Inr (t, st')"
  using assms by (auto simp: deparseRangeTblRef.simps Let_def rbind_Inr_iff)

lemma join_from_parts:
  assumes "deparseFromExprForRel T (JoinRel rels tgt (Some fp) outer inner) al st = Inr (t, st')"
  obtains name ta tb st1 st2 where "t = ChJoinFrom (jointype fp \<notin> {JOIN_SEMI, JOIN_ANTI}) name ta tb (map clause (joinclauses fp))"
    and "deparseRangeTblRef T outer (make_outerrel_subquery fp) st = Inr (ta, st1)"
    and "deparseRangeTblRef T inner (make_innerrel_subquery fp) st1 = Inr (tb, st2)"
  using assms by (auto simp: deparseFromExprForRel.simps rbind_Inr_iff)

text \<open>
  Names of a join come from the side its relids say, through the subquery made of that side.
\<close>

lemma side_offers:
  assumes "deparseRangeTblRef T rel sub st = Inr (t, st')" and "fdw_private rel = Some fp"
    and "(if sub then map_sum id Some (get_relation_column_alias_ids v rel) else is_subquery_var v rel) = Inr n"
    and "\<And>t st'. deparseFromExprForRel T rel True st = Inr (t, st') \<Longrightarrow> is_subquery_var v rel = Inr n \<Longrightarrow> offers t v n"
  shows "offers t v n"
proof (cases sub)
  case True
  then obtain r c where n: "n = Some (r, c)" "get_relation_column_alias_ids v rel = Inr (r, c)"
    using assms(3) by (cases "get_relation_column_alias_ids v rel") auto
  from range_tbl_names(1) [OF assms(1,2) True] subquery_column [OF n(2) assms(2)] n(1) show ?thesis by auto
next
  case False
  with assms range_tbl_names(2) [OF assms(1,2) False] show ?thesis by simp
qed

lemma outside_subqueries:
  assumes "plan_scoped p" and "fdw_private (plan_rel C W srv p) = Some fp" and "pushdown_safe fp"
    and "varno v \<in> plan_tables p" and "varno v \<notin> set (lower_subquery_rels fp)"
    and "deparseFromExprForRel T (plan_rel C W srv p) al st = Inr (t, st')"
  shows "offers t v None \<and> is_subquery_var v (plan_rel C W srv p) = Inr None"
  using assms
proof (induction p arbitrary: fp t st st' al)
  case (PBase i target ris name)
  then show ?case by (auto simp: clickhouseGetForeignRelSize_def Let_def deparseFromExprForRel.simps)
next
  case (PJoin jt j R ris p q)
  obtain fo fi where rel: "plan_rel C W srv (PJoin jt j R ris p q)
        = JoinRel (joinrelids j) (join_target j) (Some fp) (plan_rel C W srv p) (plan_rel C W srv q)"
      and acc: "accepted C W j jt (plan_rel C W srv p) (plan_rel C W srv q) ris fo fi fp"
    by (rule plan_rel_join [OF PJoin.prems(2,3)])
  have priv: "fdw_private (plan_rel C W srv p) = Some fo" "fdw_private (plan_rel C W srv q) = Some fi"
    "pushdown_safe fo" "pushdown_safe fi"
    and lower: "set (lower_subquery_rels fp) = set (lower_subquery_rels fo) \<union> set (lower_subquery_rels fi)
         \<union> (if make_outerrel_subquery fp then set (plan_relids p) else {})
         \<union> (if make_innerrel_subquery fp then set (plan_relids q) else {})"
    using acc unfolding accepted_def rel_relids_plan by blast+
  obtain name ta tb st1 st2 where t: "t = ChJoinFrom (jointype fp \<notin> {JOIN_SEMI, JOIN_ANTI}) name ta tb (map clause (joinclauses fp))"
    "deparseRangeTblRef T (plan_rel C W srv p) (make_outerrel_subquery fp) st = Inr (ta, st1)"
    "deparseRangeTblRef T (plan_rel C W srv q) (make_innerrel_subquery fp) st1 = Inr (tb, st2)"
    using PJoin.prems(6) unfolding rel by (rule join_from_parts)
  have none: "is_subquery_var v (plan_rel C W srv (PJoin jt j R ris p q)) = Inr None"
    unfolding rel using PJoin.prems(5) by simp
  from PJoin.prems(4) consider "varno v \<in> plan_tables p" | "varno v \<in> plan_tables q" by auto
  then have "offers ta v None \<or> offers tb v None"
  proof cases
    case 1
    then have "\<not> make_outerrel_subquery fp" using PJoin.prems(1,5) lower by auto
    with range_tbl_names(2) [OF t(2) priv(1)] show ?thesis
      using PJoin.IH(1) [OF _ priv(1,3) 1] PJoin.prems(1,5) lower by auto
  next
    case 2
    then have "\<not> make_innerrel_subquery fp" using PJoin.prems(1,5) lower by auto
    with range_tbl_names(2) [OF t(3) priv(2)] show ?thesis
      using PJoin.IH(2) [OF _ priv(2,4) 2] PJoin.prems(1,5) lower by auto
  qed
  with t(1) none show ?case by simp
qed

text \<open>
  C5: Names resolve. For a join that was judged safe and whose FROM clause could be written, the
  name that \<open>is_subquery_var\<close> gives to a column of the join's tables is one that the FROM clause
  offers: a column of a table that stands outside every subquery, or the output column of the
  outermost subquery around the table that holds exactly this column.
\<close>

theorem names_resolve:
  assumes "plan_scoped p" and "fdw_private (plan_rel C W srv p) = Some fp" and "pushdown_safe fp"
    and "deparseFromExprForRel T (plan_rel C W srv p) al st = Inr (t, st')"
    and "varno v \<in> plan_tables p" and "is_subquery_var v (plan_rel C W srv p) = Inr n"
  shows "offers t v n"
  using assms
proof (induction p arbitrary: fp t st st' al)
  case (PBase i target ris name)
  then show ?case by (auto simp: clickhouseGetForeignRelSize_def Let_def deparseFromExprForRel.simps)
next
  case (PJoin jt j R ris p q)
  obtain fo fi where rel: "plan_rel C W srv (PJoin jt j R ris p q)
        = JoinRel (joinrelids j) (join_target j) (Some fp) (plan_rel C W srv p) (plan_rel C W srv q)"
      and acc: "accepted C W j jt (plan_rel C W srv p) (plan_rel C W srv q) ris fo fi fp"
    by (rule plan_rel_join [OF PJoin.prems(2,3)])
  have priv: "fdw_private (plan_rel C W srv p) = Some fo" "fdw_private (plan_rel C W srv q) = Some fi"
    "pushdown_safe fo" "pushdown_safe fi" using acc by (simp_all add: accepted_def)
  obtain name ta tb st1 st2 where t: "t = ChJoinFrom (jointype fp \<notin> {JOIN_SEMI, JOIN_ANTI}) name ta tb (map clause (joinclauses fp))"
    "deparseRangeTblRef T (plan_rel C W srv p) (make_outerrel_subquery fp) st = Inr (ta, st1)"
    "deparseRangeTblRef T (plan_rel C W srv q) (make_innerrel_subquery fp) st1 = Inr (tb, st2)"
    using PJoin.prems(4) unfolding rel by (rule join_from_parts)
  show ?case
  proof (cases "varno v \<in> set (lower_subquery_rels fp)")
    case False
    with PJoin.prems outside_subqueries [OF PJoin.prems(1-3) _ False PJoin.prems(4)] show ?thesis by simp
  next
    case True
    show ?thesis
    proof (cases "varno v \<in> set (plan_relids p)")
      case in_p: True
      then have v: "varno v \<in> plan_tables p" using PJoin.prems(1,5) by auto
      have "offers ta v n"
      proof (rule side_offers [OF t(2) priv(1)])
        show "(if make_outerrel_subquery fp then map_sum id Some (get_relation_column_alias_ids v (plan_rel C W srv p))
            else is_subquery_var v (plan_rel C W srv p)) = Inr n"
          using PJoin.prems(6) [unfolded rel] True in_p by (simp add: rel_relids_plan split: if_splits)
      qed (use PJoin.IH(1) [OF _ priv(1,3) _ v] PJoin.prems(1) in auto)
      then show ?thesis using t(1) by simp
    next
      case not_p: False
      then have v: "varno v \<in> plan_tables q" using PJoin.prems(1,5) by auto
      have "offers tb v n"
      proof (rule side_offers [OF t(3) priv(2)])
        show "(if make_innerrel_subquery fp then map_sum id Some (get_relation_column_alias_ids v (plan_rel C W srv q))
            else is_subquery_var v (plan_rel C W srv q)) = Inr n"
          using PJoin.prems(6) [unfolded rel] True not_p by (simp add: rel_relids_plan split: if_splits)
      qed (use PJoin.IH(2) [OF _ priv(2,4) _ v] PJoin.prems(1) in auto)
      then show ?thesis using t(1) by simp
    qed
  qed
qed


text \<open>\<open>o FULL JOIN l ON o.a = l.a\<close> where \<open>o\<close> is filtered by \<open>o.b <> 3\<close>, so that it becomes a subquery.\<close>

definition full_plan :: plan where
  "full_plan = PJoin JOIN_FULL (ex_join [col 1 2, col 2 2]) ex_root [cond False [1, 2] (OpExpr 96 [col 1 1, col 2 1])]
     (PBase 1 [col 1 1, col 1 2] [cond False [1] (OpExpr 518 [col 1 2, Const (CScalar (VInt 3))])] ''o'')
     (PBase 2 [col 2 1, col 2 2] [] ''l'')"

definition col_var :: "nat \<Rightarrow> int \<Rightarrow> var" where
  "col_var n a = \<lparr>varno = n, varattno = a, varlevelsup = 0, vartype = 23, varnulled = False\<rparr>"

lemma full_plan_from:
  obtains t st' fp where "deparseFromExprForRel (\<lambda>_. []) (plan_rel ex_catalog ex_walk 7 full_plan) True [] = Inr (t, st')"
    and "fdw_private (plan_rel ex_catalog ex_walk 7 full_plan) = Some fp" and "pushdown_safe fp"
proof -
  have "(case (deparseFromExprForRel (\<lambda>_. []) (plan_rel ex_catalog ex_walk 7 full_plan) True [],
              fdw_private (plan_rel ex_catalog ex_walk 7 full_plan)) of
        (Inr _, Some fp) \<Rightarrow> pushdown_safe fp | _ \<Rightarrow> False)" by code_simp
  then show thesis using that by (auto split: sum.splits option.splits)
qed

theorem names_resolve_witness:
  "\<exists>t st'. deparseFromExprForRel (\<lambda>_. []) (plan_rel ex_catalog ex_walk 7 full_plan) True [] = Inr (t, st')
     \<and> offers t (col_var 1 2) (Some (1, 2)) \<and> offers t (col_var 2 2) None"
proof -
  obtain t st' fp where t: "deparseFromExprForRel (\<lambda>_. []) (plan_rel ex_catalog ex_walk 7 full_plan) True [] = Inr (t, st')"
    and fp: "fdw_private (plan_rel ex_catalog ex_walk 7 full_plan) = Some fp" "pushdown_safe fp"
    by (rule full_plan_from)
  have sc: "plan_scoped full_plan" by (simp add: full_plan_def ex_join_def)
  have "is_subquery_var (col_var 1 2) (plan_rel ex_catalog ex_walk 7 full_plan) = Inr (Some (1, 2))"
    "is_subquery_var (col_var 2 2) (plan_rel ex_catalog ex_walk 7 full_plan) = Inr None" by code_simp+
  moreover have "varno (col_var 1 2) \<in> plan_tables full_plan" "varno (col_var 2 2) \<in> plan_tables full_plan"
    by (simp_all add: col_var_def full_plan_def)
  ultimately show ?thesis
    using t names_resolve [OF sc fp t, of "col_var 1 2"] names_resolve [OF sc fp t, of "col_var 2 2"] by blast
qed

text \<open>The aliases of different relations are different names.\<close>

lemma show_nat_inj: "show_nat m = show_nat n \<Longrightarrow> m = n"
  by (metis dec_val_show_nat of_nat_eq_iff)

lemma append_digits:
  assumes "list_all isdigit a" and "list_all isdigit b" and "a @ CHR ''_'' # x = b @ CHR ''_'' # y"
  shows "a = b \<and> x = y"
  using assms
proof (induction a arbitrary: b)
  case Nil
  then show ?case by (cases b) (auto simp: isdigit_def)
next
  case (Cons c a)
  then show ?case by (cases b) (auto simp: isdigit_def)
qed

lemma alias_text_inj: "alias_text a = alias_text b \<Longrightarrow> a = b"
proof (cases a; cases b)
  fix p i p' i'
  assume "alias_text a = alias_text b" "a = SubplanAlias p i" "b = SubplanAlias p' i'"
  then have "show_nat p @ CHR ''_'' # show_nat i = show_nat p' @ CHR ''_'' # show_nat i'" by simp
  then have "show_nat p = show_nat p' \<and> show_nat i = show_nat i'"
    using show_nat_digits by (intro append_digits) (auto simp: list_all_iff)
  with \<open>a = _\<close> \<open>b = _\<close> show "a = b" using show_nat_inj by blast
qed (auto dest: show_nat_inj)

text \<open>
  The placeholder of EXPLAIN opens four parentheses and closes two.
\<close>

lemma placeholder_unbalanced:
  "count_list (printRemotePlaceholder (\<lambda>_. ''Int32'') 23) (CHR ''('') = 4
   \<and> count_list (printRemotePlaceholder (\<lambda>_. ''Int32'') 23) (CHR '')'') = 2"
  by (simp add: printRemotePlaceholder_def remote_param_type_name_def)

section \<open>Parameters stand for their nodes\<close>

fun number_params :: "expr list \<Rightarrow> expr list \<Rightarrow> nat list \<times> expr list" where
  "number_params ps [] = ([], ps)"
| "number_params ps (x # xs) =
     (case param_index x ps of (n, ps) \<Rightarrow> (case number_params ps xs of (ns, ps) \<Rightarrow> (n # ns, ps)))"

text \<open>\<open>process_query_params\<close>: the values of the parameters, NULL or a literal.\<close>

definition process_query_params :: "('v \<Rightarrow> string) \<Rightarrow> (expr \<Rightarrow> 'v option) \<Rightarrow> expr list \<Rightarrow> string option list" where
  "process_query_params literal eval ps = map (\<lambda>x. map_option literal (eval x)) ps"

lemma param_index_grows:
  assumes "param_index x ps = (n, ps')" and "distinct ps"
  shows "distinct ps' \<and> set ps' = insert x (set ps) \<and> (\<exists>zs. ps' = ps @ zs) \<and> 1 \<le> n \<and> n \<le> length ps' \<and> ps' ! (n - 1) = x"
proof (cases "find_index (\<lambda>y. y = x) ps")
  case None
  with assms show ?thesis by (auto simp: param_index_def find_index_None)
next
  case (Some i)
  with assms find_index_SomeD [OF Some] show ?thesis by (auto simp: param_index_def)
qed

lemma number_params_grows:
  assumes "number_params ps xs = (ns, ps')" and "distinct ps"
  shows "distinct ps' \<and> set ps' = set ps \<union> set xs \<and> (\<exists>zs. ps' = ps @ zs)
    \<and> set ns \<subseteq> {1..length ps'} \<and> map (\<lambda>n. ps' ! (n - 1)) ns = xs"
  using assms
proof (induction xs arbitrary: ps ns)
  case (Cons x xs)
  obtain n qs where n: "param_index x ps = (n, qs)" by fastforce
  obtain ms where ms: "number_params qs xs = (ms, ps')" "ns = n # ms"
    using Cons.prems(1) n by (auto split: prod.splits)
  from param_index_grows [OF n Cons.prems(2)] obtain zs where qs: "distinct qs" "set qs = insert x (set ps)"
    "qs = ps @ zs" "1 \<le> n" "n \<le> length qs" "qs ! (n - 1) = x" by blast
  from Cons.IH [OF ms(1) qs(1)] obtain zs' where ps': "distinct ps'" "set ps' = set qs \<union> set xs" "ps' = qs @ zs'"
    "set ms \<subseteq> {1..length ps'}" "map (\<lambda>n. ps' ! (n - 1)) ms = xs" by blast
  moreover have "n - 1 < length qs" using qs(4,5) by simp
  then have "ps' ! (n - 1) = x" using qs(6) ps'(3) by (simp add: nth_append)
  ultimately show ?case using qs ms(2) by auto
qed simp

text \<open>
  C6: Parameters. Each node that is sent as a parameter gets the number of its place in the
  parameter list, equal nodes get the same number, and the value sent under that number is the
  value of the node, whatever was added to the list later.
\<close>

theorem parameters_stand_for_nodes:
  "case number_params [] xs of (ns, ps) \<Rightarrow>
     distinct ps \<and> set ps = set xs \<and> set ns \<subseteq> {1..length ps}
     \<and> map (\<lambda>n. process_query_params literal eval ps ! (n - 1)) ns = process_query_params literal eval xs"
proof -
  obtain ns ps where n: "number_params [] xs = (ns, ps)" by fastforce
  from number_params_grows [OF this] have g: "distinct ps" "set ps = set xs" "set ns \<subseteq> {1..length ps}"
    "map (\<lambda>n. ps ! (n - 1)) ns = xs" by simp_all
  have "map (\<lambda>n. process_query_params literal eval ps ! (n - 1)) ns
      = map (\<lambda>x. map_option literal (eval x)) (map (\<lambda>n. ps ! (n - 1)) ns)"
    using g(3) by (fastforce simp: process_query_params_def subset_iff intro!: nth_map)
  with n g show ?thesis by (simp add: process_query_params_def)
qed


section \<open>A scan returns what the plan reads\<close>

lemma place_at:
  assumes "distinct dest" and "length row = length dest" and "\<forall>d \<in> set dest. d < length t" and "k < length t"
  shows "place dest row t ! k = (case map_of (zip dest row) k of Some v \<Rightarrow> v | None \<Rightarrow> t ! k)"
  using assms
proof (induction dest arbitrary: row t)
  case Nil
  then show ?case by (simp add: place_def)
next
  case (Cons d dest)
  then obtain v vs where row: "row = v # vs" by (cases row) auto
  have "place (d # dest) row t ! k = place dest vs (t[d := v]) ! k" by (simp add: place_def row)
  also have "\<dots> = (case map_of (zip dest vs) k of Some v \<Rightarrow> v | None \<Rightarrow> t[d := v] ! k)"
    using Cons.prems row by (intro Cons.IH) auto
  also have "\<dots> = (case map_of (zip (d # dest) row) k of Some v \<Rightarrow> v | None \<Rightarrow> t ! k)"
  proof (cases "k = d")
    case True
    then have "map_of (zip dest vs) k = None" using Cons.prems(1) by (auto simp: map_of_eq_None_iff dest: set_zip_leftD)
    with True Cons.prems(3) show ?thesis by (simp add: row)
  next
    case False
    then show ?thesis by (cases "map_of (zip dest vs) k") (simp_all add: row)
  qed
  finally show ?case .
qed

text \<open>
  The tuple that a scan of a base relation makes of a row of the table: the server returns the
  attributes of the SELECT list, and each value is placed at its attribute.
\<close>

definition fetched :: "table_info \<Rightarrow> nat list \<Rightarrow> (int \<Rightarrow> sqlval) \<Rightarrow> int \<Rightarrow> sqlval" where
  "fetched I attrs t a =
     (if 1 \<le> a \<and> a \<le> int (natts I)
      then place (map (\<lambda>a. a - 1) attrs) (map (\<lambda>a. t (int a)) attrs) (replicate (natts I) None) ! (nat a - 1)
      else None)"

definition fetched_row :: "table_info \<Rightarrow> nat list \<Rightarrow> row \<Rightarrow> row" where
  "fetched_row I attrs r = (\<lambda>n. map_option (fetched I attrs) (r n))"

lemma fetched_at:
  assumes "distinct attrs" and "set attrs \<subseteq> {1..natts I}" and "1 \<le> a" and "a \<le> int (natts I)"
  shows "fetched I attrs t a = (if nat a \<in> set attrs then t a else None)"
proof -
  let ?dest = "map (\<lambda>a. a - 1) attrs" and ?vals = "map (\<lambda>a. t (int a)) attrs"
  have inj: "inj_on (\<lambda>a. a - 1) (set attrs)" using assms(2) by (auto simp: inj_on_def subset_iff) (metis Suc_pred le_0_eq not_gr0 not_less_eq_eq)
  have "place ?dest ?vals (replicate (natts I) None) ! (nat a - 1)
      = (case map_of (zip ?dest ?vals) (nat a - 1) of Some v \<Rightarrow> v | None \<Rightarrow> replicate (natts I) None ! (nat a - 1))"
    using assms inj by (intro place_at) (auto simp: distinct_map subset_iff Suc_le_eq)
  moreover have "map_of (zip ?dest ?vals) (nat a - 1) = (if nat a \<in> set attrs then Some (t a) else None)"
  proof (cases "nat a \<in> set attrs")
    case True
    then obtain k where k: "k < length attrs" "attrs ! k = nat a" by (auto simp: in_set_conv_nth)
    have "map_of (zip ?dest ?vals) (?dest ! k) = Some (?vals ! k)"
      using k(1) assms(1) inj by (intro map_of_zip_nth) (simp_all add: distinct_map)
    with k True assms(3) show ?thesis by simp
  next
    case False
    have "b = nat a" if "b \<in> set attrs" "nat a - 1 = b - 1" for b
      using that assms(2,3) by (auto simp: subset_iff)
    then have "nat a - 1 \<notin> set ?dest" using False by auto
    then have "map_of (zip ?dest ?vals) (nat a - 1) = None" by (subst map_of_zip_is_None) simp_all
    with False show ?thesis by simp
  qed
  ultimately show ?thesis using assms(3,4) by (simp add: fetched_def)
qed

lemma split_scan_clauses_own:
  assumes "set ris \<subseteq> set (remote_conds fp) \<union> set (local_conds fp)"
    and "\<And>ri. ri \<in> set (local_conds fp) \<Longrightarrow> ri \<notin> set (remote_conds fp)"
  shows "split_scan_clauses (\<lambda>_. False) foreign fp ris
    = (map clause (filter (\<lambda>ri. ri \<in> set (remote_conds fp)) ris), map clause (filter (\<lambda>ri. ri \<notin> set (remote_conds fp)) ris))"
  using assms by (induction ris) (auto split: prod.splits)

definition reads_ok :: "table_info \<Rightarrow> nat \<Rightarrow> expr \<Rightarrow> bool" where
  "reads_ok I i x \<longleftrightarrow> (\<forall>v \<in> set (expr_vars x). varno v = i \<longrightarrow>
     1 \<le> varattno v \<and> varattno v \<le> int (natts I) \<and> \<not> attisdropped I (nat (varattno v)))"

text \<open>An expression over used attributes reads the same from the fetched tuple.\<close>

lemma fetched_eval:
  assumes "\<not> contain_subplans x" and "reads_ok I i x" and "distinct attrs" and "set attrs \<subseteq> {1..natts I}"
    and "\<And>v. v \<in> set (expr_vars x) \<Longrightarrow> varno v = i \<Longrightarrow> nat (varattno v) \<in> set attrs"
  shows "pg_eval F (row_env Q (fetched_row I attrs [i \<mapsto> t])) x = pg_eval F (row_env Q [i \<mapsto> t]) x"
proof (rule pg_eval_vars(1) [OF assms(1)])
  fix v assume v: "v \<in> set (expr_vars x)"
  show "var_val (row_env Q (fetched_row I attrs [i \<mapsto> t])) v = var_val (row_env Q [i \<mapsto> t]) v"
    using assms(2,5) v fetched_at [OF assms(3,4), of "varattno v" t]
    by (auto simp: row_env_def row_var_def fetched_row_def reads_ok_def)
qed (simp_all add: row_env_def)

lemma base_plan_parts:
  assumes "clickhouseGetForeignPlan C W T I pseudo (BaseRel i target (Some fp)) ris = Inr fs"
    and "split_scan_clauses pseudo (\<lambda>ri. chfdw_is_foreign_expr C W \<lparr>root = None, relids = [i], outer_arg = Map.empty\<rparr> False (clause ri)) fp ris = (remote, local)"
  shows "local_exprs fs = local" and "sel_where (fdw_stmt fs) = remote"
    and "sel_from (fdw_stmt fs) = ChTable i (list_ex contain_subplans remote)"
    and "fdw_attrs fs = used_attrs (natts (I i)) (attisdropped (I i)) (attrs_used fp)"
proof -
  obtain cols attrs where tl: "deparseTargetList i (natts (I i)) (attisdropped (I i)) (attrs_used fp) None = Inr (cols, attrs)"
    and fs: "fs = \<lparr>local_exprs = local, scan_relid = i,
        fdw_stmt = \<lparr>sel_list = BaseColumns cols, sel_from = ChTable i (list_ex contain_subplans remote), sel_where = remote\<rparr>,
        fdw_attrs = attrs, fdw_settings = chfdw_merge_settings [] (T i), fdw_scan_tlist = [], fdw_recheck_quals = remote\<rparr>"
  proof (cases "deparseTargetList i (natts (I i)) (attisdropped (I i)) (attrs_used fp) None")
    case (Inl e)
    with assms show thesis by (simp add: clickhouseGetForeignPlan_def chfdw_deparse_select_stmt_for_rel_def Let_def)
  next
    case (Inr r)
    with assms that show thesis
      by (cases r) (simp add: clickhouseGetForeignPlan_def chfdw_deparse_select_stmt_for_rel_def Let_def
          rel_relids_def deparseFromExprForRel.simps)
  qed
  have "attrs = used_attrs (natts (I i)) (attisdropped (I i)) (attrs_used fp)"
    using tl by (auto simp: deparseTargetList_def Let_def rbind_Inr_iff split: if_splits)
  with fs show "local_exprs fs = local" "sel_where (fdw_stmt fs) = remote"
    "sel_from (fdw_stmt fs) = ChTable i (list_ex contain_subplans remote)"
    "fdw_attrs fs = used_attrs (natts (I i)) (attisdropped (I i)) (attrs_used fp)" by simp_all
qed

text \<open>
  C4: The plan of a base scan computes the query. The statement asks for the attributes that the
  target and the local conditions read and no dropped one; its WHERE clause and the local
  conditions together are the conditions of the scan; and evaluating the local conditions and
  the target on the tuples that the scan makes of the server's rows gives the target values
  that PostgreSQL's own scan of the table gives.
\<close>

theorem base_scan_same_rows:
  assumes plan: "clickhouseGetForeignPlan C W T I (\<lambda>_. False) (plan_rel C W srv (PBase i target ris name)) ris = Inr fs"
    and free: "\<forall>x \<in> set (target @ local_exprs fs). \<not> contain_subplans x \<and> reads_ok (I i) i x"
  shows "map (outputs Q F target) (filter (all_hold Q F (local_exprs fs))
      (map (fetched_row (I i) (fdw_attrs fs))
        (filter (all_hold Q F (sel_where (fdw_stmt fs))) (ch_from_rows Q F (sel_from (fdw_stmt fs))))))
    = map (outputs Q F target) (plan_rows Q F (PBase i target ris name))"
proof -
  let ?f = "\<lambda>ri. chfdw_is_foreign_expr C W \<lparr>root = None, relids = [i], outer_arg = Map.empty\<rparr> False (clause ri)"
  let ?local = "map clause (filter (\<lambda>ri. \<not> ?f ri) ris)" and ?remote = "map clause (filter ?f ris)"
  let ?used = "pull_varattnos i (target @ ?local)"
  let ?attrs = "used_attrs (natts (I i)) (attisdropped (I i)) ?used"
  have fs: "local_exprs fs = ?local" "sel_where (fdw_stmt fs) = ?remote" "sel_from (fdw_stmt fs) = ChTable i (list_ex contain_subplans ?remote)"
    "fdw_attrs fs = ?attrs"
  proof -
    let ?fp = "palloc0_info\<lparr>pushdown_safe := True, fp_server := srv, remote_conds := filter ?f ris,
      local_conds := filter (\<lambda>ri. \<not> ?f ri) ris, attrs_used := ?used, relation_name := name, relation_index := i\<rparr>"
    have rel: "plan_rel C W srv (PBase i target ris name) = BaseRel i target (Some ?fp)"
      by (simp add: clickhouseGetForeignRelSize_def Let_def)
    have sp: "split_scan_clauses (\<lambda>_. False) ?f ?fp ris = (?remote, ?local)"
      by (subst split_scan_clauses_own) (auto cong: filter_cong)
    show "local_exprs fs = ?local" "sel_where (fdw_stmt fs) = ?remote"
      "sel_from (fdw_stmt fs) = ChTable i (list_ex contain_subplans ?remote)" "fdw_attrs fs = ?attrs"
      using base_plan_parts [OF plan [unfolded rel] sp] by simp_all
  qed
  have at: "distinct ?attrs" "set ?attrs \<subseteq> {1..natts (I i)}" by (auto simp: used_attrs_def)
  have ev: "pg_eval F (row_env Q (fetched_row (I i) ?attrs [i \<mapsto> t])) x = pg_eval F (row_env Q [i \<mapsto> t]) x"
    if x: "x \<in> set (target @ ?local)" for x t
  proof (rule fetched_eval [OF _ _ at])
    show "\<not> contain_subplans x" "reads_ok (I i) i x" using free x by (auto simp: fs(1))
    then show "nat (varattno v) \<in> set ?attrs" if "v \<in> set (expr_vars x)" "varno v = i" for v
      using that x by (fastforce simp: reads_ok_def pull_varattnos_def used_attrs_def)
  qed
  have row: "outputs Q F target (fetched_row (I i) ?attrs [i \<mapsto> t]) = outputs Q F target [i \<mapsto> t]"
    "all_hold Q F ?local (fetched_row (I i) ?attrs [i \<mapsto> t]) = all_hold Q F ?local [i \<mapsto> t]" for t
    using ev [of _ t] by (auto simp: outputs_def all_hold_set)
  have conds: "all_hold Q F ?remote r \<and> all_hold Q F ?local r \<longleftrightarrow> all_hold Q F (map clause ris) r" for r
    by (rule all_hold_partition)
  have "map (outputs Q F target) (filter (all_hold Q F ?local) (map (fetched_row (I i) ?attrs) (filter (all_hold Q F ?remote) (map (\<lambda>t. [i \<mapsto> t]) ts))))
      = map (outputs Q F target) (filter (all_hold Q F (map clause ris)) (map (\<lambda>t. [i \<mapsto> t]) ts))" for ts
    using row conds by (induction ts) auto
  then show ?thesis by (simp add: fs table_rows_def)
qed


text \<open>\<open>SELECT b FROM o WHERE a > 2 AND b = 3\<close> on a table whose first attribute was dropped.\<close>

definition ex_tables :: query_world where
  "ex_tables = \<lparr>tables = (\<lambda>_. [cells [0, 3, 3], cells [0, 1, 3], cells [0, 5, 6]]), q_params = (\<lambda>_. None),
     q_subs = (\<lambda>_ _. []), semi_row = (\<lambda>a ms. hd ms), anti_row = (\<lambda>a. a)\<rparr>"

definition ex_table :: table_info where
  "ex_table = \<lparr>natts = 4, attisdropped = (\<lambda>a. a = 1)\<rparr>"

definition scan_conds :: "RestrictInfo list" where
  "scan_conds = [cond False [1] (OpExpr 521 [col 1 2, Const (CScalar (VInt 2))]),
     cond False [1] (OpExpr 96 [col 1 3, Const (CScalar (VInt 3))])]"

theorem base_scan_same_rows_witness:
  "\<exists>fs. clickhouseGetForeignPlan ex_catalog ex_walk (\<lambda>_. []) (\<lambda>_. ex_table) (\<lambda>_. False)
        (plan_rel ex_catalog ex_walk 7 (PBase 1 [col 1 3] scan_conds ''o'')) scan_conds = Inr fs
     \<and> fdw_attrs fs = [2, 3] \<and> length (local_exprs fs) = 1
     \<and> map (outputs ex_tables ex_params [col 1 3]) (filter (all_hold ex_tables ex_params (local_exprs fs))
         (map (fetched_row ex_table (fdw_attrs fs))
           (filter (all_hold ex_tables ex_params (sel_where (fdw_stmt fs))) (ch_from_rows ex_tables ex_params (sel_from (fdw_stmt fs))))))
       = [[Some (VInt 3)]]"
proof -
  let ?plan = "clickhouseGetForeignPlan ex_catalog ex_walk (\<lambda>_. []) (\<lambda>_. ex_table) (\<lambda>_. False)
        (plan_rel ex_catalog ex_walk 7 (PBase 1 [col 1 3] scan_conds ''o'')) scan_conds"
  have "(case ?plan of Inr fs \<Rightarrow> fdw_attrs fs = [2, 3] \<and> local_exprs fs = [OpExpr 521 [col 1 2, Const (CScalar (VInt 2))]] | _ \<Rightarrow> False)"
    by code_simp
  then obtain fs where fs: "?plan = Inr fs" "fdw_attrs fs = [2, 3]" "local_exprs fs = [OpExpr 521 [col 1 2, Const (CScalar (VInt 2))]]"
    by (auto split: sum.splits)
  have "\<forall>x \<in> set ([col 1 3] @ local_exprs fs). \<not> contain_subplans x \<and> reads_ok ex_table 1 x"
    by (simp add: fs(3) reads_ok_def ex_table_def)
  moreover have "map (outputs ex_tables ex_params [col 1 3]) (plan_rows ex_tables ex_params (PBase 1 [col 1 3] scan_conds ''o'')) = [[Some (VInt 3)]]"
    by code_simp
  ultimately show ?thesis using base_scan_same_rows [OF fs(1)] fs by auto
qed

end
