(* ===== verification/Inserts.thy ===== *)
theory Inserts
  imports Plan Binary
begin

text \<open>
  INSERT into a foreign table: the plan and the executor callbacks of \<open>src/fdw.c\<close>
  (\<open>clickhousePlanForeignModify\<close>, \<open>create_foreign_modify\<close>, \<open>clickhouseExecForeignInsert\<close>,
  \<open>clickhouseEndForeignInsert\<close>), the statement that \<open>chfdw_deparse_insert_sql\<close> writes, and the
  insert functions of the two drivers in \<open>src/pglink.c\<close>. The HTTP driver buffers rows and posts
  them as one block; the binary driver sends blocks inside one INSERT (theory \<open>Binary\<close>).

  What a driver owes its caller is the locale \<open>insert_driver\<close>; the end-to-end lemma is proved
  in it once and interpreted on both drivers.

  The writer of the client library is known by the rows it holds: appending may raise an error,
  and flushing empties it. A value is a 64-bit \<open>Datum\<close>.
\<close>

section \<open>Columns\<close>

record attribute =
  attname :: string
  attisdropped :: bool
  atttypid :: Oid

text \<open>The attribute with a number, and the number's name on the server.\<close>

definition attr_of :: "attribute list \<Rightarrow> nat \<Rightarrow> attribute" where
  "attr_of td n = td ! (n - 1)"

definition remote_name :: "(nat \<Rightarrow> string option) \<Rightarrow> attribute list \<Rightarrow> nat \<Rightarrow> string" where
  "remote_name custom td n = (case custom n of Some c \<Rightarrow> c | None \<Rightarrow> attname (attr_of td n))"

text \<open>The columns of an INSERT: all that are not dropped.\<close>

definition insert_target_attrs :: "attribute list \<Rightarrow> nat list" where
  "insert_target_attrs td = filter (\<lambda>n. \<not> attisdropped (attr_of td n)) [1 ..< Suc (length td)]"

fun comma_list :: "string list \<Rightarrow> string" where
  "comma_list [] = ''''"
| "comma_list [s] = s"
| "comma_list (s # t # ts) = s @ '', '' @ comma_list (t # ts)"

text \<open>\<open>chfdw_deparse_insert_sql\<close>: the statement, and the quoted name of the table.\<close>

definition chfdw_deparse_insert_sql ::
    "(string \<Rightarrow> string) \<Rightarrow> string \<times> string \<Rightarrow> (nat \<Rightarrow> string option) \<Rightarrow> attribute list \<Rightarrow> nat list \<Rightarrow> string \<times> string" where
  "chfdw_deparse_insert_sql quote tab custom td targets =
     (let table = quote (fst tab) @ ''.'' @ quote (snd tab);
          cols = map (\<lambda>n. quote (remote_name custom td n)) targets
      in (''INSERT INTO '' @ table @ (if targets = [] then '''' else ''('' @ comma_list cols @ '')''), table))"

datatype CmdType = CMD_SELECT | CMD_UPDATE | CMD_INSERT | CMD_DELETE

definition clickhousePlanForeignModify ::
    "(string \<Rightarrow> string) \<Rightarrow> string \<times> string \<Rightarrow> (nat \<Rightarrow> string option) \<Rightarrow> attribute list \<Rightarrow> CmdType
      \<Rightarrow> (string \<times> nat list \<times> string) pg" where
  "clickhousePlanForeignModify quote tab custom td operation = (case operation of
       CMD_INSERT \<Rightarrow>
         (let targets = insert_target_attrs td
          in case chfdw_deparse_insert_sql quote tab custom td targets of
               (sql, table) \<Rightarrow> Inr (sql, targets, table))
     | CMD_UPDATE \<Rightarrow> Inl (Ereport ERRCODE_FEATURE_NOT_SUPPORTED ''ClickHouse does not support updates'' [])
     | CMD_DELETE \<Rightarrow> Inl (Ereport ERRCODE_FEATURE_NOT_SUPPORTED ''ClickHouse does not support deletes'' [])
     | CMD_SELECT \<Rightarrow> Inl (Ereport ERRCODE_INTERNAL_ERROR ''unexpected operation: 1'' []))"

section \<open>The binary driver's columns\<close>

text \<open>
  \<open>build_insert_colmap\<close>: for each column of the server, the attribute by name, or by position
  when the first attribute has no name; \<open>has_relid\<close> tells whether the table is known, so that
  its column options count.
\<close>

definition colmap_entry ::
    "bool \<Rightarrow> (nat \<Rightarrow> string option) \<Rightarrow> attribute list \<Rightarrow> string \<Rightarrow> nat \<Rightarrow> string \<Rightarrow> (nat \<times> Oid) pg" where
  "colmap_entry has_relid custom indesc rowtype i chname =
     (let positional = (indesc \<noteq> [] \<and> attname (hd indesc) = '''');
          found = (if positional then (if i < length indesc then Some (i + 1) else None)
                   else find (\<lambda>n. \<not> attisdropped (attr_of indesc n)
                                \<and> chname = remote_name (if has_relid then custom else (\<lambda>_. None)) indesc n)
                          [1 ..< Suc (length indesc)])
      in case found of
           Some n \<Rightarrow> Inr (n, atttypid (attr_of indesc n))
         | None \<Rightarrow> Inl (Ereport ERRCODE_DATATYPE_MISMATCH ''pg_clickhouse: could not create conversion map''
                     [''ClickHouse column \"'' @ chname @ ''\" has no matching attribute in type '' @ rowtype @ ''.'']))"

fun colmap_from ::
    "bool \<Rightarrow> (nat \<Rightarrow> string option) \<Rightarrow> attribute list \<Rightarrow> string \<Rightarrow> nat \<Rightarrow> string list \<Rightarrow> (nat \<times> Oid) list pg" where
  "colmap_from has_relid custom indesc rowtype i [] = Inr []"
| "colmap_from has_relid custom indesc rowtype i (c # cs) =
     rbind (colmap_entry has_relid custom indesc rowtype i c) (\<lambda>m.
     rbind (colmap_from has_relid custom indesc rowtype (Suc i) cs) (\<lambda>ms. Inr (m # ms)))"

definition build_insert_colmap ::
    "bool \<Rightarrow> (nat \<Rightarrow> string option) \<Rightarrow> attribute list \<Rightarrow> string \<Rightarrow> string list \<Rightarrow> (nat \<times> Oid) list pg" where
  "build_insert_colmap has_relid custom indesc rowtype chnames = colmap_from has_relid custom indesc rowtype 0 chnames"

type_synonym slot = "nat \<Rightarrow> 64 word option"

text \<open>A row for the writer: for each column the value and its type.\<close>

type_synonym insert_row = "(64 word option \<times> Oid) list"

definition colmap_row :: "(nat \<times> Oid) list \<Rightarrow> slot \<Rightarrow> insert_row" where
  "colmap_row colmap slot = map (\<lambda>(n, t). (slot n, t)) colmap"

section \<open>The HTTP driver\<close>

datatype chc_kind = CHC_DATETIME | CHC_DATETIME64 | CHC_OTHER

text \<open>\<open>POSTGRES_EPOCH_JDATE - UNIX_EPOCH_JDATE\<close> days, in microseconds.\<close>

definition epoch_shift :: "64 word" where
  "epoch_shift = (2451545 - 2440588) * 86400000000"

definition TIMEOID :: Oid where "TIMEOID = 1083"
definition TIMESTAMPTZOID :: Oid where "TIMESTAMPTZOID = 1184"

text \<open>
  The state of an INSERT, with what the server has acknowledged (the rows of each POST that was
  answered with success) and the queries it was asked to kill.
\<close>

record ch_http_insert_state =
  h_sql :: string
  attnums :: "nat list"
  atttypids :: "Oid list"
  kinds :: "chc_kind list"
  writer_rows :: "insert_row list"
  posted :: "insert_row list list"
  kills :: "string list"

text \<open>The answer to a POST: none, for lack of memory, or a status with a body and a query id.\<close>

datatype http_reply = NoReply | Reply int "string option" string

definition http_simple_insert ::
    "(string \<Rightarrow> nat \<Rightarrow> nat) \<Rightarrow> pg_error option \<Rightarrow> http_reply \<Rightarrow> string \<Rightarrow> string list \<times> unit pg" where
  "http_simple_insert mbcliplen intr rep sql = (case rep of
       NoReply \<Rightarrow> ([], Inl (Ereport ERRCODE_FDW_OUT_OF_MEMORY ''out of memory'' []))
     | Reply status data qid \<Rightarrow>
         if status = CH_HTTP_STATUS_CANCELED
         then ([qid], Inl (case intr of Some e \<Rightarrow> e | None \<Rightarrow> query_aborted))
         else if \<not> ch_http_status_ok status
         then ([], Inl (Ereport ERRCODE_SQL_ROUTINE_EXCEPTION
                 (''pg_clickhouse: '' @ ch_http_copy_error mbcliplen CH_ERROR_MSG_LEN data)
                 ((if status < 404 then [] else [remote_query sql])
                  @ [''HTTP status code: '' @ (if status < 0 then ''-'' else '''') @ show_nat (nat \<bar>status\<bar>)])))
         else ([], Inr ()))"

text \<open>
  What the world does in one call: the answer to the POST, if one is made, a pending interrupt,
  and the error of the writer, if it rejects the row.
\<close>

record insert_event =
  reply :: http_reply
  pending_interrupt :: "pg_error option"
  append_error :: "insert_row \<Rightarrow> pg_error option"

definition http_flush_insert ::
    "(string \<Rightarrow> nat \<Rightarrow> nat) \<Rightarrow> insert_event \<Rightarrow> ch_http_insert_state \<Rightarrow> ch_http_insert_state \<times> unit pg" where
  "http_flush_insert mbcliplen ev st =
     (if writer_rows st = [] then (st, Inr ())
      else (case http_simple_insert mbcliplen (pending_interrupt ev) (reply ev) (h_sql st) of
              (ks, res) \<Rightarrow>
                (st\<lparr>writer_rows := [], kills := kills st @ ks,
                    posted := (case res of Inl _ \<Rightarrow> posted st | Inr _ \<Rightarrow> posted st @ [writer_rows st])\<rparr>, res)))"

text \<open>
  A value of the tuple: a time of day for a timestamp column becomes that time on 1970-01-01.
\<close>

definition http_value :: "Oid \<Rightarrow> chc_kind \<Rightarrow> 64 word option \<Rightarrow> 64 word option \<times> Oid" where
  "http_value t kind v = (case v of
       Some d \<Rightarrow> if t = TIMEOID \<and> kind \<in> {CHC_DATETIME, CHC_DATETIME64}
                 then (Some (d - epoch_shift), TIMESTAMPTZOID) else (Some d, t)
     | None \<Rightarrow> (None, t))"

definition http_row :: "ch_http_insert_state \<Rightarrow> slot \<Rightarrow> insert_row" where
  "http_row st slot = map (\<lambda>(n, t, k). http_value t k (slot n)) (zip (attnums st) (zip (atttypids st) (kinds st)))"

definition http_insert_tuple ::
    "(string \<Rightarrow> nat \<Rightarrow> nat) \<Rightarrow> (insert_row list \<Rightarrow> nat) \<Rightarrow> nat \<Rightarrow> insert_event \<Rightarrow> slot option
      \<Rightarrow> ch_http_insert_state \<Rightarrow> ch_http_insert_state \<times> unit pg" where
  "http_insert_tuple mbcliplen bytes limit ev slot st = (case slot of
       None \<Rightarrow> http_flush_insert mbcliplen ev st
     | Some s \<Rightarrow>
         (case append_error ev (http_row st s) of
            Some e \<Rightarrow> (st, Inl e)
          | None \<Rightarrow>
              (let st = st\<lparr>writer_rows := writer_rows st @ [http_row st s]\<rparr>
               in if bytes (writer_rows st) < limit then (st, Inr ()) else http_flush_insert mbcliplen ev st)))"

text \<open>
  \<open>http_prepare_insert\<close>: the columns in the order of the statement, and their types as
  \<open>DESCRIBE\<close> tells them, one answered row for each column.
\<close>

definition describe_sql :: "(string \<Rightarrow> string) \<Rightarrow> (nat \<Rightarrow> string option) \<Rightarrow> attribute list \<Rightarrow> nat list \<Rightarrow> string \<Rightarrow> string" where
  "describe_sql quote_ch custom td targets table =
     ''DESCRIBE (SELECT '' @ comma_list (map (\<lambda>n. quote_ch (remote_name custom td n)) targets) @ '' FROM '' @ table @ '')''"

fun column_types :: "(string \<Rightarrow> string + chc_kind) \<Rightarrow> string list \<Rightarrow> string list \<Rightarrow> chc_kind option list pg" where
  "column_types chc_parse [] types = Inr []"
| "column_types chc_parse (c # cs) [] = Inr (None # replicate (length cs) None)"
| "column_types chc_parse (c # cs) (t # ts) = (case chc_parse t of
       Inl msg \<Rightarrow> Inl (Ereport ERRCODE_FDW_INVALID_DATA_TYPE
                    (''pg_clickhouse: could not build ClickHouse type for column \"'' @ c @ ''\"'') [t @ '': '' @ msg])
     | Inr k \<Rightarrow> rbind (column_types chc_parse cs ts) (\<lambda>ks. Inr (Some k # ks)))"

definition http_prepare_insert ::
    "(string \<Rightarrow> string + chc_kind) \<Rightarrow> (string \<Rightarrow> string) \<Rightarrow> (string \<Rightarrow> string list pg)
      \<Rightarrow> (nat \<Rightarrow> string option) \<Rightarrow> attribute list \<Rightarrow> string \<Rightarrow> nat list \<Rightarrow> string \<Rightarrow> ch_http_insert_state pg" where
  "http_prepare_insert chc_parse quote_ch describe custom td sql targets table =
     rbind (describe (describe_sql quote_ch custom td targets table)) (\<lambda>types.
     rbind (column_types chc_parse (map (remote_name custom td) targets) types) (\<lambda>ks.
       Inr \<lparr>h_sql = sql, attnums = targets, atttypids = map (\<lambda>n. atttypid (attr_of td n)) targets,
            kinds = map (\<lambda>k. case k of Some k \<Rightarrow> k | None \<Rightarrow> CHC_OTHER) ks,
            writer_rows = [], posted = [], kills = []\<rparr>))"

section \<open>The callbacks\<close>

text \<open>
  The executor calls \<open>clickhouseExecForeignInsert\<close> for each slot until one raises an error, and
  then \<open>clickhouseEndForeignInsert\<close>: the NULL slot, and \<open>finalize_insert\<close> where the driver has it.
  Each call comes with what the world does during it. The whole is undefined only when a
  driver would read its connection for ever.
\<close>

fun exec_inserts ::
    "('e \<Rightarrow> 'r option \<Rightarrow> 's \<Rightarrow> 's \<times> unit pg) \<Rightarrow> ('e \<times> 'r) list \<Rightarrow> 's \<Rightarrow> 's \<times> unit pg" where
  "exec_inserts insert_tuple [] s = (s, Inr ())"
| "exec_inserts insert_tuple ((e, r) # rs) s = (case insert_tuple e (Some r) s of
       (s, Inl err) \<Rightarrow> (s, Inl err)
     | (s, Inr _) \<Rightarrow> exec_inserts insert_tuple rs s)"

definition clickhouseEndForeignInsert ::
    "('e \<Rightarrow> 'r option \<Rightarrow> 's \<Rightarrow> 's \<times> unit pg) \<Rightarrow> ('e \<Rightarrow> 's \<Rightarrow> ('s \<times> unit pg) option) option \<Rightarrow> 'e \<Rightarrow> 'e \<Rightarrow> 's
      \<Rightarrow> ('s \<times> unit pg) option" where
  "clickhouseEndForeignInsert insert_tuple finalize_insert e e' s = (case insert_tuple e None s of
       (s, Inl err) \<Rightarrow> Some (s, Inl err)
     | (s, Inr _) \<Rightarrow> (case finalize_insert of None \<Rightarrow> Some (s, Inr ()) | Some f \<Rightarrow> f e' s))"

definition run_insert ::
    "('e \<Rightarrow> 'r option \<Rightarrow> 's \<Rightarrow> 's \<times> unit pg) \<Rightarrow> ('e \<Rightarrow> 's \<Rightarrow> ('s \<times> unit pg) option) option \<Rightarrow> ('e \<times> 'r) list \<Rightarrow> 'e \<Rightarrow> 'e
      \<Rightarrow> 's \<Rightarrow> ('s \<times> unit pg) option" where
  "run_insert insert_tuple finalize_insert rs e e' s = (case exec_inserts insert_tuple rs s of
       (s, Inl err) \<Rightarrow> Some (s, Inl err)
     | (s, Inr _) \<Rightarrow> clickhouseEndForeignInsert insert_tuple finalize_insert e e' s)"

text \<open>
  \<open>create_foreign_modify\<close> takes a lease on a connection of its own, packs the settings and
  prepares the INSERT; \<open>finish_foreign_modify\<close> gives the lease back. An error in between leaves
  the lease to its reset callback.
\<close>

definition create_foreign_modify ::
    "'enc conn_env \<Rightarrow> UserMapping \<Rightarrow> pg_error option \<Rightarrow> (ch_scan_connection \<Rightarrow> 's pg) \<Rightarrow> conn_cache
      \<Rightarrow> conn_cache \<times> (ch_scan_connection \<times> 's) pg" where
  "create_foreign_modify env user settings_err prepare_insert st =
     (case chfdw_get_scan_connection env user st of
        (st, Inl err) \<Rightarrow> (st, Inl err)
      | (st, Inr sc) \<Rightarrow>
          (case settings_err of
             Some err \<Rightarrow> (st, Inl err)
           | None \<Rightarrow> (st, map_sum id (\<lambda>s. (sc, s)) (prepare_insert sc))))"

text \<open>
  The two ways an INSERT begins: after a plan, whose private list is given (and nothing happens
  for a plain EXPLAIN), or with no plan, for rows that are routed to a partition or come from
  COPY. A driver prepares an INSERT from the statement, the columns and the name of the table.
\<close>

definition clickhouseBeginForeignModify ::
    "'enc conn_env \<Rightarrow> UserMapping \<Rightarrow> pg_error option
      \<Rightarrow> (string \<Rightarrow> nat list \<Rightarrow> string \<Rightarrow> ch_scan_connection \<Rightarrow> 's pg)
      \<Rightarrow> string \<times> nat list \<times> string \<Rightarrow> bool \<Rightarrow> conn_cache \<Rightarrow> conn_cache \<times> (ch_scan_connection \<times> 's) option pg" where
  "clickhouseBeginForeignModify env user settings_err prepare_insert private explain_only st =
     (if explain_only then (st, Inr None)
      else (case private of (sql, targets, table) \<Rightarrow>
              apsnd (map_sum id Some) (create_foreign_modify env user settings_err (prepare_insert sql targets table) st)))"

definition clickhouseBeginForeignInsert ::
    "'enc conn_env \<Rightarrow> UserMapping \<Rightarrow> pg_error option
      \<Rightarrow> (string \<Rightarrow> nat list \<Rightarrow> string \<Rightarrow> ch_scan_connection \<Rightarrow> 's pg)
      \<Rightarrow> (string \<Rightarrow> string) \<Rightarrow> string \<times> string \<Rightarrow> (nat \<Rightarrow> string option) \<Rightarrow> attribute list
      \<Rightarrow> conn_cache \<Rightarrow> conn_cache \<times> (ch_scan_connection \<times> 's) pg" where
  "clickhouseBeginForeignInsert env user settings_err prepare_insert quote tab custom td st =
     (let targets = insert_target_attrs td
      in case chfdw_deparse_insert_sql quote tab custom td targets of
           (sql, table) \<Rightarrow> create_foreign_modify env user settings_err (prepare_insert sql targets table) st)"

definition finish_foreign_modify :: "ch_scan_connection \<Rightarrow> conn_cache \<Rightarrow> conn_cache" where
  "finish_foreign_modify sc st = chfdw_release_scan_connection sc st"

text \<open>A planned INSERT and one that is begun without a plan prepare the same statement.\<close>

lemma begin_modify_after_plan:
  assumes "clickhousePlanForeignModify quote tab custom td CMD_INSERT = Inr plan"
  shows "clickhouseBeginForeignModify env user err prepare_insert plan False st
    = apsnd (map_sum id Some) (clickhouseBeginForeignInsert env user err prepare_insert quote tab custom td st)"
  using assms
  by (auto simp: clickhousePlanForeignModify_def clickhouseBeginForeignModify_def clickhouseBeginForeignInsert_def
      Let_def split: prod.splits)

section \<open>What a driver owes\<close>

text \<open>
  For a driver whose states that satisfy \<open>ok\<close> have delivered the rows \<open>delivered\<close> and hold the
  rows \<open>pending\<close>: a tuple that is taken is added at the end, the NULL slot delivers everything,
  and no call takes back or reorders what was delivered; finalizing changes no rows.
\<close>

locale insert_driver =
  fixes insert_tuple :: "'e \<Rightarrow> 'r option \<Rightarrow> 's \<Rightarrow> 's \<times> unit pg"
    and finalize_insert :: "('e \<Rightarrow> 's \<Rightarrow> ('s \<times> unit pg) option) option"
    and ok :: "'s \<Rightarrow> bool"
    and delivered :: "'s \<Rightarrow> 'w list" and pending :: "'s \<Rightarrow> 'w list" and conv :: "'s \<Rightarrow> 'r \<Rightarrow> 'w"
  assumes put: "ok s \<Longrightarrow> insert_tuple e (Some r) s = (s', Inr u) \<Longrightarrow>
      ok s' \<and> conv s' = conv s \<and> delivered s' @ pending s' = delivered s @ pending s @ [conv s r]
      \<and> (\<exists>zs. delivered s' = delivered s @ zs)"
    and flush: "ok s \<Longrightarrow> insert_tuple e None s = (s', Inr u) \<Longrightarrow> ok s' \<and> delivered s' = delivered s @ pending s"
    and reject: "ok s \<Longrightarrow> insert_tuple e x s = (s', Inl err) \<Longrightarrow> delivered s' = delivered s"
    and finish: "finalize_insert = Some f \<Longrightarrow> ok s \<Longrightarrow> f e s = Some (s', res) \<Longrightarrow> delivered s' = delivered s"
begin

lemma exec_inserts_rows:
  assumes "ok s" and "exec_inserts insert_tuple rs s = (s', res)"
  shows "case res of
      Inr _ \<Rightarrow> ok s' \<and> delivered s' @ pending s' = delivered s @ pending s @ map (conv s \<circ> snd) rs
    | Inl _ \<Rightarrow> \<exists>k. delivered s' = take k (delivered s @ pending s @ map (conv s \<circ> snd) rs)"
  using assms
proof (induction rs arbitrary: s)
  case Nil
  then show ?case by auto
next
  case (Cons er rs)
  obtain e r where er: "er = (e, r)" by fastforce
  obtain s1 res1 where 1: "insert_tuple e (Some r) s = (s1, res1)" by fastforce
  show ?case
  proof (cases res1)
    case (Inl err)
    then have r: "s' = s1" "res = Inl err" using Cons.prems(2) 1 er by simp_all
    have "delivered s1 = take (length (delivered s)) (delivered s @ pending s @ map (conv s \<circ> snd) (er # rs))"
      using reject [OF Cons.prems(1)] 1 Inl by simp
    then have "\<exists>k. delivered s1 = take k (delivered s @ pending s @ map (conv s \<circ> snd) (er # rs))" by blast
    then show ?thesis unfolding r sum.case .
  next
    case (Inr u)
    from put [OF Cons.prems(1)] 1 Inr have s1: "ok s1" "conv s1 = conv s"
      "delivered s1 @ pending s1 = delivered s @ pending s @ [conv s r]" by auto
    have "exec_inserts insert_tuple rs s1 = (s', res)" using Cons.prems(2) 1 Inr er by simp
    moreover have "delivered s1 @ pending s1 @ map (conv s1 \<circ> snd) rs = delivered s @ pending s @ map (conv s \<circ> snd) (er # rs)"
      using s1(3) by (simp add: s1(2) er flip: append_assoc)
    ultimately show ?thesis using Cons.IH [OF s1(1)] by metis
  qed
qed

text \<open>
  An INSERT that succeeds has delivered every row once and in order; one that fails has delivered
  a prefix of them.
\<close>

lemma run_insert_rows:
  assumes "ok s" and "delivered s = []" and "pending s = []"
    and "run_insert insert_tuple finalize_insert rs e e' s = Some (s', res)"
  shows "case res of
      Inr _ \<Rightarrow> delivered s' = map (conv s \<circ> snd) rs
    | Inl _ \<Rightarrow> \<exists>k. delivered s' = take k (map (conv s \<circ> snd) rs)"
proof -
  let ?rows = "map (conv s \<circ> snd) rs"
  obtain s1 res1 where 1: "exec_inserts insert_tuple rs s = (s1, res1)" by fastforce
  show ?thesis
  proof (cases res1)
    case (Inl err)
    with 1 assms exec_inserts_rows [OF assms(1) 1] show ?thesis by (auto simp: run_insert_def)
  next
    case (Inr u)
    with exec_inserts_rows [OF assms(1) 1] assms(2,3) have s1: "ok s1" "delivered s1 @ pending s1 = ?rows" by simp_all
    obtain s2 res2 where 2: "insert_tuple e None s1 = (s2, res2)" by fastforce
    show ?thesis
    proof (cases res2)
      case (Inl err)
      with 1 2 Inr assms(4) have "s' = s2 \<and> res = Inl err" by (simp add: run_insert_def clickhouseEndForeignInsert_def)
      moreover have "delivered s2 = take (length (delivered s1)) ?rows"
        unfolding s1(2) [symmetric] using reject [OF s1(1)] 2 Inl by simp
      ultimately show ?thesis by auto
    next
      case (Inr u')
      with flush [OF s1(1)] 2 s1(2) have s2: "ok s2" "delivered s2 = ?rows" by auto
      have "delivered s' = ?rows"
        using assms(4) 1 2 \<open>res1 = Inr u\<close> Inr s2 finish
        by (auto simp: run_insert_def clickhouseEndForeignInsert_def split: option.splits)
      then show ?thesis by (auto intro!: exI [of _ "length rs"] split: sum.splits)
    qed
  qed
qed

end

section \<open>The drivers keep the contract\<close>

lemma http_flush_parts:
  assumes "http_flush_insert m ev st = (st', res)"
  shows "writer_rows st' = []"
    and "concat (posted st') = (case res of Inr _ \<Rightarrow> concat (posted st) @ writer_rows st | Inl _ \<Rightarrow> concat (posted st))"
    and "http_row st' = http_row st"
  using assms by (auto simp: http_flush_insert_def http_row_def fun_eq_iff split: if_splits prod.splits sum.splits)

lemma http_row_rows [simp]: "http_row (st\<lparr>writer_rows := rs\<rparr>) = http_row st"
  by (simp add: http_row_def fun_eq_iff)

interpretation http: insert_driver "http_insert_tuple m bytes limit" None "\<lambda>_. True" "\<lambda>st. concat (posted st)"
    writer_rows http_row
  for m bytes limit
proof (unfold_locales, goal_cases)
  case (1 s e r s' u)
  then show ?case
    using http_flush_parts [of m e "s\<lparr>writer_rows := writer_rows s @ [http_row s r]\<rparr>" s' "Inr u"]
    by (auto simp: http_insert_tuple_def Let_def split: option.splits if_splits)
next
  case (2 s e s' u)
  then show ?case using http_flush_parts [of m e s s' "Inr u"] by (simp add: http_insert_tuple_def)
next
  case (3 s e x s' err)
  then show ?case
    using http_flush_parts [of m e _ s' "Inl err"]
    by (force simp: http_insert_tuple_def Let_def split: option.splits if_splits)
qed auto

lemma flush_block_cases:
  assumes "inserting i st" and "ch_binary_flush_block e i st = (st', res)"
  shows "case res of
      Inr _ \<Rightarrow> inserting i st' \<and> rows (handles st' ! i) = []
        \<and> sent_rows (sent (bconn st')) = sent_rows (sent (bconn st)) @ rows (handles st ! i)
    | Inl _ \<Rightarrow> sent_rows (sent (bconn st')) = sent_rows (sent (bconn st))"
  using assms
  by (auto simp: ch_binary_flush_block_def inserting_def Let_def split: option.splits if_splits)

lemma drain_wire_sent: "drain_wire w c = Some (c', m) \<Longrightarrow> sent c' = sent c"
  by (induction w c rule: drain_wire.induct) (auto split: if_splits recv.splits packet.splits)

interpretation binary: insert_driver "\<lambda>e. binary_insert_tuple bytes limit e i" "Some (\<lambda>e. ch_binary_finalize_insert e i)"
    "inserting i" "\<lambda>st. sent_rows (sent (bconn st))" "\<lambda>st. rows (handles st ! i)" "\<lambda>_ r. r"
  for bytes limit i
proof (unfold_locales, goal_cases)
  case (1 s e r s' u)
  let ?s = "s\<lparr>handles := (handles s)[i := (handles s ! i)\<lparr>rows := rows (handles s ! i) @ [r]\<rparr>]\<rparr>"
  have s: "inserting i ?s" "i < length (handles s)" using 1(1) by (auto simp: inserting_def)
  show ?case
  proof (cases "bytes (rows (handles s ! i) @ [r]) < limit")
    case True
    with 1 s have "s' = ?s" by (simp add: binary_insert_tuple_def Let_def)
    with s show ?thesis by simp
  next
    case False
    with 1 have "ch_binary_flush_block e i ?s = (s', Inr u)" by (simp add: binary_insert_tuple_def Let_def)
    from flush_block_cases [OF s(1) this] s(2) show ?thesis by simp
  qed
next
  case (2 s e s' u)
  then show ?case using flush_block_cases [of i s e s' "Inr u"] by (simp add: binary_insert_tuple_def)
next
  case (3 s e x s' err)
  show ?case
  proof (cases x)
    case None
    with 3 flush_block_cases [of i s e s' "Inl err"] show ?thesis by (simp add: binary_insert_tuple_def)
  next
    case (Some r)
    let ?s = "s\<lparr>handles := (handles s)[i := (handles s ! i)\<lparr>rows := rows (handles s ! i) @ [r]\<rparr>]\<rparr>"
    have "inserting i ?s" using 3(1) by (auto simp: inserting_def)
    moreover have "ch_binary_flush_block e i ?s = (s', Inl err)"
      using 3(2) Some by (simp add: binary_insert_tuple_def Let_def split: if_splits)
    ultimately show ?thesis using flush_block_cases [of i ?s e s' "Inl err"] by simp
  qed
next
  case (4 f s e s' res)
  then show ?case
    by (auto simp: ch_binary_finalize_insert_def ch_binary_drain_def Let_def
        dest!: drain_wire_sent split: if_splits option.splits)
qed

text \<open>
  C16: INSERT over HTTP. When an INSERT succeeds, the blocks that the server acknowledged hold
  every row once and in order, converted by the columns' types, and nothing is left in the
  buffer; when it raises an error, the acknowledged rows are a prefix of the rows.
\<close>

theorem http_insert_delivers:
  assumes "http_prepare_insert chc_parse quote_ch describe custom td sql targets table = Inr st"
    and "run_insert (http_insert_tuple m bytes limit) None rs e e' st = Some (st', res)"
  shows "case res of
      Inr _ \<Rightarrow> concat (posted st') = map (http_row st \<circ> snd) rs
    | Inl _ \<Rightarrow> \<exists>k. concat (posted st') = take k (map (http_row st \<circ> snd) rs)"
  using assms(1) by (intro http.run_insert_rows [OF _ _ _ assms(2)]) (auto simp: http_prepare_insert_def rbind_Inr_iff)


text \<open>Two rows of two columns over a connection whose second POST is refused.\<close>

definition ex_attrs :: "attribute list" where
  "ex_attrs = [\<lparr>attname = ''id'', attisdropped = False, atttypid = 23\<rparr>,
     \<lparr>attname = ''........pg.dropped.2........'', attisdropped = True, atttypid = 0\<rparr>,
     \<lparr>attname = ''at'', attisdropped = False, atttypid = 1083\<rparr>]"

definition ex_prepared :: "ch_http_insert_state pg" where
  "ex_prepared = http_prepare_insert (\<lambda>t. if t = ''DateTime'' then Inr CHC_DATETIME else Inr CHC_OTHER) id
     (\<lambda>q. if q = ''DESCRIBE (SELECT id, at FROM d.t)'' then Inr [''Int32'', ''DateTime''] else Inl query_aborted) (\<lambda>_. None)
     ex_attrs ''INSERT INTO d.t(id, at)'' (insert_target_attrs ex_attrs) ''d.t''"

definition answer :: "int \<Rightarrow> insert_event" where
  "answer status = \<lparr>reply = Reply status None ''q'', pending_interrupt = None, append_error = (\<lambda>_. None)\<rparr>"

definition ex_slot :: "64 word \<Rightarrow> slot" where
  "ex_slot k = (\<lambda>n. if n = 1 then Some k else None)"

lemma ex_targets: "insert_target_attrs ex_attrs = [1, 3]"
  by code_simp

lemma ex_prepared_state:
  "ex_prepared = Inr \<lparr>h_sql = ''INSERT INTO d.t(id, at)'', attnums = [1, 3], atttypids = [23, 1083],
     kinds = [CHC_OTHER, CHC_DATETIME], writer_rows = [], posted = [], kills = []\<rparr>"
  unfolding ex_prepared_def ex_targets by (simp add: http_prepare_insert_def ex_attrs_def attr_of_def remote_name_def describe_sql_def)

theorem http_insert_delivers_witness:
  "\<exists>st st' err. ex_prepared = Inr st
     \<and> run_insert (http_insert_tuple (\<lambda>_ n. n) length 1) None [(answer 200, ex_slot 7), (answer 500, ex_slot 8)]
          (answer 200) (answer 200) st = Some (st', Inl err)
     \<and> (\<exists>k. concat (posted st') = take k [[(Some 7, 23), (None, 1083)], [(Some 8, 23), (None, 1083)]])
     \<and> posted st' = [[[(Some 7, 23), (None, 1083)]]]"
proof -
  obtain st where st: "ex_prepared = Inr st" "attnums st = [1, 3]" "atttypids st = [23, 1083]" "kinds st = [CHC_OTHER, CHC_DATETIME]"
    "writer_rows st = []" "posted st = []"
    using ex_prepared_state by simp
  have row: "http_row st (ex_slot k) = [(Some k, 23), (None, 1083)]" for k
    by (simp add: http_row_def st ex_slot_def http_value_def TIMEOID_def)
  obtain st' err where run: "run_insert (http_insert_tuple (\<lambda>_ n. n) length 1) None [(answer 200, ex_slot 7), (answer 500, ex_slot 8)]
          (answer 200) (answer 200) st = Some (st', Inl err)" and p: "posted st' = [[[(Some 7, 23), (None, 1083)]]]"
    by (simp add: run_insert_def http_insert_tuple_def http_flush_insert_def http_simple_insert_def answer_def row st
        ch_http_status_ok_def)
  have "\<exists>k. concat (posted st') = take k [[(Some 7, 23), (None, 1083)], [(Some 8, 23), (None, 1083)]]"
    using http_insert_delivers [OF st(1) [unfolded ex_prepared_def] run] by (simp add: row)
  with st(1) run p show ?thesis by blast
qed

section \<open>Both drivers send the same columns\<close>

lemma find_unique:
  assumes "n \<in> set xs" and "P n" and "\<And>m. m \<in> set xs \<Longrightarrow> P m \<Longrightarrow> m = n"
  shows "find P xs = Some n"
  using assms
proof (induction xs)
  case (Cons x xs)
  show ?case
  proof (cases "P x")
    case True
    with Cons.prems(3) [of x] show ?thesis by simp
  next
    case False
    with Cons.prems(1,2) have "n \<in> set xs" by auto
    from Cons.IH [OF this Cons.prems(2)] Cons.prems(3) False show ?thesis by simp
  qed
qed simp

lemma colmap_from_targets:
  assumes "\<not> (td \<noteq> [] \<and> attname (hd td) = '''')" and "inj_on (remote_name custom td) (set (insert_target_attrs td))"
    and "set ns \<subseteq> set (insert_target_attrs td)"
  shows "colmap_from True custom td rowtype i (map (remote_name custom td) ns)
    = Inr (map (\<lambda>n. (n, atttypid (attr_of td n))) ns)"
  using assms(3)
proof (induction ns arbitrary: i)
  case (Cons n ns)
  have "find (\<lambda>m. \<not> attisdropped (attr_of td m) \<and> remote_name custom td n = remote_name custom td m) [1 ..< Suc (length td)] = Some n"
    using Cons.prems assms(2) by (intro find_unique) (auto simp: insert_target_attrs_def inj_on_def simp del: upt_Suc)
  then have f: "find (\<lambda>m. \<not> attisdropped (attr_of td m)
      \<and> remote_name custom td n = remote_name (if True then custom else (\<lambda>_. None)) td m) [1 ..< Suc (length td)] = Some n"
    by simp
  have np: "(td \<noteq> [] \<and> attname (hd td) = '''') = False" using assms(1) by simp
  have "colmap_entry True custom td rowtype i (remote_name custom td n) = Inr (n, atttypid (attr_of td n))"
    unfolding colmap_entry_def Let_def np if_False f by simp
  with Cons show ?case by simp
qed simp

lemma column_types_length: "column_types chc_parse cs ts = Inr ks \<Longrightarrow> length ks = length cs"
  by (induction chc_parse cs ts arbitrary: ks rule: column_types.induct) (auto simp: rbind_Inr_iff split: sum.splits)

text \<open>
  C17: The two drivers send the same values under the same columns. The HTTP driver takes the
  attributes of the statement in order; the binary driver matches the columns that the server
  names. For a table whose columns have different remote names, and a server that answers the
  INSERT with the columns of the statement, the match never fails and gives each column the same
  attribute, so that the rows differ only by the HTTP driver's conversion of times.
\<close>

theorem insert_drivers_agree:
  assumes "\<not> (td \<noteq> [] \<and> attname (hd td) = '''')"
    and "inj_on (remote_name custom td) (set (insert_target_attrs td))"
    and "http_prepare_insert chc_parse quote_ch describe custom td sql (insert_target_attrs td) table = Inr st"
  shows "\<exists>colmap. build_insert_colmap True custom td rowtype (map (remote_name custom td) (insert_target_attrs td)) = Inr colmap
    \<and> (\<forall>slot. http_row st slot = map (\<lambda>((v, t), k). http_value t k v) (zip (colmap_row colmap slot) (kinds st)))"
proof -
  let ?ns = "insert_target_attrs td" and ?ty = "\<lambda>n. atttypid (attr_of td n)"
  have st: "attnums st = ?ns" "atttypids st = map ?ty ?ns" "length (kinds st) = length ?ns"
    using assms(3) by (auto simp: http_prepare_insert_def rbind_Inr_iff dest: column_types_length)
  have "map (\<lambda>(n, t, k). http_value t k (slot n)) (zip ns (zip (map ?ty ns) ks))
      = map (\<lambda>((v, t), k). http_value t k v) (zip (map (\<lambda>n. (slot n, ?ty n)) ns) ks)"
    if "length ks = length ns" for ks ns and slot :: slot
    using that by (induction ks ns rule: list_induct2) auto
  then have "http_row st slot = map (\<lambda>((v, t), k). http_value t k v) (zip (colmap_row (map (\<lambda>n. (n, ?ty n)) ?ns) slot) (kinds st))" for slot
    using st(3) by (simp add: http_row_def st(1,2) colmap_row_def comp_def case_prod_unfold)
  then show ?thesis
    using colmap_from_targets [OF assms(1,2) subset_refl] by (auto simp: build_insert_colmap_def)
qed

theorem insert_drivers_agree_witness:
  "\<exists>st colmap. ex_prepared = Inr st \<and> build_insert_colmap True (\<lambda>_. None) ex_attrs ''t'' [''id'', ''at''] = Inr colmap
     \<and> http_row st (ex_slot 7) = map (\<lambda>((v, t), k). http_value t k v) (zip (colmap_row colmap (ex_slot 7)) (kinds st))"
proof -
  note t = ex_targets
  have n: "map (remote_name (\<lambda>_. None) ex_attrs) [1, 3] = [''id'', ''at'']" by code_simp
  have inj: "inj_on (remote_name (\<lambda>_. None) ex_attrs) (set (insert_target_attrs ex_attrs))"
    unfolding t by (simp add: remote_name_def attr_of_def ex_attrs_def)
  have np: "\<not> (ex_attrs \<noteq> [] \<and> attname (hd ex_attrs) = '''')" by (simp add: ex_attrs_def)
  obtain st where st: "ex_prepared = Inr st" using ex_prepared_state by simp
  from insert_drivers_agree [OF np inj st [unfolded ex_prepared_def], of "''t''"] st show ?thesis
    unfolding t n by auto
qed

text \<open>
  C18: A time of day that is inserted into a timestamp column over HTTP becomes the timestamp of
  that time on 1970-01-01: the value is that of PostgreSQL's epoch, 2000-01-01, less 10957 days,
  and the subtraction does not overflow.
\<close>

theorem time_of_day_on_epoch:
  assumes "0 \<le> sint d" and "sint d \<le> 86400000000" and "kind \<in> {CHC_DATETIME, CHC_DATETIME64}"
  shows "\<exists>w. http_value TIMEOID kind (Some d) = (Some w, TIMESTAMPTZOID) \<and> sint w = sint d - 10957 * 86400000000"
proof -
  have "sint epoch_shift = 946684800000000" by (simp add: epoch_shift_def)
  then have "sint (d - epoch_shift) = signed_take_bit 63 (sint d - 946684800000000)"
    by (simp add: sint_word_ariths)
  also have "\<dots> = sint d - 946684800000000" using assms(1,2) by (intro signed_take_bit_int_eq_self) simp_all
  finally show ?thesis using assms(3) by (auto simp: http_value_def)
qed

theorem time_of_day_on_epoch_witness:
  "\<exists>w. http_value TIMEOID CHC_DATETIME (Some 3600000000) = (Some w, TIMESTAMPTZOID) \<and> sint w = 3600000000 - 10957 * 86400000000"
  using time_of_day_on_epoch [of 3600000000 CHC_DATETIME] by simp

end
