(* ===== verification/ToChar.thy ===== *)
theory ToChar
  imports Prelude "HOL-Library.Word"
begin

text \<open>
  Formats and flags that are rewritten for ClickHouse (\<open>src/deparse.c\<close>): the template of
  \<open>to_char\<close> (\<open>chfdw_translate_to_char_format\<close>) and the flags of regular expressions
  (\<open>appendRegexFlags\<close>; \<open>regex_flags_ok\<close> of \<open>src/shipable.c\<close>).

  What a template means to PostgreSQL is stated as its documentation has it: keywords with the
  prefixes and postfixes that modify them, text in double quotes, and everything else as it is.
  The output of a keyword and of a code of \<open>formatDateTime\<close> for a timestamp are parameters.
\<close>

section \<open>Templates of to_char\<close>

definition to_char_toks :: "(string \<times> string option) list" where
  "to_char_toks =
     [(''Y,YYY'', None), (''y,yyy'', None), (''SSSSS'', None), (''sssss'', None), (''MONTH'', None),
      (''Month'', None), (''month'', None), (''YYYY'', Some ''%Y''), (''yyyy'', Some ''%Y''),
      (''HH24'', Some ''%H''), (''hh24'', Some ''%H''), (''HH12'', Some ''%I''), (''hh12'', Some ''%I''),
      (''IYYY'', None), (''iyyy'', None), (''IDDD'', None), (''iddd'', None), (''SSSS'', None),
      (''ssss'', None), (''A.D.'', None), (''a.d.'', None), (''B.C.'', None), (''b.c.'', None),
      (''P.M.'', None), (''p.m.'', None), (''A.M.'', None), (''a.m.'', None), (''YYY'', None), (''yyy'', None),
      (''DDD'', Some ''%j''), (''ddd'', Some ''%j''), (''DAY'', None), (''day'', None), (''Day'', None),
      (''Mon'', Some ''%b''), (''MON'', None), (''mon'', None), (''IYY'', None), (''iyy'', None),
      (''FF1'', None), (''FF2'', None), (''FF3'', None), (''FF4'', None), (''FF5'', None), (''FF6'', None),
      (''ff1'', None), (''ff2'', None), (''ff3'', None), (''ff4'', None), (''ff5'', None), (''ff6'', None),
      (''TZH'', None), (''tzh'', None), (''TZM'', None), (''tzm'', None), (''AD'', None), (''ad'', None),
      (''AM'', Some ''%p''), (''PM'', Some ''%p''), (''am'', None), (''pm'', None), (''BC'', None),
      (''bc'', None), (''CC'', None), (''cc'', None), (''DD'', Some ''%d''), (''dd'', Some ''%d''),
      (''Dy'', Some ''%a''), (''DY'', None), (''dy'', None), (''FM'', None), (''fm'', None), (''FX'', None),
      (''fx'', None), (''HH'', Some ''%I''), (''hh'', Some ''%I''), (''ID'', None), (''id'', None),
      (''IW'', None), (''iw'', None), (''IY'', None), (''iy'', None), (''MI'', Some ''%i''),
      (''mi'', Some ''%i''), (''MM'', Some ''%m''), (''mm'', Some ''%m''), (''MS'', None), (''ms'', None),
      (''OF'', None), (''of'', None), (''RM'', None), (''rm'', None), (''SS'', Some ''%S''),
      (''ss'', Some ''%S''), (''TM'', None), (''tm'', None), (''TZ'', None), (''tz'', None), (''US'', None),
      (''us'', None), (''WW'', None), (''ww'', None), (''YY'', Some ''%y''), (''yy'', Some ''%y''),
      (''D'', None), (''d'', None), (''I'', None), (''i'', None), (''J'', None), (''j'', None),
      (''Q'', Some ''%Q''), (''q'', Some ''%Q''), (''W'', None), (''w'', None),
      (''Y'', None), (''y'', None)]"

text \<open>A character of the output: a percent sign is doubled.\<close>

definition ch_literal :: "char \<Rightarrow> string" where
  "ch_literal c = (if c = CHR ''%'' then ''%%'' else [c])"

text \<open>The text in double quotes after the opening one: what is appended, and the rest.\<close>

fun quoted_text :: "string \<Rightarrow> string \<times> string" where
  "quoted_text [] = ([], [])"
| "quoted_text [c] = (if c = CHR 0x22 then [] else ch_literal c, [])"
| "quoted_text (c # d # ds) =
     (if c = BSLASH then apfst ((@) (ch_literal d)) (quoted_text ds)
      else if c = CHR 0x22 then ([], d # ds)
      else apfst ((@) (ch_literal c)) (quoted_text (d # ds)))"

lemma quoted_text_length: "length (snd (quoted_text cs)) \<le> length cs"
  by (induction cs rule: quoted_text.induct) auto

lemma quoted_text_rest: "(out, rest) = quoted_text cs \<Longrightarrow> length rest \<le> length cs"
  using quoted_text_length [of cs] by (metis snd_conv)

lemma findD: "find P xs = Some x \<Longrightarrow> x \<in> set xs \<and> P x"
  by (induction xs) (auto split: if_splits)

definition token_at :: "string \<Rightarrow> (string \<times> string option) option" where
  "token_at cs = find (\<lambda>(k, _). take (length k) cs = k) to_char_toks"

lemma to_char_toks_nonempty: "list_all (\<lambda>(k, _). k \<noteq> []) to_char_toks"
  by code_simp

lemma token_atD: "token_at cs = Some (k, ch) \<Longrightarrow> (k, ch) \<in> set to_char_toks \<and> k \<noteq> [] \<and> take (length k) cs = k"
  using to_char_toks_nonempty by (auto simp: token_at_def list_all_iff dest!: findD)

lemma Suc_diff_length [simp]: "k \<noteq> [] \<Longrightarrow> Suc n - length k \<le> n" "k \<noteq> [] \<Longrightarrow> Suc 0 \<le> length k"
  by (cases k; auto)+

text \<open>
  The loop of \<open>chfdw_translate_to_char_format\<close>: \<open>just_keyword\<close> is set after a keyword. The
  result is the translated template, or none when the template is refused.
\<close>

function translate_from :: "bool \<Rightarrow> string \<Rightarrow> string option" where
  "translate_from just_keyword [] = Some []"
| "translate_from just_keyword (c # cs) =
     (if just_keyword \<and> (c = CHR ''T'' \<or> c = CHR ''t'') \<and> cs \<noteq> [] \<and> (hd cs = CHR ''H'' \<or> hd cs = CHR ''h'') then None
      else if c = CHR 0x22 then
        (case quoted_text cs of (out, rest) \<Rightarrow> map_option ((@) out) (translate_from False rest))
      else if c = BSLASH \<and> cs \<noteq> [] \<and> hd cs = CHR 0x22 then map_option ((@) [CHR 0x22]) (translate_from False (tl cs))
      else (case token_at (c # cs) of
          Some (k, None) \<Rightarrow> None
        | Some (k, Some ch) \<Rightarrow> map_option ((@) ch) (translate_from True (drop (length k) (c # cs)))
        | None \<Rightarrow> map_option ((@) (ch_literal c)) (translate_from False cs)))"
  by pat_completeness auto
termination
  by (relation "measure (\<lambda>(j, cs). length cs)")
    (auto simp: less_Suc_eq_le dest!: token_atD quoted_text_rest)

definition chfdw_translate_to_char_format :: "string \<Rightarrow> string option" where
  "chfdw_translate_to_char_format pgfmt = translate_from False pgfmt"


section \<open>What templates mean\<close>

text \<open>
  PostgreSQL's own table of the keywords of \<open>to_char\<close> for dates and times, as its documentation
  lists the template patterns in upper and lower case, and the prefixes \<open>FM\<close> and \<open>TM\<close>.
\<close>

definition dch_keywords :: "string list" where
  "dch_keywords =
     [''A.D.'', ''A.M.'', ''AD'', ''AM'', ''B.C.'', ''BC'', ''CC'', ''DAY'', ''DDD'', ''DD'', ''DY'', ''Day'', ''Dy'', ''D'',
      ''FF1'', ''FF2'', ''FF3'', ''FF4'', ''FF5'', ''FF6'', ''FX'', ''HH24'', ''HH12'', ''HH'', ''IDDD'', ''ID'', ''IW'', ''IYYY'',
      ''IYY'', ''IY'', ''I'', ''J'', ''MI'', ''MM'', ''MONTH'', ''MON'', ''MS'', ''Month'', ''Mon'', ''OF'', ''P.M.'', ''PM'', ''Q'',
      ''RM'', ''SSSSS'', ''SSSS'', ''SS'', ''TZH'', ''TZM'', ''TZ'', ''US'', ''WW'', ''W'', ''Y,YYY'', ''YYYY'', ''YYY'', ''YY'', ''Y'',
      ''a.d.'', ''a.m.'', ''ad'', ''am'', ''b.c.'', ''bc'', ''cc'', ''day'', ''ddd'', ''dd'', ''dy'', ''d'',
      ''ff1'', ''ff2'', ''ff3'', ''ff4'', ''ff5'', ''ff6'', ''fx'', ''hh24'', ''hh12'', ''hh'', ''iddd'', ''id'', ''iw'', ''iyyy'',
      ''iyy'', ''iy'', ''i'', ''j'', ''mi'', ''mm'', ''month'', ''mon'', ''ms'', ''of'', ''p.m.'', ''pm'', ''q'',
      ''rm'', ''sssss'', ''ssss'', ''ss'', ''tzh'', ''tzm'', ''tz'', ''us'', ''ww'', ''w'', ''y,yyy'', ''yyyy'', ''yyy'', ''yy'', ''y'']"

definition dch_prefixes :: "string list" where
  "dch_prefixes = [''FM'', ''fm'', ''TM'', ''tm'']"

text \<open>
  The keywords whose output a code of \<open>formatDateTime\<close> gives, according to the documentation of
  both: year, month, day, hour, minute and second in digits, the day of the year, the quarter, the
  short names of months and days with a capital, and the upper-case half of the day.
\<close>

definition same_output :: "(string \<times> char) list" where
  "same_output =
     [(''YYYY'', CHR ''Y''), (''yyyy'', CHR ''Y''), (''YY'', CHR ''y''), (''yy'', CHR ''y''), (''MM'', CHR ''m''), (''mm'', CHR ''m''),
      (''DD'', CHR ''d''), (''dd'', CHR ''d''), (''DDD'', CHR ''j''), (''ddd'', CHR ''j''), (''HH24'', CHR ''H''), (''hh24'', CHR ''H''),
      (''HH12'', CHR ''I''), (''hh12'', CHR ''I''), (''HH'', CHR ''I''), (''hh'', CHR ''I''), (''MI'', CHR ''i''), (''mi'', CHR ''i''),
      (''SS'', CHR ''S''), (''ss'', CHR ''S''), (''Q'', CHR ''Q''), (''q'', CHR ''Q''), (''Mon'', CHR ''b''), (''Dy'', CHR ''a''),
      (''AM'', CHR ''p''), (''PM'', CHR ''p'')]"

text \<open>
  PostgreSQL reads a template from left to right: a prefix if there is one, then the longest keyword
  that follows, then a postfix of it, \<open>TH\<close> or \<open>th\<close> for ordinal numbers or \<open>SP\<close>, which is
  accepted and does nothing. \<open>out\<close> is the output for a keyword, given its prefix and the ordinal
  postfix.
\<close>

definition pg_prefix :: "string \<Rightarrow> string option" where
  "pg_prefix cs = (if take 2 cs \<in> set dch_prefixes then Some (take 2 cs) else None)"

definition pg_keyword :: "string \<Rightarrow> string option" where
  "pg_keyword cs = find (\<lambda>k. k \<in> set dch_keywords) (map (\<lambda>n. take n cs) (rev [1 ..< Suc (length cs)]))"

lemma pg_keywordD: "pg_keyword cs = Some k \<Longrightarrow> k \<noteq> [] \<and> length k \<le> length cs"
  by (auto simp: pg_keyword_def dest!: findD)

fun pg_quoted :: "string \<Rightarrow> string \<times> string" where
  "pg_quoted [] = ([], [])"
| "pg_quoted [c] = (if c = CHR 0x22 then [] else [c], [])"
| "pg_quoted (c # d # ds) =
     (if c = CHR 0x22 then ([], d # ds)
      else if c = BSLASH then apfst ((#) d) (pg_quoted ds)
      else apfst ((#) c) (pg_quoted (d # ds)))"

lemma pg_quoted_rest: "(t, rest) = pg_quoted cs \<Longrightarrow> length rest \<le> length cs"
proof -
  have "length (snd (pg_quoted cs)) \<le> length cs" by (induction cs rule: pg_quoted.induct) auto
  then show "(t, rest) = pg_quoted cs \<Longrightarrow> length rest \<le> length cs" by (metis snd_conv)
qed

definition skip_prefix :: "string \<Rightarrow> string" where
  "skip_prefix cs = (if pg_prefix cs = None then cs else drop 2 cs)"

lemma skip_prefix_length: "length (skip_prefix cs) \<le> length cs"
  by (simp add: skip_prefix_def)

lemma keyword_shorter: "pg_keyword (skip_prefix cs) = Some k \<Longrightarrow> length (skip_prefix cs) - length k < length cs"
  using skip_prefix_length [of cs] pg_keywordD [of "skip_prefix cs" k] by (cases k) auto

lemma rest_shorter: "skip_prefix cs = d # ds \<Longrightarrow> Suc (length ds) \<le> length cs"
  using skip_prefix_length [of cs] by simp

function pg_to_char :: "(string option \<Rightarrow> string \<Rightarrow> string option \<Rightarrow> string) \<Rightarrow> string \<Rightarrow> string" where
  "pg_to_char out cs =
     (if cs = [] then []
      else (case pg_keyword (skip_prefix cs) of
        Some k \<Rightarrow>
          (let rest = drop (length k) (skip_prefix cs)
           in if take 2 rest = ''TH'' \<or> take 2 rest = ''th'' then out (pg_prefix cs) k (Some (take 2 rest)) @ pg_to_char out (drop 2 rest)
              else if take 2 rest = ''SP'' then out (pg_prefix cs) k None @ pg_to_char out (drop 2 rest)
              else out (pg_prefix cs) k None @ pg_to_char out rest)
      | None \<Rightarrow> (case skip_prefix cs of
            [] \<Rightarrow> []
          | d # ds \<Rightarrow>
              if d = CHR 0x22 then (case pg_quoted ds of (t, rest) \<Rightarrow> t @ pg_to_char out rest)
              else if d = BSLASH \<and> ds \<noteq> [] \<and> hd ds = CHR 0x22 then CHR 0x22 # pg_to_char out (tl ds)
              else d # pg_to_char out ds)))"
  by pat_completeness auto
termination
  by (relation "measure (\<lambda>(out, cs). length cs)")
    (auto dest!: keyword_shorter rest_shorter pg_quoted_rest)

declare pg_to_char.simps [simp del]

text \<open>ClickHouse: a percent sign and a letter are a code, two percent signs are one.\<close>

fun ch_format :: "(char \<Rightarrow> string) \<Rightarrow> string \<Rightarrow> string" where
  "ch_format code [] = []"
| "ch_format code [c] = [c]"
| "ch_format code (c # d # ds) =
     (if c = CHR ''%'' then (if d = CHR ''%'' then [d] else code d) @ ch_format code ds
      else c # ch_format code (d # ds))"

lemma ch_format_literal [simp]: "ch_format code (ch_literal c @ t) = c # ch_format code t"
  by (cases t) (auto simp: ch_literal_def)


text \<open>The table lists longer keywords first, so that its first match is the longest keyword.\<close>

lemma to_char_toks_sorted: "sorted_wrt (\<lambda>a b. length (fst b) \<le> length (fst a)) to_char_toks"
  by code_simp

lemma to_char_toks_codes: "list_all (\<lambda>(k, ch). case ch of None \<Rightarrow> True | Some t \<Rightarrow> length t = 2 \<and> hd t = CHR ''%'' \<and> t ! 1 \<noteq> CHR ''%'') to_char_toks"
  by code_simp

lemma find_longest:
  assumes "sorted_wrt (\<lambda>a b. length (fst b) \<le> length (fst a)) ts" and "find (\<lambda>(k, _). take (length k) cs = k) ts = Some (k, ch)"
    and "k' \<in> set (map fst ts)" and "take (length k') cs = k'"
  shows "length k' \<le> length k"
  using assms by (induction ts) (auto split: if_splits)

lemma find_last_of_range:
  assumes "P (take n cs)" and "0 < n" and "n \<le> m" and "\<And>i. n < i \<Longrightarrow> i \<le> m \<Longrightarrow> \<not> P (take i cs)"
  shows "find P (map (\<lambda>n. take n cs) (rev [1 ..< Suc m])) = Some (take n cs)"
  using assms
proof (induction m)
  case (Suc m)
  then show ?case by (cases "n = Suc m") simp_all
qed simp

text \<open>
  Both tables hold the same keywords, with the prefixes among those that are refused, and no keyword
  that is translated starts like a prefix.
\<close>

lemma tables_agree:
  "set dch_keywords \<union> set dch_prefixes = set (map fst to_char_toks)"
  "list_all (\<lambda>(k, ch). ch = None \<or> (k \<in> set dch_keywords \<and> take 2 k \<notin> set dch_prefixes)) to_char_toks"
  by code_simp+

lemma token_none:
  assumes "token_at cs = None"
  shows "pg_prefix cs = None" and "pg_keyword cs = None"
proof -
  have none: "\<forall>k \<in> set dch_keywords \<union> set dch_prefixes. take (length k) cs \<noteq> k"
    using assms unfolding tables_agree(1) by (auto simp: token_at_def find_None_iff)
  have two: "\<forall>k \<in> set dch_prefixes. length k = 2" by code_simp
  show "pg_prefix cs = None"
  proof (rule ccontr)
    assume "pg_prefix cs \<noteq> None"
    then have p: "take 2 cs \<in> set dch_prefixes" by (simp add: pg_prefix_def split: if_split_asm)
    with two have "take (length (take 2 cs)) cs = take 2 cs" by (metis take_take min.idem)
    with none p show False by blast
  qed
  have "take n cs \<notin> set dch_keywords" for n
  proof
    assume "take n cs \<in> set dch_keywords"
    moreover have "take (length (take n cs)) cs = take n cs" by (simp add: min_def)
    ultimately show False using none by blast
  qed
  then have "\<forall>k \<in> set (map (\<lambda>n. take n cs) (rev [1 ..< Suc (length cs)])). k \<notin> set dch_keywords" by auto
  then show "pg_keyword cs = None" by (simp add: pg_keyword_def find_None_iff del: upt_Suc)
qed

lemma token_some:
  assumes "token_at cs = Some (k, Some ch)"
  shows "pg_prefix cs = None" and "pg_keyword cs = Some k"
proof -
  have k: "(k, Some ch) \<in> set to_char_toks" "k \<noteq> []" "take (length k) cs = k" using token_atD [OF assms] by blast+
  have dk: "k \<in> set dch_keywords" "take 2 k \<notin> set dch_prefixes" using k(1) tables_agree(2) by (auto simp: list_all_iff)
  have longest: "length k' \<le> length k" if "k' \<in> set dch_keywords \<union> set dch_prefixes" "take (length k') cs = k'" for k'
    using find_longest [OF to_char_toks_sorted assms [unfolded token_at_def]] that unfolding tables_agree(1) by blast
  have two: "\<forall>p \<in> set dch_prefixes. length p = 2" by code_simp
  show "pg_prefix cs = None"
  proof (rule ccontr)
    assume "pg_prefix cs \<noteq> None"
    then have p: "take 2 cs \<in> set dch_prefixes" by (simp add: pg_prefix_def split: if_split_asm)
    then have "length (take 2 cs) = 2" using two by blast
    with p longest [of "take 2 cs"] have "2 \<le> length k" by simp
    then have "take 2 (take (length k) cs) = take 2 cs" by (simp add: min_def)
    then have "take 2 k = take 2 cs" by (simp only: k(3))
    with dk(2) p show False by simp
  qed
  have "take i cs \<notin> set dch_keywords" if i: "length k < i" "i \<le> length cs" for i
  proof
    assume "take i cs \<in> set dch_keywords"
    with longest [of "take i cs"] i show False by simp
  qed
  moreover have "length k \<le> length cs" using k(3) by (metis length_take min.cobounded1)
  ultimately have "pg_keyword cs = Some (take (length k) cs)"
    unfolding pg_keyword_def using k dk by (intro find_last_of_range) auto
  with k(3) show "pg_keyword cs = Some k" by simp
qed

lemma quoted_text_same: "quoted_text cs = (t, rest) \<Longrightarrow> \<exists>u. pg_quoted cs = (u, rest) \<and> (\<forall>s. ch_format code (t @ s) = u @ ch_format code s)"
proof (induction cs arbitrary: t rest rule: quoted_text.induct)
  case (3 c d ds)
  consider "c = BSLASH" | "c = CHR 0x22" | "c \<noteq> BSLASH" "c \<noteq> CHR 0x22" by blast
  then show ?case
  proof cases
    case 1
    with 3 show ?thesis by (cases "quoted_text ds") auto
  next
    case 2
    with 3 show ?thesis by auto
  next
    case other: 3
    with 3 show ?thesis by (cases "quoted_text (d # ds)") auto
  qed
qed auto

lemma quoted_text_suffix: "quoted_text cs = (t, rest) \<Longrightarrow> \<exists>n. rest = drop n cs"
proof (induction cs arbitrary: t rule: quoted_text.induct)
  case (3 c d ds)
  consider "c = BSLASH" | "c = CHR 0x22" | "c \<noteq> BSLASH" "c \<noteq> CHR 0x22" by blast
  then show ?case
  proof cases
    case 1
    with 3 obtain a where "quoted_text ds = (a, rest)" by (cases "quoted_text ds") auto
    with 3 1 obtain n where "rest = drop n ds" by blast
    then show ?thesis by (intro exI [of _ "Suc (Suc n)"]) simp
  next
    case 2
    with 3 show ?thesis by (intro exI [of _ 1]) auto
  next
    case other: 3
    with 3 obtain a where "quoted_text (d # ds) = (a, rest)" by (cases "quoted_text (d # ds)") auto
    with 3 other obtain n where "rest = drop n (d # ds)" by blast
    then show ?thesis by (intro exI [of _ "Suc n"]) simp
  qed
next
  case (2 c)
  then show ?case by (intro exI [of _ 1]) simp
qed simp

lemma no_SP_drop: "\<forall>p q. cs \<noteq> p @ ''SP'' @ q \<Longrightarrow> \<forall>p q. drop n cs \<noteq> p @ ''SP'' @ q"
  by (metis append.assoc append_take_drop_id)


lemma to_char_toks_first: "list_all (\<lambda>(k, _). hd k \<noteq> CHR 0x22 \<and> hd k \<noteq> BSLASH) to_char_toks"
  by code_simp

lemma token_at_quote: "c = CHR 0x22 \<or> c = BSLASH \<Longrightarrow> token_at (c # cs) = None"
proof (rule ccontr)
  assume c: "c = CHR 0x22 \<or> c = BSLASH" and "token_at (c # cs) \<noteq> None"
  then obtain k ch where "(k, ch) \<in> set to_char_toks" "k \<noteq> []" "take (length k) (c # cs) = k"
    using token_atD by fastforce
  with c to_char_toks_first show False by (cases k) (auto simp: list_all_iff)
qed


text \<open>The four ways a step of the translation succeeds.\<close>

lemma translate_from_cases:
  assumes "translate_from j (c # cs) = Some t"
  obtains (quoted) lit rest t' where "c = CHR 0x22" "quoted_text cs = (lit, rest)" "translate_from False rest = Some t'" "t = lit @ t'"
  | (escaped) t' where "c = BSLASH" "cs \<noteq> []" "hd cs = CHR 0x22" "translate_from False (tl cs) = Some t'" "t = CHR 0x22 # t'"
  | (keyword) k d t' where "token_at (c # cs) = Some (k, Some [CHR ''%'', d])" "d \<noteq> CHR ''%''"
      "translate_from True (drop (length k) (c # cs)) = Some t'" "t = [CHR ''%'', d] @ t'"
  | (literal) t' where "token_at (c # cs) = None" "c \<noteq> CHR 0x22" "\<not> (c = BSLASH \<and> cs \<noteq> [] \<and> hd cs = CHR 0x22)"
      "translate_from False cs = Some t'" "t = ch_literal c @ t'"
proof -
  note step = assms [unfolded translate_from.simps(2)]
  consider (q) "c = CHR 0x22" | (b) "c = BSLASH" "cs \<noteq> []" "hd cs = CHR 0x22"
    | (o) "c \<noteq> CHR 0x22" "\<not> (c = BSLASH \<and> cs \<noteq> [] \<and> hd cs = CHR 0x22)" by blast
  then show thesis
  proof cases
    case q
    with step that(1) show thesis by (auto split: prod.splits if_splits)
  next
    case b
    with step that(2) show thesis by (auto split: if_splits)
  next
    case o
    from step o have s: "(case token_at (c # cs) of
          Some (k, None) \<Rightarrow> None
        | Some (k, Some ch) \<Rightarrow> map_option ((@) ch) (translate_from True (drop (length k) (c # cs)))
        | None \<Rightarrow> map_option ((@) (ch_literal c)) (translate_from False cs)) = Some t" by (simp split: if_splits)
    show thesis
    proof (cases "token_at (c # cs)")
      case None
      with s o that(4) show thesis by auto
    next
      case (Some a)
      with s obtain k ch t' where a: "a = (k, Some ch)" "translate_from True (drop (length k) (c # cs)) = Some t'" "t = ch @ t'"
        by (auto split: prod.splits option.splits)
      have "(k, Some ch) \<in> set to_char_toks" using Some a token_atD by blast
      with to_char_toks_codes have "length ch = 2 \<and> hd ch = CHR ''%'' \<and> ch ! 1 \<noteq> CHR ''%''" by (fastforce simp: list_all_iff)
      then obtain d where "ch = [CHR ''%'', d]" "d \<noteq> CHR ''%''" by (auto simp: length_Suc_conv numeral_2_eq_2)
      with Some a that(3) show thesis by simp
    qed
  qed
qed

lemma translate_from_no_ordinal:
  assumes "translate_from True cs = Some t"
  shows "take 2 cs \<noteq> ''TH'' \<and> take 2 cs \<noteq> ''th''"
proof (cases cs)
  case (Cons c ds)
  with assms show ?thesis by (cases ds) (auto split: if_splits)
qed simp

lemma pg_to_char_step:
  assumes "pg_prefix (c # cs) = None"
  shows "pg_to_char out (c # cs) = (case pg_keyword (c # cs) of
        Some k \<Rightarrow>
          (let rest = drop (length k) (c # cs)
           in if take 2 rest = ''TH'' \<or> take 2 rest = ''th'' then out None k (Some (take 2 rest)) @ pg_to_char out (drop 2 rest)
              else if take 2 rest = ''SP'' then out None k None @ pg_to_char out (drop 2 rest)
              else out None k None @ pg_to_char out rest)
      | None \<Rightarrow>
          if c = CHR 0x22 then (case pg_quoted cs of (t, rest) \<Rightarrow> t @ pg_to_char out rest)
          else if c = BSLASH \<and> cs \<noteq> [] \<and> hd cs = CHR 0x22 then CHR 0x22 # pg_to_char out (tl cs)
          else c # pg_to_char out cs)"
proof -
  have s: "skip_prefix (c # cs) = c # cs" using assms by (simp add: skip_prefix_def)
  show ?thesis unfolding pg_to_char.simps [of out "c # cs"] s assms by (cases "pg_keyword (c # cs)") (simp_all split del: if_split)
qed

text \<open>Every translation in the table is to a code with the same output.\<close>

lemma to_char_toks_same: "(k, Some [CHR ''%'', d]) \<in> set to_char_toks \<Longrightarrow> (k, d) \<in> set same_output"
proof -
  have "list_all (\<lambda>(k, ch). case ch of None \<Rightarrow> True | Some t \<Rightarrow> (k, t ! 1) \<in> set same_output) to_char_toks" by code_simp
  then show "(k, Some [CHR ''%'', d]) \<in> set to_char_toks \<Longrightarrow> (k, d) \<in> set same_output" by (fastforce simp: list_all_iff)
qed

lemma translate_from_exact:
  assumes "translate_from j fmt = Some t" and "\<forall>p q. fmt \<noteq> p @ ''SP'' @ q"
    and code: "\<And>k d. (k, d) \<in> set same_output \<Longrightarrow> code d = out None k None"
  shows "ch_format code t = pg_to_char out fmt"
  using assms(1,2)
proof (induction fmt arbitrary: j t rule: length_induct)
  case (1 fmt)
  show ?case
  proof (cases fmt)
    case (Cons c cs)
    have IH: "ch_format code t' = pg_to_char out rest" if "translate_from j' rest = Some t'" "rest = drop n fmt" "0 < n" for j' t' rest n
      using 1 Cons that no_SP_drop [OF "1.prems"(2), of n] by simp
    from "1.prems"(1) [unfolded Cons] show ?thesis
    proof (cases rule: translate_from_cases)
      case (quoted lit rest t')
      obtain u where u: "pg_quoted cs = (u, rest)" "\<And>s. ch_format code (lit @ s) = u @ ch_format code s"
        using quoted_text_same [OF quoted(2), of code] by blast
      obtain n where "rest = drop n cs" using quoted_text_suffix [OF quoted(2)] by blast
      with IH [OF quoted(3), of "Suc n"] Cons have "ch_format code t' = pg_to_char out rest" by simp
      with quoted u Cons token_none [OF token_at_quote [of c cs]] show ?thesis
        by (simp add: pg_to_char_step)
    next
      case (escaped t')
      with IH [OF escaped(4), of 2] Cons have "ch_format code t' = pg_to_char out (tl cs)" by (cases cs) simp_all
      with escaped Cons token_none [OF token_at_quote [of c cs]] ch_format_literal [of code "CHR 0x22" t']
      show ?thesis by (simp add: pg_to_char_step ch_literal_def)
    next
      case (keyword k d t')
      let ?rest = "drop (length k) (c # cs)"
      have k: "(k, d) \<in> set same_output" "k \<noteq> []" using token_atD [OF keyword(1)] to_char_toks_same by blast+
      have "take 2 ?rest \<noteq> ''SP''" using no_SP_drop [OF "1.prems"(2), of "length k"] Cons by (metis append_Nil append_take_drop_id)
      with translate_from_no_ordinal [OF keyword(3)] IH [OF keyword(3), of "length k"] k keyword Cons code [OF k(1)] token_some [OF keyword(1)]
      show ?thesis by (simp add: pg_to_char_step Let_def)
    next
      case (literal t')
      with IH [OF literal(4), of 1] Cons have "ch_format code t' = pg_to_char out cs" by simp
      with literal Cons token_none [OF literal(1)] show ?thesis
        by (simp add: pg_to_char_step)
    qed
  qed (use "1.prems"(1) in \<open>simp add: pg_to_char.simps\<close>)
qed



text \<open>A clock at five minutes past nine: the codes and the keywords, for which the hypothesis holds.\<close>

definition ex_code :: "char \<Rightarrow> string" where
  "ex_code d = (if d = CHR ''H'' \<or> d = CHR ''I'' then ''09'' else if d = CHR ''i'' then ''05'' else if d = CHR ''p'' then ''AM'' else ''..'')"

definition ex_out :: "string option \<Rightarrow> string \<Rightarrow> string option \<Rightarrow> string" where
  "ex_out pre k th = (case map_of same_output k of Some d \<Rightarrow> ex_code d | None \<Rightarrow> ''..'') @ (case th of None \<Rightarrow> '''' | Some s \<Rightarrow> s)"

lemma ex_out_code: "(k, d) \<in> set same_output \<Longrightarrow> ex_code d = ex_out None k None"
proof -
  have "list_all (\<lambda>(k, d). ex_code d = ex_out None k None) same_output" by code_simp
  then show "(k, d) \<in> set same_output \<Longrightarrow> ex_code d = ex_out None k None" by (auto simp: list_all_iff)
qed


text \<open>
  A keyword without a code is refused, alone and in a template. The postfix \<open>SP\<close> is not refused:
  it is sent as text that PostgreSQL does not print.
\<close>

lemma year_digit_refused:
  "chfdw_translate_to_char_format ''Y'' = None" "chfdw_translate_to_char_format ''DD.Y'' = None" "chfdw_translate_to_char_format ''w'' = None"
  by code_simp+

lemma spell_mode_kept:
  "chfdw_translate_to_char_format ''HH24SP'' = Some ''%HSP''
   \<and> ch_format ex_code ''%HSP'' = ''09SP'' \<and> pg_to_char ex_out ''HH24SP'' = ''09''"
  by code_simp


section \<open>Flags of regular expressions\<close>

definition regex_flags_ok :: "string \<Rightarrow> bool \<Rightarrow> bool" where
  "regex_flags_ok flags global_ok \<longleftrightarrow>
     list_all (\<lambda>c. c \<in> set ''imnpstw'' \<or> (c = CHR ''g'' \<and> global_ok)) flags"

unbundle bit_operations_syntax

text \<open>The bit set that \<open>appendRegexFlags\<close> keeps while it reads the flags, and what it writes.\<close>

definition flag_i :: "16 word" where "flag_i = 1"
definition flag_m :: "16 word" where "flag_m = 2"
definition flag_p :: "16 word" where "flag_p = 4"
definition flag_s :: "16 word" where "flag_s = 8"
definition flag_w :: "16 word" where "flag_w = 16"

lemmas flag_defs = flag_i_def flag_m_def flag_p_def flag_s_def flag_w_def

definition read_flag :: "char \<Rightarrow> 16 word \<Rightarrow> 16 word" where
  "read_flag c flags =
     (if c = CHR ''i'' then flags OR flag_i
      else if c = CHR ''m'' \<or> c = CHR ''n'' then ((flags OR flag_m) AND NOT flag_s) AND NOT flag_p AND NOT flag_w
      else if c = CHR ''p'' then ((flags OR flag_p) AND NOT flag_m) AND NOT flag_s AND NOT flag_w
      else if c = CHR ''s'' then ((flags OR flag_s) AND NOT flag_m) AND NOT flag_p AND NOT flag_w
      else if c = CHR ''w'' then ((flags OR flag_w) AND NOT flag_m) AND NOT flag_p AND NOT flag_s
      else flags)"

definition write_flags :: "16 word \<Rightarrow> string" where
  "write_flags flags =
     (if flags AND flag_i \<noteq> 0 then ''i'' else '''') @ (if flags AND flag_m \<noteq> 0 then ''m-s'' else '''')
     @ (if flags AND flag_p \<noteq> 0 then ''-s'' else '''') @ (if flags AND flag_s \<noteq> 0 then ''s'' else '''')
     @ (if flags AND flag_w \<noteq> 0 then ''m'' else '''')"

definition appendRegexFlags :: "string \<Rightarrow> string" where
  "appendRegexFlags flags = write_flags (fold read_flag flags 0)"

text \<open>
  What flags do, as the documentation of PostgreSQL and of RE2 says: whether case is ignored,
  whether a dot matches a newline, and whether the anchors match at newlines.
\<close>

type_synonym regex_mode = "bool \<times> bool \<times> bool"

fun pg_flag :: "char \<Rightarrow> regex_mode \<Rightarrow> regex_mode" where
  "pg_flag c (icase, dot, lines) =
     (if c = CHR ''i'' then (True, dot, lines)
      else if c = CHR ''m'' \<or> c = CHR ''n'' then (icase, False, True)
      else if c = CHR ''p'' then (icase, False, False)
      else if c = CHR ''s'' then (icase, True, False)
      else if c = CHR ''w'' then (icase, True, True)
      else (icase, dot, lines))"

fun re2_flags :: "bool \<Rightarrow> string \<Rightarrow> regex_mode \<Rightarrow> regex_mode" where
  "re2_flags on [] m = m"
| "re2_flags on (c # cs) (icase, dot, lines) =
     (if c = CHR ''-'' then re2_flags False cs (icase, dot, lines)
      else re2_flags on cs (if c = CHR ''i'' then (on, dot, lines) else if c = CHR ''s'' then (icase, on, lines)
                            else if c = CHR ''m'' then (icase, dot, on) else (icase, dot, lines)))"

text \<open>The mode that a bit set stands for; only sets with at most one of the four newline flags occur.\<close>

definition flag_sets :: "16 word list" where
  "flag_sets = [0, 1, 2, 3, 4, 5, 8, 9, 16, 17]"

definition mode_of :: "16 word \<Rightarrow> regex_mode" where
  "mode_of flags = re2_flags True (write_flags flags) (False, True, False)"

lemma read_flag_mode:
  assumes "flags \<in> set flag_sets" and "c \<in> set ''imnpstwg''"
  shows "read_flag c flags \<in> set flag_sets \<and> mode_of (read_flag c flags) = pg_flag c (mode_of flags)"
proof -
  have "list_all (\<lambda>f. list_all (\<lambda>c. read_flag c f \<in> set flag_sets \<and> mode_of (read_flag c f) = pg_flag c (mode_of f)) ''imnpstwg'') flag_sets"
    by code_simp
  with assms show ?thesis unfolding list_all_iff by blast
qed

lemma read_flags_mode:
  assumes "flags \<in> set flag_sets" and "set cs \<subseteq> set ''imnpstwg''"
  shows "fold read_flag cs flags \<in> set flag_sets \<and> mode_of (fold read_flag cs flags) = fold pg_flag cs (mode_of flags)"
  using assms
proof (induction cs arbitrary: flags)
  case (Cons c cs)
  with read_flag_mode [of flags c] show ?case by simp
qed simp

text \<open>
  C12: Regular expression flags. For flags that \<open>regex_flags_ok\<close> lets through, the flags that are
  put before the expression give RE2, whose dot matches newlines unless told otherwise, the mode
  that PostgreSQL's flags give: case is ignored when \<open>i\<close> occurs, and the last of the newline
  flags decides about newlines.
\<close>

theorem regex_flags_exact:
  assumes "regex_flags_ok flags global_ok"
  shows "re2_flags True (appendRegexFlags flags) (False, True, False) = fold pg_flag flags (False, True, False)"
proof -
  have "set flags \<subseteq> set ''imnpstwg''" using assms by (auto simp: regex_flags_ok_def list_all_iff)
  from read_flags_mode [of 0, OF _ this] show ?thesis
    by (simp add: flag_sets_def mode_of_def appendRegexFlags_def) (simp add: write_flags_def)
qed

theorem regex_flags_exact_witness:
  "regex_flags_ok ''nisg'' True \<and> appendRegexFlags ''nisg'' = ''is''
   \<and> re2_flags True (appendRegexFlags ''nisg'') (False, True, False) = fold pg_flag ''nisg'' (False, True, False)"
proof -
  have ok: "regex_flags_ok ''nisg'' True" by (simp add: regex_flags_ok_def)
  have "appendRegexFlags ''nisg'' = ''is''" by (simp add: appendRegexFlags_def read_flag_def write_flags_def flag_defs)
  with ok regex_flags_exact [OF ok] show ?thesis by simp
qed

end
