(* ===== verification/Shippable.thy ===== *)
theory Shippable
  imports CustomObjects ToChar
begin

text \<open>
  Which functions, operators and types may be sent to the server (\<open>src/shipable.c\<close>):
  \<open>chfdw_is_shippable\<close> with the tests of arguments that prevent it, and its cache of answers
  about the objects of user-declared extensions.

  The arguments of a call are known by their constants. The answers about the server version and
  the setting for regular expressions are parameters.
\<close>

section \<open>Calls\<close>

datatype const_datum = DText string | DInt int | DBool bool

text \<open>A constant argument, which may be NULL, or another expression.\<close>

datatype fn_arg = ConstArg "const_datum option" | OtherArg

datatype CoercionForm = COERCE_EXPLICIT_CALL | COERCE_EXPLICIT_CAST | COERCE_IMPLICIT_CAST | COERCE_SQL_SYNTAX

record func_node =
  fn_args :: "fn_arg list"
  funcformat :: CoercionForm

text \<open>An argument by its position; every call has the arguments that its function declares.\<close>

definition list_nth :: "fn_arg list \<Rightarrow> nat \<Rightarrow> fn_arg" where
  "list_nth xs n = (if n < length xs then xs ! n else OtherArg)"

definition const_of :: "fn_arg \<Rightarrow> const_datum option" where
  "const_of x = (case x of ConstArg d \<Rightarrow> d | OtherArg \<Rightarrow> None)"

definition text_of :: "fn_arg \<Rightarrow> string option" where
  "text_of x = (case const_of x of Some (DText t) \<Rightarrow> Some t | _ \<Rightarrow> None)"

record ship_env =
  cats :: syscache
  extension_oid :: "ObjectClass \<Rightarrow> Oid \<Rightarrow> Oid pg"
  chfdw_pushdown_regex_ok :: bool
  server_ge :: "nat \<Rightarrow> nat \<Rightarrow> bool"

record ship_rel =
  shippable_extensions :: "Oid list"
  serverid :: Oid

text \<open>The switch of \<open>chfdw_is_shippable\<close> over the functions whose arguments may prevent it.\<close>

definition regex_args_ok :: "ship_env \<Rightarrow> custom_object_type \<Rightarrow> fn_arg list \<Rightarrow> bool" where
  "regex_args_ok E ty xs =
     (let flags_idx = (if ty = CF_REPLACE_REGEX then 3 else 2)
      in chfdw_pushdown_regex_ok E
         \<and> (flags_idx + 1 \<le> length xs \<longrightarrow>
              (case text_of (list_nth xs flags_idx) of None \<Rightarrow> False | Some t \<Rightarrow> regex_flags_ok t (ty = CF_REPLACE_REGEX)))
         \<and> const_of (list_nth xs 1) \<noteq> None)"

definition function_args_ok :: "ship_env \<Rightarrow> custom_object_type \<Rightarrow> fn_arg list \<Rightarrow> bool" where
  "function_args_ok E ty xs =
     (if ty = CF_DATE_TRUNC \<or> ty = CF_DATE_PART then const_of (list_nth xs 0) \<noteq> None
      else if ty = CF_ARRAY_SORT_DESC then list_nth xs 1 \<noteq> OtherArg
      else if ty = CF_ARRAY_POSITION then
        length xs = 2 \<or> (length xs = 3 \<and> (case const_of (list_nth xs 2) of Some (DInt n) \<Rightarrow> 0 < n | _ \<Rightarrow> False))
      else if ty = CF_TO_CHAR then
        (case text_of (list_nth xs 1) of None \<Rightarrow> False | Some t \<Rightarrow> chfdw_translate_to_char_format t \<noteq> None)
      else if ty = CF_ENCODE then
        (case text_of (list_nth xs 1) of None \<Rightarrow> False
         | Some t \<Rightarrow> strcaseeq t ''hex'' \<or> strcaseeq t ''base64'' \<or> strcaseeq t ''base64url'')
      else if ty = CF_DIGEST then
        (case text_of (list_nth xs 1) of None \<Rightarrow> False | Some t \<Rightarrow> chfdw_digest_func_name t \<noteq> None)
      else if ty \<in> {CF_MATCH, CF_SPLIT_BY_REGEX, CF_REPLACE_REGEX, CF_REGEX_PG_MATCH} then regex_args_ok E ty xs
      else if ty = CF_REGR_AGG then server_ge E 26 9
      else True)"

definition is_cast :: "func_node option \<Rightarrow> bool" where
  "is_cast node = (case node of None \<Rightarrow> False
     | Some f \<Rightarrow> funcformat f = COERCE_IMPLICIT_CAST \<or> funcformat f = COERCE_EXPLICIT_CAST)"

definition node_args :: "func_node option \<Rightarrow> fn_arg list" where
  "node_args node = (case node of None \<Rightarrow> [] | Some f \<Rightarrow> fn_args f)"

definition is_regex_operator :: "custom_object_type \<Rightarrow> bool" where
  "is_regex_operator ty \<longleftrightarrow>
     ty \<in> {CF_REGEX_MATCH, CF_REGEX_NO_MATCH, CF_REGEX_ICASE_MATCH, CF_REGEX_ICASE_NO_MATCH}"

section \<open>The cache of answers\<close>

type_synonym ship_cache = "Oid \<times> ObjectClass \<times> Oid \<rightharpoonup> bool"

record ship_state =
  custom :: custom_cache
  answers :: ship_cache

definition InvalidateShippableCacheCallback :: "ship_state \<Rightarrow> ship_state" where
  "InvalidateShippableCacheCallback st = st\<lparr>answers := Map.empty\<rparr>"

definition lookup_shippable :: "ship_env \<Rightarrow> ship_rel \<Rightarrow> Oid \<Rightarrow> ObjectClass \<Rightarrow> bool pg" where
  "lookup_shippable E R objectId classId =
     rbind (extension_oid E classId objectId)
       (\<lambda>ext. Inr (OidIsValid ext \<and> ext \<in> set (shippable_extensions R)))"

definition cached_shippable :: "ship_env \<Rightarrow> ship_rel \<Rightarrow> Oid \<Rightarrow> ObjectClass \<Rightarrow> ship_state \<Rightarrow> ship_state \<times> bool pg" where
  "cached_shippable E R objectId classId st =
     (if shippable_extensions R = [] then (st, Inr False)
      else (case answers st (objectId, classId, serverid R) of
          Some b \<Rightarrow> (st, Inr b)
        | None \<Rightarrow>
            (case lookup_shippable E R objectId classId of
               Inl err \<Rightarrow> (st, Inl err)
             | Inr b \<Rightarrow> (st\<lparr>answers := (answers st)((objectId, classId, serverid R) \<mapsto> b)\<rparr>, Inr b))))"

text \<open>The answer, and for a function the definition that is handed to the caller.\<close>

definition chfdw_is_shippable ::
    "ship_env \<Rightarrow> ship_rel \<Rightarrow> func_node option \<Rightarrow> Oid \<Rightarrow> ObjectClass \<Rightarrow> ship_state
      \<Rightarrow> ship_state \<times> (bool \<times> CustomObjectDef option) pg" where
  "chfdw_is_shippable E R node objectId classId st = (case classId of
       OperatorRelationId \<Rightarrow>
         (case chfdw_check_for_custom_operator (cats E) objectId (custom st) of
            (c, Inl err) \<Rightarrow> (st\<lparr>custom := c\<rparr>, Inl err)
          | (c, Inr (Some d)) \<Rightarrow>
              (st\<lparr>custom := c\<rparr>, Inr (if is_regex_operator (cf_type d) then chfdw_pushdown_regex_ok E else True, None))
          | (c, Inr None) \<Rightarrow>
              (if chfdw_is_builtin objectId then (st\<lparr>custom := c\<rparr>, Inr (True, None))
               else apsnd (map_sum id (\<lambda>b. (b, None))) (cached_shippable E R objectId classId (st\<lparr>custom := c\<rparr>))))
     | ProcedureRelationId \<Rightarrow>
         (case chfdw_check_for_custom_function (cats E) objectId (custom st) of
            (c, Inl err) \<Rightarrow> (st\<lparr>custom := c\<rparr>, Inl err)
          | (c, Inr (Some d)) \<Rightarrow> (st\<lparr>custom := c\<rparr>, Inr (function_args_ok E (cf_type d) (node_args node), Some d))
          | (c, Inr None) \<Rightarrow> (st\<lparr>custom := c\<rparr>, Inr (chfdw_is_builtin objectId \<and> is_cast node, None)))
     | TypeRelationId \<Rightarrow>
         (if chfdw_is_builtin objectId then (st, Inr (True, None))
          else (case chfdw_check_for_custom_type (cats E) objectId (custom st) of
              (c, Inl err) \<Rightarrow> (st\<lparr>custom := c\<rparr>, Inl err)
            | (c, Inr (Some _)) \<Rightarrow> (st\<lparr>custom := c\<rparr>, Inr (True, None))
            | (c, Inr None) \<Rightarrow> apsnd (map_sum id (\<lambda>b. (b, None))) (cached_shippable E R objectId classId (st\<lparr>custom := c\<rparr>)))))"

section \<open>What may be sent\<close>

text \<open>The same without caches.\<close>

definition extension_shippable :: "ship_env \<Rightarrow> ship_rel \<Rightarrow> Oid \<Rightarrow> ObjectClass \<Rightarrow> bool pg" where
  "extension_shippable E R objectId classId =
     (if shippable_extensions R = [] then Inr False else lookup_shippable E R objectId classId)"

definition shippable_def :: "ship_env \<Rightarrow> ship_rel \<Rightarrow> func_node option \<Rightarrow> Oid \<Rightarrow> ObjectClass \<Rightarrow> bool pg" where
  "shippable_def E R node objectId classId =
     rbind (object_def (cats E) classId objectId) (\<lambda>d. case d of
         Some d \<Rightarrow> Inr (case classId of
             OperatorRelationId \<Rightarrow> is_regex_operator (cf_type d) \<longrightarrow> chfdw_pushdown_regex_ok E
           | ProcedureRelationId \<Rightarrow> function_args_ok E (cf_type d) (node_args node)
           | TypeRelationId \<Rightarrow> True)
       | None \<Rightarrow> (case classId of
             ProcedureRelationId \<Rightarrow> Inr (chfdw_is_builtin objectId \<and> is_cast node)
           | _ \<Rightarrow> if chfdw_is_builtin objectId then Inr True else extension_shippable E R objectId classId))"

text \<open>
  The life of a session, for the extensions that each server declares: questions are asked, with or
  without an error, the catalogs change, servers are altered, and transactions end. Two sets are
  kept: the functions and operators about which a question raised an error since the cache of
  custom objects was last emptied, and the objects that joined or left an extension since a server
  was last altered, for the cache of answers does not notice that.
\<close>

inductive ship_reachable :: "(Oid \<Rightarrow> ObjectClass) \<Rightarrow> ship_env \<Rightarrow> (Oid \<Rightarrow> Oid list) \<Rightarrow> Oid set \<Rightarrow> Oid set \<Rightarrow> ship_state \<Rightarrow> bool" for kind where
  start: "kinds_ok kind (cats E) \<Longrightarrow>
    ship_reachable kind E exts {} {} \<lparr>custom = \<lparr>objects = None, custom_objects_stale = False\<rparr>, answers = Map.empty\<rparr>"
| ask: "ship_reachable kind E exts P Q st \<Longrightarrow>
    chfdw_is_shippable E \<lparr>shippable_extensions = exts srv, serverid = srv\<rparr> node oid (kind oid) st = (st', Inr r) \<Longrightarrow>
    ship_reachable kind E exts P Q st'"
| failed: "ship_reachable kind E exts P Q st \<Longrightarrow>
    chfdw_is_shippable E \<lparr>shippable_extensions = exts srv, serverid = srv\<rparr> node oid (kind oid) st = (st', Inl err) \<Longrightarrow>
    ship_reachable kind E exts (left_behind kind oid \<union> P) Q st'"
| change: "ship_reachable kind E exts P Q st \<Longrightarrow> kinds_ok kind (cats E') \<Longrightarrow>
    ship_reachable kind E' exts P ({oid. \<exists>c. extension_oid E' c oid \<noteq> extension_oid E c oid} \<union> Q)
      (st\<lparr>custom := invalidate_custom_objects_cache (custom st)\<rparr>)"
| alter_server: "ship_reachable kind E exts P Q st \<Longrightarrow> ship_reachable kind E exts' P {} (InvalidateShippableCacheCallback st)"
| xact_end: "ship_reachable kind E exts P Q st \<Longrightarrow>
    ship_reachable kind E exts (if custom_objects_stale (custom st) then {} else P) Q
      (st\<lparr>custom := drop_stale_custom_objects (custom st)\<rparr>)"

definition answers_right :: "ship_env \<Rightarrow> (Oid \<Rightarrow> Oid list) \<Rightarrow> Oid set \<Rightarrow> ship_cache \<Rightarrow> bool" where
  "answers_right E exts Q m \<longleftrightarrow> (\<forall>oid c srv b. m (oid, c, srv) = Some b \<longrightarrow> oid \<notin> Q \<longrightarrow>
     lookup_shippable E \<lparr>shippable_extensions = exts srv, serverid = srv\<rparr> oid c = Inr b)"

lemma cached_shippable_right:
  assumes "answers_right E exts Q (answers st)"
  shows "oid \<notin> Q \<Longrightarrow> snd (cached_shippable E \<lparr>shippable_extensions = exts srv, serverid = srv\<rparr> oid c st)
      = extension_shippable E \<lparr>shippable_extensions = exts srv, serverid = srv\<rparr> oid c"
    and "answers_right E exts Q (answers (fst (cached_shippable E \<lparr>shippable_extensions = exts srv, serverid = srv\<rparr> oid c st)))"
    and "custom (fst (cached_shippable E \<lparr>shippable_extensions = exts srv, serverid = srv\<rparr> oid c st)) = custom st"
  using assms by (auto simp: cached_shippable_def extension_shippable_def answers_right_def split: option.splits sum.splits)


lemma map_sum_fst_const: "map_sum id fst (map_sum id (\<lambda>b. (b, d)) r) = r"
  by (cases r) simp_all

text \<open>Every question keeps the answers right, and asks about custom objects at most once.\<close>

lemma is_shippable_asks:
  assumes "answers_right E exts Q (answers st)"
    and "chfdw_is_shippable E \<lparr>shippable_extensions = exts srv, serverid = srv\<rparr> node oid cl st = (st', a)"
  shows "answers_right E exts Q (answers st')"
    and "cl = TypeRelationId \<and> custom st' = custom st
      \<or> (\<exists>r. check_object (cats E) cl oid (custom st) = (custom st', r) \<and> (\<forall>err. r = Inl err \<longrightarrow> a = Inl err))"
proof -
  let ?R = "\<lparr>shippable_extensions = exts srv, serverid = srv\<rparr>"
  have c: "answers_right E exts Q (answers s') \<and> custom s' = c"
    if "cached_shippable E ?R oid cl (st\<lparr>custom := c\<rparr>) = (s', b)" for c s' b
    using cached_shippable_right(2,3) [of E exts Q "st\<lparr>custom := c\<rparr>" srv oid cl] assms(1) that by simp
  show "answers_right E exts Q (answers st')"
    using assms c by (auto simp: chfdw_is_shippable_def apsnd_def map_prod_def
        split: ObjectClass.splits prod.splits sum.splits option.splits if_splits)
  show "cl = TypeRelationId \<and> custom st' = custom st
      \<or> (\<exists>r. check_object (cats E) cl oid (custom st) = (custom st', r) \<and> (\<forall>err. r = Inl err \<longrightarrow> a = Inl err))"
    using assms(2) c by (auto simp: chfdw_is_shippable_def check_object_def apsnd_def map_prod_def
        split: ObjectClass.splits prod.splits sum.splits option.splits if_splits)
qed

lemma entries_right_mono: "entries_right kind S P st \<Longrightarrow> P \<subseteq> P' \<Longrightarrow> entries_right kind S P' st"
  by (auto simp: entries_right_def)

lemma is_shippable_keeps:
  assumes "kinds_ok kind (cats E) \<and> no_types kind P" and "answers_right E exts Q (answers st)"
    and "chfdw_is_shippable E \<lparr>shippable_extensions = exts srv, serverid = srv\<rparr> node oid (kind oid) st = (st', a)"
    and "marked (custom st) \<or> entries_right kind (cats E) P (custom st)"
  shows "answers_right E exts Q (answers st')
    \<and> (marked (custom st') \<or> entries_right kind (cats E) (case a of Inl _ \<Rightarrow> left_behind kind oid \<union> P | Inr _ \<Rightarrow> P) (custom st'))"
proof -
  consider "custom st' = custom st"
    | r where "check_object (cats E) (kind oid) oid (custom st) = (custom st', r)" "\<forall>err. r = Inl err \<longrightarrow> a = Inl err"
    using is_shippable_asks(2) [OF assms(2,3)] by blast
  then have "marked (custom st') \<or> entries_right kind (cats E) (case a of Inl _ \<Rightarrow> left_behind kind oid \<union> P | Inr _ \<Rightarrow> P) (custom st')"
  proof cases
    case 1
    with assms(4) show ?thesis by (auto intro: entries_right_mono split: sum.split)
  next
    case 2
    show ?thesis
    proof (cases "marked (custom st)")
      case True
      with check_object_marked [OF 2(1)] show ?thesis by simp
    next
      case False
      with assms(4) check_object_keeps [OF assms(1) _ 2(1)]
      have "entries_right kind (cats E) (case r of Inl _ \<Rightarrow> left_behind kind oid \<union> P | Inr _ \<Rightarrow> P) (custom st')" by blast
      with 2(2) show ?thesis by (auto intro: entries_right_mono split: sum.splits)
    qed
  qed
  with is_shippable_asks(1) [OF assms(2,3)] show ?thesis by blast
qed

text \<open>One question about another object, in a state whose other entries are right, is answered right.\<close>

lemma is_shippable_right:
  assumes "kinds_ok kind (cats E) \<and> no_types kind P" and "entries_right kind (cats E) P (custom st)"
    and "answers_right E exts Q (answers st)" and "oid \<notin> P" and "oid \<notin> Q"
    and "chfdw_is_shippable E \<lparr>shippable_extensions = exts srv, serverid = srv\<rparr> node oid (kind oid) st = (st', a)"
  shows "map_sum id fst a = shippable_def E \<lparr>shippable_extensions = exts srv, serverid = srv\<rparr> node oid (kind oid)"
proof -
  let ?R = "\<lparr>shippable_extensions = exts srv, serverid = srv\<rparr>"
  obtain c r where c: "check_object (cats E) (kind oid) oid (custom st) = (c, r)" by fastforce
  from check_object_right [OF assms(1,2), of oid] assms(4) c
  have od: "object_def (cats E) (kind oid) oid = r" by (auto simp: check_right_def)
  have cs: "\<exists>s. cached_shippable E ?R oid cl (st\<lparr>custom := c\<rparr>) = (s, extension_shippable E ?R oid cl)" for cl
    using cached_shippable_right(1) [of E exts Q "st\<lparr>custom := c\<rparr>" oid srv cl] assms(3,5)
    by (intro exI [of _ "fst (cached_shippable E ?R oid cl (st\<lparr>custom := c\<rparr>))"]) (simp add: prod_eq_iff)
  note defs = shippable_def_def check_object_def chfdw_is_shippable_def object_def_def
  show ?thesis
  proof (cases "kind oid")
    case ProcedureRelationId
    with c od assms(6) show ?thesis by (cases r) (auto simp: defs split: option.splits)
  next
    case OperatorRelationId
    obtain s where "cached_shippable E ?R oid OperatorRelationId (st\<lparr>custom := c\<rparr>) = (s, extension_shippable E ?R oid OperatorRelationId)"
      using cs by blast
    with OperatorRelationId c od assms(6) show ?thesis
      by (cases r) (auto simp: defs map_sum_fst_const split: option.splits if_splits)
  next
    case TypeRelationId
    show ?thesis
    proof (cases "chfdw_is_builtin oid")
      case True
      with TypeRelationId assms(6) show ?thesis by (auto simp: defs type_def_def)
    next
      case False
      obtain s where "cached_shippable E ?R oid TypeRelationId (st\<lparr>custom := c\<rparr>) = (s, extension_shippable E ?R oid TypeRelationId)"
        using cs by blast
      with False TypeRelationId c od assms(6) show ?thesis
        by (cases r) (auto simp: defs map_sum_fst_const split: option.splits if_splits)
    qed
  qed
qed

lemma change_answers_right:
  assumes "answers_right E exts Q m"
  shows "answers_right E' exts ({oid. \<exists>c. extension_oid E' c oid \<noteq> extension_oid E c oid} \<union> Q) m"
  using assms by (auto simp: answers_right_def lookup_shippable_def)

lemma ship_reachable_inv:
  assumes "ship_reachable kind E exts P Q st"
  shows "(kinds_ok kind (cats E) \<and> no_types kind P) \<and> answers_right E exts Q (answers st)
    \<and> (marked (custom st) \<or> entries_right kind (cats E) P (custom st))"
  using assms
proof (induction rule: ship_reachable.induct)
  case (ask E exts P Q st srv node oid st' r)
  then show ?case using is_shippable_keeps [of kind E P exts Q st srv node oid st' "Inr r"] by simp
next
  case (failed E exts P Q st srv node oid st' err)
  then show ?case
    using is_shippable_keeps [of kind E P exts Q st srv node oid st' "Inl err"] no_types_left_behind [of kind P oid] by simp
next
  case (change E exts P Q st E')
  then show ?case
    using change_answers_right [of E exts Q "answers st" E']
    by (cases "objects (custom st)") (auto simp: marked_def invalidate_custom_objects_cache_def)
next
  case (xact_end E exts P Q st)
  then show ?case using drop_stale_right [of "custom st" kind "cats E" P] by (auto simp: no_types_def)
qed (auto simp: answers_right_def InvalidateShippableCacheCallback_def no_types_def)

text \<open>
  C7: What may be sent does not depend on the caches. In every state that a session reaches by
  questions, failed ones included, catalog changes, altered servers and transaction ends, and in
  which no change of the current transaction is pending, \<open>chfdw_is_shippable\<close> answers as the
  catalogs and the server's options say: an object with a definition by its definition and
  arguments, a built-in operator or type always, a built-in function without a definition only as
  a cast, and any other object only when its extension is declared for the server. Two kinds of
  objects are excepted: a function or operator about which a question raised an error since the
  cache was last emptied, and an object that joined or left an extension since a server was last
  altered. Such an object does not disturb the answers about the others.
\<close>

theorem shippable_exact:
  assumes "ship_reachable kind E exts P Q st" and "\<not> custom_objects_stale (custom st)" and "oid \<notin> P" and "oid \<notin> Q"
  shows "map_sum id fst (snd (chfdw_is_shippable E \<lparr>shippable_extensions = exts srv, serverid = srv\<rparr> node oid (kind oid) st))
    = shippable_def E \<lparr>shippable_extensions = exts srv, serverid = srv\<rparr> node oid (kind oid)"
proof -
  have "kinds_ok kind (cats E) \<and> no_types kind P" "entries_right kind (cats E) P (custom st)" "answers_right E exts Q (answers st)"
    using ship_reachable_inv [OF assms(1)] assms(2) by (auto simp: marked_def)
  from is_shippable_right [OF this assms(3,4), of srv node] show ?thesis by (metis prod.collapse)
qed


text \<open>A server with pgcrypto, where \<open>digest(x, 'SHA256')\<close> may be sent and \<open>digest(x, 'crc')\<close> may not.\<close>

definition ex_ship_env :: "bool \<Rightarrow> ship_env" where
  "ex_ship_env crypto = \<lparr>cats = ex_syscache crypto, extension_oid = (\<lambda>_ _. Inr 900), chfdw_pushdown_regex_ok = True, server_ge = (\<lambda>_ _. True)\<rparr>"

definition ex_digest :: "string \<Rightarrow> func_node option" where
  "ex_digest alg = Some \<lparr>fn_args = [OtherArg, ConstArg (Some (DText alg))], funcformat = COERCE_EXPLICIT_CALL\<rparr>"

definition fresh_state :: ship_state where
  "fresh_state = \<lparr>custom = \<lparr>objects = None, custom_objects_stale = False\<rparr>, answers = Map.empty\<rparr>"

lemma ex_kinds_ok: "kinds_ok (\<lambda>_. ProcedureRelationId) (cats (ex_ship_env b))"
  by (auto simp: kinds_ok_def ex_ship_env_def ex_syscache_def chfdw_is_builtin_def FirstUnpinnedObjectId_def split: if_splits)

lemma ex_digest_def_found:
  "shippable_def (ex_ship_env True) R (ex_digest alg) 20001 ProcedureRelationId = Inr (chfdw_digest_func_name alg \<noteq> None)"
  by (simp add: shippable_def_def object_def_def function_def_def ex_ship_env_def ex_syscache_def chfdw_is_builtin_def
      FirstUnpinnedObjectId_def extension_function_def entry_def_def function_args_ok_def node_args_def ex_digest_def
      list_nth_def text_of_def const_of_def)

text \<open>A session in which the lookup of the function 30000 was cancelled, and goes on after that.\<close>

definition ex_cancelled :: ship_env where
  "ex_cancelled = ex_ship_env True\<lparr>cats := ex_syscache True\<lparr>extension_of := (\<lambda>c oid.
     if oid = 30000 then Inl (Ereport ERRCODE_QUERY_CANCELED ''canceling statement'' []) else extension_of (ex_syscache True) c oid)\<rparr>\<rparr>"

definition after_cancel :: ship_state where
  "after_cancel = fst (chfdw_is_shippable ex_cancelled \<lparr>shippable_extensions = [], serverid = 7\<rparr> None 30000 ProcedureRelationId fresh_state)"

lemma after_cancel_reachable: "ship_reachable (\<lambda>_. ProcedureRelationId) ex_cancelled (\<lambda>_. []) {30000} {} after_cancel"
proof -
  have "kinds_ok (\<lambda>_. ProcedureRelationId) (cats ex_cancelled)"
    using ex_kinds_ok [of True] by (simp add: kinds_ok_def ex_cancelled_def ex_ship_env_def)
  then have r: "ship_reachable (\<lambda>_. ProcedureRelationId) ex_cancelled (\<lambda>_. []) {} {} fresh_state"
    unfolding fresh_state_def by (rule ship_reachable.start)
  have "\<exists>err. chfdw_is_shippable ex_cancelled \<lparr>shippable_extensions = [], serverid = 7\<rparr> None 30000 ProcedureRelationId fresh_state
      = (after_cancel, Inl err)"
    unfolding after_cancel_def
    by (auto simp: chfdw_is_shippable_def chfdw_check_for_custom_function_def Let_def ex_cancelled_def fresh_state_def
        chfdw_is_builtin_def FirstUnpinnedObjectId_def hash_find_def create_custom_objects_cache_def)
  then show ?thesis using ship_reachable.failed [OF r, of 7 None 30000] by (auto simp: left_behind_def)
qed

theorem shippable_exact_witness:
  "map_sum id fst (snd (chfdw_is_shippable ex_cancelled \<lparr>shippable_extensions = [], serverid = 7\<rparr>
       (ex_digest ''SHA256'') 20001 ProcedureRelationId after_cancel)) = Inr True
   \<and> map_sum id fst (snd (chfdw_is_shippable ex_cancelled \<lparr>shippable_extensions = [], serverid = 7\<rparr>
       (ex_digest ''crc'') 20001 ProcedureRelationId after_cancel)) = Inr False"
proof -
  have "custom_objects_stale (custom after_cancel) = False"
    by (simp add: after_cancel_def chfdw_is_shippable_def chfdw_check_for_custom_function_def Let_def ex_cancelled_def fresh_state_def
        chfdw_is_builtin_def FirstUnpinnedObjectId_def hash_find_def create_custom_objects_cache_def hash_enter_def)
  note exact = shippable_exact [OF after_cancel_reachable, of 20001 7, simplified this, simplified]
  have "shippable_def ex_cancelled R (ex_digest alg) 20001 ProcedureRelationId = shippable_def (ex_ship_env True) R (ex_digest alg) 20001 ProcedureRelationId"
    for R alg
    by (simp add: shippable_def_def object_def_def function_def_def ex_cancelled_def ex_ship_env_def ex_syscache_def chfdw_is_builtin_def
        FirstUnpinnedObjectId_def extension_function_def entry_def_def function_args_ok_def node_args_def ex_digest_def
        list_nth_def text_of_def const_of_def)
  moreover have "chfdw_digest_func_name ''SHA256'' \<noteq> None" "chfdw_digest_func_name ''crc'' = None" by code_simp+
  ultimately show ?thesis by (simp add: exact ex_digest_def_found)
qed

text \<open>
  C8: A failed lookup makes a function shippable. When the catalogs raise an error while a
  function that is not built in is looked up for the first time (a lock timeout or a cancellation
  while its extension is read), the error is passed on but the entry stays in the cache as it was
  initialised. From then on every call of the function may be sent to every server, with any
  arguments, whatever the catalogs and the options of the server say.
\<close>

theorem failed_lookup_ships:
  assumes "\<not> chfdw_is_builtin f" and "hash_find (custom st) f = None" and "extension_of (cats E) ProcedureRelationId f = Inl err"
  shows "\<exists>st'. chfdw_is_shippable E R node f ProcedureRelationId st = (st', Inl err)
    \<and> (\<forall>E' R' node'. snd (chfdw_is_shippable E' R' node' f ProcedureRelationId st') = Inr (True, Some (init_custom_entry f)))"
  using assms
  by (auto simp: chfdw_is_shippable_def chfdw_check_for_custom_function_def Let_def function_args_ok_def)

theorem failed_lookup_ships_witness:
  "\<exists>E st'. chfdw_is_shippable E \<lparr>shippable_extensions = [], serverid = 7\<rparr> None 30000 ProcedureRelationId fresh_state
      = (st', Inl (Ereport ERRCODE_QUERY_CANCELED ''canceling statement due to lock timeout'' []))
    \<and> snd (chfdw_is_shippable (ex_ship_env True) \<lparr>shippable_extensions = [], serverid = 7\<rparr> None 30000 ProcedureRelationId st')
      = Inr (True, Some (init_custom_entry 30000))
    \<and> shippable_def (ex_ship_env True) \<lparr>shippable_extensions = [], serverid = 7\<rparr> None 30000 ProcedureRelationId = Inr False"
proof -
  let ?err = "Ereport ERRCODE_QUERY_CANCELED ''canceling statement due to lock timeout'' []"
  let ?E = "ex_ship_env True\<lparr>cats := ex_syscache True\<lparr>extension_of := \<lambda>_ _. Inl ?err\<rparr>\<rparr>"
  have nb: "\<not> chfdw_is_builtin 30000" by (simp add: chfdw_is_builtin_def FirstUnpinnedObjectId_def)
  have "hash_find (custom fresh_state) 30000 = None" by (simp add: fresh_state_def hash_find_def)
  moreover have "extension_of (cats ?E) ProcedureRelationId 30000 = Inl ?err" by simp
  moreover have "shippable_def (ex_ship_env True) \<lparr>shippable_extensions = [], serverid = 7\<rparr> None 30000 ProcedureRelationId = Inr False"
    using nb by (simp add: shippable_def_def object_def_def function_def_def ex_ship_env_def ex_syscache_def)
  ultimately show ?thesis
    using failed_lookup_ships [OF nb, of fresh_state ?E ?err] by blast
qed

end
