(* ===== verification/FuncText.thy ===== *)
theory FuncText
  imports Shippable
begin

text \<open>
  The text of function calls (\<open>src/deparse.c\<close>): \<open>deparseFuncExpr\<close> with its special forms,
  \<open>appendFunctionName\<close>, \<open>deparseSQLValueFunction\<close>, and the terms of an interval.

  The deparser of arguments is a parameter that gives their text or raises an error, with what
  the code asks about an argument: its type, its constant, and whether it is a call of
  \<open>timezone\<close>. Text is well-formed when its parentheses and brackets outside of quotes match.
\<close>

section \<open>Well-formed text\<close>

text \<open>
  A reader of SQL text: outside of quotes with the closing brackets that are due, inside quotes,
  after a backslash inside quotes, or at a bracket that does not match.
\<close>

datatype lexer = Code string | Quoted char string | Escaped char string | Mismatch

fun lex1 :: "char \<Rightarrow> lexer \<Rightarrow> lexer" where
  "lex1 c (Code st) =
     (if c = CHR ''('' then Code (CHR '')'' # st)
      else if c = CHR ''['' then Code (CHR '']'' # st)
      else if c = CHR '')'' \<or> c = CHR '']'' then (if st \<noteq> [] \<and> hd st = c then Code (tl st) else Mismatch)
      else if c = SQUOTE \<or> c = CHR 0x22 \<or> c = CHR 0x60 then Quoted c st
      else Code st)"
| "lex1 c (Quoted q st) = (if c = BSLASH then Escaped q st else if c = q then Code st else Quoted q st)"
| "lex1 c (Escaped q st) = Quoted q st"
| "lex1 c Mismatch = Mismatch"

definition scan_text :: "string \<Rightarrow> lexer \<Rightarrow> lexer" where
  "scan_text s l = fold lex1 s l"

lemma scan_simps [simp]:
  "scan_text [] l = l" "scan_text (c # s) l = scan_text s (lex1 c l)" "scan_text (s @ t) l = scan_text t (scan_text s l)"
  by (simp_all add: scan_text_def)

definition wf_text :: "string \<Rightarrow> bool" where
  "wf_text s \<longleftrightarrow> (\<forall>st. scan_text s (Code st) = Code st)"

lemma wf_textD [simp]: "wf_text s \<Longrightarrow> scan_text s (Code st) = Code st"
  by (simp add: wf_text_def)

lemma wf_text_Nil [simp]: "wf_text []"
  by (simp add: wf_text_def)

lemma wf_text_append [intro]: "wf_text s \<Longrightarrow> wf_text t \<Longrightarrow> wf_text (s @ t)"
  by (simp add: wf_text_def)

lemma quote_chars_lex: "scan_text (quote_chars s) (Quoted SQUOTE st) = Quoted SQUOTE st"
  by (induction s) (simp_all add: SQL_STR_DOUBLE_def)

lemma scan_quote_literal [simp]: "scan_text (ch_quote_literal s) (Code st) = Code st"
  by (simp add: ch_quote_literal_def ch_quote_literal_internal_def quote_chars_lex)

text \<open>A number has no brackets and no quotes.\<close>

definition plain :: "string \<Rightarrow> bool" where
  "plain s \<longleftrightarrow> (\<forall>c \<in> set s. c \<notin> {CHR ''('', CHR '')'', CHR ''['', CHR '']'', SQUOTE, CHR 0x22, CHR 0x60})"

lemma plain_wf: "plain s \<Longrightarrow> wf_text s"
  unfolding wf_text_def by (induction s) (auto simp: plain_def)

text \<open>Text between single quotes.\<close>

definition sq :: "string \<Rightarrow> string" where
  "sq s = SQUOTE # s @ [SQUOTE]"

section \<open>Arguments\<close>

text \<open>What the code asks about an expression.\<close>

record 'e expr_view =
  deparse :: "'e \<Rightarrow> string pg"
  as_arg :: "'e \<Rightarrow> fn_arg"
  expr_type :: "'e \<Rightarrow> Oid"
  stripped_type :: "'e \<Rightarrow> Oid"
  timezone_call :: "'e \<Rightarrow> ('e \<times> 'e) option"
  path_keys :: "'e \<Rightarrow> string list"

text \<open>Pieces that are appended one after the other; the first error ends it.\<close>

fun emit :: "string pg list \<Rightarrow> string pg" where
  "emit [] = Inr []"
| "emit (p # ps) = rbind p (\<lambda>s. rbind (emit ps) (\<lambda>t. Inr (s @ t)))"

lemma emit_Inr: "emit ps = Inr t \<longleftrightarrow> (\<exists>ss. ps = map Inr ss \<and> t = concat ss)"
proof (induction ps arbitrary: t)
  case (Cons p ps)
  have "emit (p # ps) = Inr t \<longleftrightarrow> (\<exists>s ss. p = Inr s \<and> ps = map Inr ss \<and> t = s @ concat ss)"
    by (auto simp: rbind_Inr_iff Cons.IH)
  also have "\<dots> \<longleftrightarrow> (\<exists>ss. p # ps = map Inr ss \<and> t = concat ss)"
    by (auto simp: Cons_eq_map_conv)
  finally show ?case .
qed auto

fun comma_args :: "('e \<Rightarrow> string pg) \<Rightarrow> 'e list \<Rightarrow> string pg" where
  "comma_args f [] = Inr ''''"
| "comma_args f [x] = f x"
| "comma_args f (x # y # zs) = emit [f x, Inr '', '', comma_args f (y # zs)]"

abbreviation DATEOID :: Oid where "DATEOID \<equiv> 1082"
abbreviation TIMESTAMPOID :: Oid where "TIMESTAMPOID \<equiv> 1114"
abbreviation TSTZOID :: Oid where "TSTZOID \<equiv> 1184"
abbreviation NUMERICOID :: Oid where "NUMERICOID \<equiv> 1700"
abbreviation FLOAT4OID :: Oid where "FLOAT4OID \<equiv> 700"

section \<open>Time zones\<close>

definition appendTimeZoneArg :: "'e expr_view \<Rightarrow> string \<Rightarrow> 'e \<Rightarrow> 'e option \<Rightarrow> string pg" where
  "appendTimeZoneArg V tz x zone = (case zone of
       Some z \<Rightarrow> emit [Inr '', '', deparse V z]
     | None \<Rightarrow> if stripped_type V x = TIMESTAMPOID \<or> stripped_type V x = TSTZOID
               then Inr ('', '' @ ch_quote_literal tz) else Inr '''')"

definition unwrapTimeZone :: "'e expr_view \<Rightarrow> 'e \<Rightarrow> 'e \<times> 'e option" where
  "unwrapTimeZone V x = (case timezone_call V x of
       Some (zone, source) \<Rightarrow> if stripped_type V source = TSTZOID then (source, Some zone) else (x, None)
     | None \<Rightarrow> (x, None))"

definition appendWallClock :: "'e expr_view \<Rightarrow> string \<Rightarrow> 'e \<Rightarrow> 'e option \<Rightarrow> string pg" where
  "appendWallClock V tz x zone =
     (let date = (stripped_type V x = DATEOID)
      in emit [Inr (if date then ''toString(toDateTime64('' else ''toString(''), deparse V x,
               Inr (if date then '', 0, '' @ ch_quote_literal tz @ '')'' else ''''), Inr '', '',
               (case zone of Some z \<Rightarrow> deparse V z | None \<Rightarrow> Inr (ch_quote_literal tz)), Inr '')''])"

section \<open>Special forms\<close>

definition nth_arg :: "'e list \<Rightarrow> nat \<Rightarrow> ('e \<Rightarrow> string pg) \<Rightarrow> string pg" where
  "nth_arg xs n f = (if n < length xs then f (xs ! n) else Inl (Ereport ERRCODE_INTERNAL_ERROR ''list_nth'' []))"

abbreviation arg_text :: "'e expr_view \<Rightarrow> 'e list \<Rightarrow> nat \<Rightarrow> string pg" where
  "arg_text V xs n \<equiv> nth_arg xs n (deparse V)"

text \<open>The text of a constant argument; the code reads it without a test, for the walker made one.\<close>

definition const_text :: "'e expr_view \<Rightarrow> 'e \<Rightarrow> string" where
  "const_text V x = (case text_of (as_arg V x) of Some t \<Rightarrow> t | None \<Rightarrow> '''')"

definition tolower :: "string \<Rightarrow> string" where
  "tolower s = map pg_tolower s"

definition trunc_units :: "(string \<times> string) list" where
  "trunc_units = [(''week'', ''toMonday''), (''second'', ''toStartOfSecond''), (''minute'', ''toStartOfMinute''),
     (''hour'', ''toStartOfHour''), (''day'', ''toStartOfDay''), (''month'', ''toStartOfMonth''),
     (''quarter'', ''toStartOfQuarter''), (''year'', ''toStartOfYear'')]"

definition deparse_date_trunc :: "'e expr_view \<Rightarrow> string \<Rightarrow> 'e list \<Rightarrow> string pg" where
  "deparse_date_trunc V tz xs = nth_arg xs 0 (\<lambda>u. nth_arg xs 1 (\<lambda>source.
     let unit = tolower (const_text V u) in (case map_of trunc_units unit of
        None \<Rightarrow> Inl (Ereport ERRCODE_FEATURE_NOT_SUPPORTED (''date_trunc cannot be exported for: '' @ unit) [])
      | Some f \<Rightarrow>
          emit [Inr f,
                (if unit = ''second'' then emit [Inr ''(toDateTime64('', deparse V source, Inr '', 1)'']
                 else emit [Inr ''('', deparse V source]),
                appendTimeZoneArg V tz source None, Inr '')''])))"

definition part_units :: "(string \<times> string) list" where
  "part_units = [(''day'', ''toDayOfMonth''), (''doy'', ''toDayOfYear''), (''dow'', ''toDayOfWeek''), (''year'', ''toYear''),
     (''month'', ''toMonth''), (''hour'', ''toHour''), (''minute'', ''toMinute''), (''second'', ''toSecond''),
     (''quarter'', ''toQuarter''), (''isoyear'', ''toISOYear''), (''week'', ''toISOWeek''), (''epoch'', ''toUnixTimestamp'')]"

definition deparse_date_part :: "'e expr_view \<Rightarrow> string \<Rightarrow> 'e list \<Rightarrow> string pg" where
  "deparse_date_part V tz xs = nth_arg xs 0 (\<lambda>u. nth_arg xs 1 (\<lambda>x.
     let (source, zone) = unwrapTimeZone V x; part = tolower (const_text V u) in (case map_of part_units part of
        None \<Rightarrow> Inl (Ereport ERRCODE_FEATURE_NOT_SUPPORTED (''date_part cannot be exported for: '' @ part) [])
      | Some f \<Rightarrow>
          emit [Inr f, Inr ''('',
                (if part = ''epoch'' \<and> (zone \<noteq> None \<or> expr_type V source \<noteq> TSTZOID)
                 then emit [Inr ''toDateTime64('', appendWallClock V tz source zone, Inr ('', 6, '' @ sq ''UTC'' @ '')'')]
                 else deparse V source),
                Inr (if part = ''dow'' then '', 2'' else ''''),
                (if part = ''epoch'' then Inr '''' else appendTimeZoneArg V tz source zone), Inr '')''])))"


definition deparse_timezone :: "'e expr_view \<Rightarrow> string \<Rightarrow> Oid \<Rightarrow> 'e list \<Rightarrow> string pg" where
  "deparse_timezone V tz rettype xs = nth_arg xs 0 (\<lambda>zone. nth_arg xs 1 (\<lambda>x.
     let to_tz = (rettype = TSTZOID);
         (source, wall_zone) = (if to_tz then unwrapTimeZone V x else (x, Some zone))
     in emit [Inr ''('', appendWallClock V tz source wall_zone, Inr '', 6, '',
              (if to_tz then deparse V zone else Inr (ch_quote_literal tz)), Inr '')'']))"

text \<open>The regular expression of a call: with flags they are put before it.\<close>

definition appendRegex :: "'e expr_view \<Rightarrow> 'e list \<Rightarrow> nat \<Rightarrow> string pg" where
  "appendRegex V xs flags_idx =
     (if length xs \<le> flags_idx then arg_text V xs 1
      else emit [Inr (''concat('' @ sq (''(?'' @ appendRegexFlags (const_text V (xs ! flags_idx)) @ '')'') @ '', ''),
                 arg_text V xs 1, Inr '')''])"

definition deparse_regexp_replace :: "'e expr_view \<Rightarrow> 'e list \<Rightarrow> string pg" where
  "deparse_regexp_replace V xs =
     (let global = (4 \<le> length xs \<and> CHR ''g'' \<in> set (const_text V (xs ! 3)))
      in emit [Inr (if global then ''replaceRegexpAll('' else ''replaceRegexpOne(''), arg_text V xs 0, Inr '', '',
               appendRegex V xs 3, Inr '', '', arg_text V xs 2, Inr '')''])"

text \<open>\<open>captures\<close> compiles the expression, which may raise an error, and tells whether it has groups.\<close>

definition deparse_regexp_match :: "'e expr_view \<Rightarrow> (string \<Rightarrow> bool pg) \<Rightarrow> 'e list \<Rightarrow> string pg" where
  "deparse_regexp_match V captures xs = nth_arg xs 1 (\<lambda>re. rbind (captures (const_text V re)) (\<lambda>groups.
     emit [Inr (if groups then ''extractGroups('' else ''arraySlice(extractAll(''), arg_text V xs 0, Inr '', '',
           appendRegex V xs 2, Inr (if groups then '')'' else ''), 1, 1)'')]))"

definition deparse_array_position :: "'e expr_view \<Rightarrow> 'e list \<Rightarrow> string pg" where
  "deparse_array_position V xs =
     emit [Inr ''('', Inr ''nullIf(indexOf('',
           (if length xs = 3
            then emit [Inr ''arraySlice('', arg_text V xs 0, Inr '', '', arg_text V xs 2, Inr ''), '']
            else emit [arg_text V xs 0, Inr '', '']),
           arg_text V xs 1, Inr ''), 0)'',
           (if length xs = 3 then emit [Inr '' + ('', arg_text V xs 2, Inr '' - 1)''] else Inr ''''), Inr '')'']"

definition deparse_array_sort :: "'e expr_view \<Rightarrow> 'e list \<Rightarrow> string pg" where
  "deparse_array_sort V xs = nth_arg xs 1 (\<lambda>desc.
     emit [Inr (if const_of (as_arg V desc) = Some (DBool True) then ''arrayReverseSort'' else ''arraySort''),
           Inr ''('', arg_text V xs 0, Inr '')''])"

definition deparse_to_char :: "'e expr_view \<Rightarrow> string \<Rightarrow> 'e list \<Rightarrow> string pg" where
  "deparse_to_char V tz xs = nth_arg xs 1 (\<lambda>fmt. nth_arg xs 0 (\<lambda>x.
     let (source, zone) = unwrapTimeZone V x; pgfmt = const_text V fmt in (case chfdw_translate_to_char_format pgfmt of
        None \<Rightarrow> Inl (Ereport ERRCODE_INTERNAL_ERROR (''to_char format unexpectedly rejected during deparse: '' @ pgfmt) [])
      | Some chfmt \<Rightarrow>
          emit [Inr ''('', deparse V source, Inr '', '', Inr (ch_quote_literal chfmt), appendTimeZoneArg V tz source zone,
                Inr '')'']))) "

definition base64_tail :: string where
  "base64_tail = ''), '' @ sq ''(.{76})'' @ '', '' @ sq ([BSLASH, BSLASH, CHR ''1'', BSLASH, CHR ''n'']) @ ''), ''
     @ sq (''(=+)'' @ [BSLASH, CHR ''n'', CHR ''$'']) @ '', '' @ sq [BSLASH, BSLASH, CHR ''1''] @ '')''"

definition deparse_encode :: "'e expr_view \<Rightarrow> 'e list \<Rightarrow> string pg" where
  "deparse_encode V xs = nth_arg xs 1 (\<lambda>fmt.
     let format = const_text V fmt in
     if strcaseeq format ''hex'' then emit [Inr ''lower(hex('', arg_text V xs 0, Inr ''))'']
     else if strcaseeq format ''base64'' then
       emit [Inr ''replaceRegexpAll(replaceRegexpAll(base64Encode('', arg_text V xs 0, Inr base64_tail]
     else if strcaseeq format ''base64url'' then emit [Inr ''base64URLEncode('', arg_text V xs 0, Inr '')'']
     else Inl (Ereport ERRCODE_FEATURE_NOT_SUPPORTED (''encode cannot be exported for: '' @ format) []))"

definition deparse_digest :: "'e expr_view \<Rightarrow> 'e list \<Rightarrow> string pg" where
  "deparse_digest V xs = nth_arg xs 1 (\<lambda>alg.
     case chfdw_digest_func_name (const_text V alg) of
       None \<Rightarrow> Inl (Ereport ERRCODE_INTERNAL_ERROR (''digest algorithm unexpectedly rejected during deparse: '' @ const_text V alg) [])
     | Some name \<Rightarrow> emit [Inr (name @ ''(''), arg_text V xs 0, Inr '')''])"

definition deparseJsonbExtractPath :: "'e expr_view \<Rightarrow> (string \<Rightarrow> string) \<Rightarrow> 'e list \<Rightarrow> bool \<Rightarrow> string pg" where
  "deparseJsonbExtractPath V quote_identifier xs wrap_json = nth_arg xs 1 (\<lambda>path.
     emit [Inr (if wrap_json then ''toJSONString('' else ''''), arg_text V xs 0,
           Inr (concat (map (\<lambda>k. ''.'' @ quote_identifier k) (path_keys V path))),
           Inr (if wrap_json then '')'' else '''')])"

definition clock_text :: "string \<Rightarrow> string" where
  "clock_text tz = ''nowInBlock64(6, '' @ ch_quote_literal tz @ '')''"

definition deparse_to_timestamp :: "'e expr_view \<Rightarrow> 'e list \<Rightarrow> string pg" where
  "deparse_to_timestamp V xs = emit [Inr ''toDateTime64('', arg_text V xs 0, Inr ('', 6, '' @ sq ''UTC'' @ '')'')]"

text \<open>Functions whose first two arguments change places; one of them takes an element of the result.\<close>

definition deparse_swapped :: "'e expr_view \<Rightarrow> 'e list \<Rightarrow> bool \<Rightarrow> string pg" where
  "deparse_swapped V xs subscript =
     emit [Inr ''('', arg_text V xs 1, Inr '', '', arg_text V xs 0, Inr '')'',
           (if subscript then emit [Inr ''['', arg_text V xs 2, Inr '']''] else Inr '''')]"

definition deparse_match :: "'e expr_view \<Rightarrow> 'e list \<Rightarrow> string pg" where
  "deparse_match V xs = emit [Inr ''('', arg_text V xs 0, Inr '', '', appendRegex V xs 2, Inr '')'']"

definition deparse_split_regex :: "'e expr_view \<Rightarrow> 'e list \<Rightarrow> string pg" where
  "deparse_split_regex V xs = emit [Inr ''('', appendRegex V xs 2, Inr '', '', arg_text V xs 0, Inr '')'']"

definition deparse_array_length :: "'e expr_view \<Rightarrow> 'e list \<Rightarrow> string pg" where
  "deparse_array_length V xs = emit [Inr ''(nullIf(length('', arg_text V xs 0, Inr ''), 0))'']"

definition deparse_trim_array :: "'e expr_view \<Rightarrow> 'e list \<Rightarrow> string pg" where
  "deparse_trim_array V xs = emit [Inr ''('', arg_text V xs 0, Inr '', length('', arg_text V xs 0, Inr '') - '', arg_text V xs 1, Inr '')'']"

section \<open>SQL value functions\<close>

datatype SQLValueFunctionOp =
    SVFOP_CURRENT_DATE | SVFOP_CURRENT_TIME | SVFOP_CURRENT_TIME_N | SVFOP_CURRENT_TIMESTAMP | SVFOP_CURRENT_TIMESTAMP_N
  | SVFOP_LOCALTIME | SVFOP_LOCALTIME_N | SVFOP_LOCALTIMESTAMP | SVFOP_LOCALTIMESTAMP_N | SVFOP_CURRENT_ROLE
  | SVFOP_CURRENT_USER | SVFOP_USER | SVFOP_SESSION_USER | SVFOP_CURRENT_CATALOG | SVFOP_CURRENT_SCHEMA

text \<open>The session: its time zone, and the names of the users, the database and the schema.\<close>

record session_names =
  time_zone :: string
  current_user :: "string option"
  session_user :: "string option"
  current_database :: string
  current_schema :: "string option"

definition literal_or_null :: "string option \<Rightarrow> string" where
  "literal_or_null s = (case s of None \<Rightarrow> ''NULL'' | Some v \<Rightarrow> ch_quote_literal v)"

definition deparseSQLValueFunction :: "session_names \<Rightarrow> SQLValueFunctionOp \<Rightarrow> nat \<Rightarrow> string" where
  "deparseSQLValueFunction N op typmod =
     (let tz = ch_quote_literal (time_zone N) in case op of
        SVFOP_CURRENT_DATE \<Rightarrow> ''toDate(now('' @ tz @ ''))''
      | SVFOP_CURRENT_TIME \<Rightarrow> ''toTime64(now64(6, '' @ tz @ ''), 6)''
      | SVFOP_LOCALTIME \<Rightarrow> ''toTime64(now64(6, '' @ tz @ ''), 6)''
      | SVFOP_CURRENT_TIME_N \<Rightarrow> ''toTime64(now64('' @ show_nat typmod @ '', '' @ tz @ ''), '' @ show_nat typmod @ '')''
      | SVFOP_LOCALTIME_N \<Rightarrow> ''toTime64(now64('' @ show_nat typmod @ '', '' @ tz @ ''), '' @ show_nat typmod @ '')''
      | SVFOP_CURRENT_TIMESTAMP \<Rightarrow> ''now64(6, '' @ tz @ '')''
      | SVFOP_LOCALTIMESTAMP \<Rightarrow> ''now64(6, '' @ tz @ '')''
      | SVFOP_CURRENT_TIMESTAMP_N \<Rightarrow> ''now64('' @ show_nat typmod @ '', '' @ tz @ '')''
      | SVFOP_LOCALTIMESTAMP_N \<Rightarrow> ''now64('' @ show_nat typmod @ '', '' @ tz @ '')''
      | SVFOP_CURRENT_ROLE \<Rightarrow> literal_or_null (current_user N)
      | SVFOP_CURRENT_USER \<Rightarrow> literal_or_null (current_user N)
      | SVFOP_USER \<Rightarrow> literal_or_null (current_user N)
      | SVFOP_SESSION_USER \<Rightarrow> literal_or_null (session_user N)
      | SVFOP_CURRENT_CATALOG \<Rightarrow> ch_quote_literal (current_database N)
      | SVFOP_CURRENT_SCHEMA \<Rightarrow> literal_or_null (current_schema N))"


section \<open>Function names\<close>

text \<open>The catalog row of a function: its name and whether it is an aggregate.\<close>

record name_row =
  row_name :: string
  prokind_aggregate :: bool

text \<open>
  The type and the name of an aggregate over a table with a sign column. The code allocates a
  definition and sets its function and its type only; nothing else of it is read, for an aggregate is
  never written by \<open>deparseFuncExpr\<close>, which counts parentheses. The definition for
  \<open>string_agg\<close> is cleared, so it has no parentheses.
\<close>

definition sign_aggregate :: "Oid \<Rightarrow> string \<Rightarrow> CustomObjectDef option \<Rightarrow> string \<times> CustomObjectDef option" where
  "sign_aggregate f name cdef =
     (if name = ''sum'' then (''sum'', Some ((init_custom_entry f)\<lparr>cf_type := CF_SIGN_SUM\<rparr>))
      else if name = ''avg'' then (''sum'', Some ((init_custom_entry f)\<lparr>cf_type := CF_SIGN_AVG\<rparr>))
      else if name = ''count'' then (''sum'', Some ((init_custom_entry f)\<lparr>cf_type := CF_SIGN_COUNT\<rparr>))
      else (name, cdef))"

definition aggregate_name :: "syscache \<Rightarrow> Oid \<Rightarrow> string \<times> CustomObjectDef option \<Rightarrow> string \<times> CustomObjectDef option" where
  "aggregate_name S f d =
     (if f = fmgroids S ''bool_and'' \<or> f = fmgroids S ''every'' then (''groupBitAnd'', snd d)
      else if f = fmgroids S ''bool_or'' then (''groupBitOr'', snd d)
      else if f = fmgroids S ''string_agg_text_text'' then (''groupConcat'', Some ((init_custom_entry f)\<lparr>cf_type := CF_STRING_AGG, paren_count := 0\<rparr>))
      else d)"

definition appendFunctionName ::
    "syscache \<Rightarrow> (nat \<Rightarrow> nat \<Rightarrow> bool) \<Rightarrow> bool \<Rightarrow> name_row option \<Rightarrow> CustomObjectDef option \<Rightarrow> Oid
      \<Rightarrow> (string \<times> CustomObjectDef option) pg" where
  "appendFunctionName S server_version_ge collapsing row cdef f =
     (if f = fmgroids S ''cardinality'' \<and> server_version_ge 26 9 then Inr (''arrayFlattenedLength'', cdef)
      else if cdef \<noteq> None \<and> custom_name (the cdef) \<noteq> '''' then
        Inr (if hd (custom_name (the cdef)) = CHR 0x01 then '''' else custom_name (the cdef), cdef)
      else (case row of
          None \<Rightarrow> Inl (Ereport ERRCODE_INTERNAL_ERROR ''cache lookup failed for function'' [])
        | Some r \<Rightarrow> Inr (aggregate_name S f
              (if chfdw_is_builtin f \<and> prokind_aggregate r \<and> collapsing then sign_aggregate f (row_name r) cdef
               else (row_name r, cdef)))))"

section \<open>Calls\<close>

record 'e fcall =
  fcall_id :: Oid
  fcall_format :: CoercionForm
  fcall_result :: Oid
  fcall_typmod :: int
  fcall_args :: "'e list"

text \<open>
  What surrounds a call: the catalogs, the definition and the row of its function, the names of
  the session, the version of the server, the quoting of identifiers, the compiler of regular
  expressions, the name of the type that a cast gives, and whether the table has a sign column.
\<close>

record call_env =
  call_cats :: syscache
  call_def :: "Oid \<Rightarrow> CustomObjectDef option"
  call_row :: "Oid \<Rightarrow> name_row option"
  call_names :: session_names
  call_version_ge :: "nat \<Rightarrow> nat \<Rightarrow> bool"
  call_quote :: "string \<Rightarrow> string"
  call_captures :: "string \<Rightarrow> bool pg"
  call_type_name :: "Oid \<Rightarrow> int \<Rightarrow> string pg"
  call_collapsing :: bool

text \<open>The special forms, by the type of the definition; other calls have none.\<close>

definition special_form :: "'e expr_view \<Rightarrow> call_env \<Rightarrow> custom_object_type \<Rightarrow> 'e fcall \<Rightarrow> string pg option" where
  "special_form V G ty node =
     (let xs = fcall_args node; tz = time_zone (call_names G) in case ty of
        CF_JSON_EXTRACT_PATH_TEXT \<Rightarrow> Some (deparseJsonbExtractPath V (call_quote G) xs False)
      | CF_JSON_EXTRACT_PATH \<Rightarrow> Some (deparseJsonbExtractPath V (call_quote G) xs True)
      | CF_CURRENT_DATABASE \<Rightarrow> Some (Inr (deparseSQLValueFunction (call_names G) SVFOP_CURRENT_CATALOG 0))
      | CF_CURRENT_SCHEMA \<Rightarrow> Some (Inr (deparseSQLValueFunction (call_names G) SVFOP_CURRENT_SCHEMA 0))
      | CF_CLOCK_TIMESTAMP \<Rightarrow> Some (Inr (clock_text tz))
      | CF_TO_TIMESTAMP \<Rightarrow> Some (deparse_to_timestamp V xs)
      | CF_DATE_TRUNC \<Rightarrow> Some (deparse_date_trunc V tz xs)
      | CF_DATE_PART \<Rightarrow> Some (deparse_date_part V tz xs)
      | CF_TIMEZONE \<Rightarrow> Some (deparse_timezone V tz (fcall_result node) xs)
      | CF_ARRAY_PREPEND \<Rightarrow> Some (deparse_swapped V xs False)
      | CF_STRING_TO_ARRAY \<Rightarrow> Some (deparse_swapped V xs False)
      | CF_STRING_TO_ARRAY_PART \<Rightarrow> Some (deparse_swapped V xs True)
      | CF_MATCH \<Rightarrow> Some (deparse_match V xs)
      | CF_SPLIT_BY_REGEX \<Rightarrow> Some (deparse_split_regex V xs)
      | CF_REPLACE_REGEX \<Rightarrow> Some (deparse_regexp_replace V xs)
      | CF_REGEX_PG_MATCH \<Rightarrow> Some (deparse_regexp_match V (call_captures G) xs)
      | CF_ARRAY_LENGTH \<Rightarrow> Some (deparse_array_length V xs)
      | CF_ARRAY_POSITION \<Rightarrow> Some (deparse_array_position V xs)
      | CF_TRIM_ARRAY \<Rightarrow> Some (deparse_trim_array V xs)
      | CF_ARRAY_SORT_DESC \<Rightarrow> Some (deparse_array_sort V xs)
      | CF_ARRAY_FILL \<Rightarrow> Some (deparse_swapped V xs False)
      | CF_TO_CHAR \<Rightarrow> Some (deparse_to_char V tz xs)
      | CF_ENCODE \<Rightarrow> Some (deparse_encode V xs)
      | CF_DIGEST \<Rightarrow> Some (deparse_digest V xs)
      | _ \<Rightarrow> None)"

text \<open>A call with its arguments in order, and as many closing parentheses as its name needs.\<close>

definition plain_call :: "'e expr_view \<Rightarrow> CustomObjectDef option \<Rightarrow> 'e list \<Rightarrow> string pg" where
  "plain_call V cdef xs =
     emit [Inr ''('', comma_args (deparse V) xs, Inr (replicate (case cdef of Some d \<Rightarrow> paren_count d | None \<Rightarrow> 1) (CHR '')''))]"

definition deparse_cast :: "'e expr_view \<Rightarrow> call_env \<Rightarrow> 'e fcall \<Rightarrow> string pg" where
  "deparse_cast V G node = nth_arg (fcall_args node) 0 (\<lambda>x.
     let widen = (fcall_result node = NUMERICOID \<and> expr_type V x = FLOAT4OID)
     in emit [Inr (if widen then ''cast(toFloat64('' else ''cast(''), deparse V x, Inr (if widen then ''), '' else '', ''),
              rbind (call_type_name G (fcall_result node) (fcall_typmod node)) (\<lambda>t. Inr (ch_quote_literal (''Nullable('' @ t @ '')''))), Inr '')''])"

definition deparse_to_date :: "'e expr_view \<Rightarrow> string \<Rightarrow> 'e list \<Rightarrow> string pg" where
  "deparse_to_date V tz xs = nth_arg xs 0 (\<lambda>x. let (source, zone) = unwrapTimeZone V x
     in emit [Inr ''toDate32('', deparse V source, appendTimeZoneArg V tz source zone, Inr '')''])"

definition deparseFuncExpr :: "'e expr_view \<Rightarrow> call_env \<Rightarrow> 'e fcall \<Rightarrow> string pg" where
  "deparseFuncExpr V G node =
     (let f = fcall_id node; xs = fcall_args node; tz = time_zone (call_names G); is = (\<lambda>n. f = fmgroids (call_cats G) n)
      in if fcall_format node = COERCE_IMPLICIT_CAST then arg_text V xs 0
         else if is ''date_timestamp'' \<or> is ''date_timestamptz'' then deparse_to_date V tz xs
         else if is ''timestamp_date'' \<or> is ''timestamptz_date''
         then emit [Inr ''toDateTime64('', arg_text V xs 0, Inr ('', 6, '' @ ch_quote_literal tz @ '')'')]
         else if fcall_format node = COERCE_EXPLICIT_CAST then deparse_cast V G node
         else rbind (appendFunctionName (call_cats G) (call_version_ge G) (call_collapsing G) (call_row G f) (call_def G f) f) (\<lambda>(name, cdef).
           emit [Inr name,
                 (case cdef of
                    Some d \<Rightarrow> (case special_form V G (cf_type d) node of Some t \<Rightarrow> t | None \<Rightarrow> plain_call V cdef xs)
                  | None \<Rightarrow> plain_call V cdef xs)]))"


section \<open>The text is well-formed\<close>

definition args_wf :: "'e expr_view \<Rightarrow> bool" where
  "args_wf V \<longleftrightarrow> (\<forall>e s. deparse V e = Inr s \<longrightarrow> wf_text s)"

lemma args_wfD: "deparse V e = Inr s \<Longrightarrow> args_wf V \<Longrightarrow> wf_text s"
  by (simp add: args_wf_def)

lemma nth_arg_Inr: "nth_arg xs n f = Inr t \<longleftrightarrow> n < length xs \<and> f (xs ! n) = Inr t"
  by (simp add: nth_arg_def)

lemma scan_utc [simp]: "scan_text (sq ''UTC'') (Code st) = Code st"
  by (simp add: sq_def)

lemma quoted_flags: "scan_text (write_flags w) (Quoted SQUOTE st) = Quoted SQUOTE st"
  by (simp add: write_flags_def)

lemma scan_flags [simp]: "scan_text (sq (CHR ''('' # CHR ''?'' # appendRegexFlags s @ '')'')) (Code st) = Code st"
  by (simp add: sq_def appendRegexFlags_def quoted_flags)

lemma wf_base64_tail: "scan_text base64_tail (Code (CHR '')'' # CHR '')'' # CHR '')'' # st)) = Code st"
  by (simp add: base64_tail_def sq_def)

lemma wf_time_zone_arg: "appendTimeZoneArg V tz x zone = Inr t \<Longrightarrow> args_wf V \<Longrightarrow> wf_text t"
  by (auto simp: appendTimeZoneArg_def rbind_Inr_iff wf_text_def split: option.splits if_splits dest!: args_wfD)

lemma wf_wall_clock: "appendWallClock V tz x zone = Inr t \<Longrightarrow> args_wf V \<Longrightarrow> wf_text t"
  unfolding wf_text_def
  by (auto simp: appendWallClock_def Let_def rbind_Inr_iff split: option.splits if_splits dest!: args_wfD)

lemma wf_regex: "appendRegex V xs n = Inr t \<Longrightarrow> args_wf V \<Longrightarrow> wf_text t"
  unfolding wf_text_def
  by (auto simp: appendRegex_def rbind_Inr_iff nth_arg_Inr split: if_splits dest!: args_wfD)


lemma wf_trunc_units: "map_of trunc_units u = Some f \<Longrightarrow> scan_text f (Code st) = Code st"
proof -
  have "list_all (plain \<circ> snd) trunc_units" by code_simp
  then show "map_of trunc_units u = Some f \<Longrightarrow> scan_text f (Code st) = Code st"
    by (auto simp: list_all_iff dest!: map_of_SomeD intro!: wf_textD plain_wf)
qed

lemma wf_part_units: "map_of part_units u = Some f \<Longrightarrow> scan_text f (Code st) = Code st"
proof -
  have "list_all (plain \<circ> snd) part_units" by code_simp
  then show "map_of part_units u = Some f \<Longrightarrow> scan_text f (Code st) = Code st"
    by (auto simp: list_all_iff dest!: map_of_SomeD intro!: wf_textD plain_wf)
qed

lemmas wf_pieces = args_wfD wf_time_zone_arg wf_wall_clock wf_regex

lemma wf_date_trunc: "deparse_date_trunc V tz xs = Inr t \<Longrightarrow> args_wf V \<Longrightarrow> wf_text t"
  unfolding wf_text_def
  by (auto simp: deparse_date_trunc_def Let_def rbind_Inr_iff nth_arg_Inr wf_trunc_units split: option.splits if_splits dest!: wf_pieces)

lemma wf_date_part: "deparse_date_part V tz xs = Inr t \<Longrightarrow> args_wf V \<Longrightarrow> wf_text t"
  unfolding wf_text_def
  by (auto simp: deparse_date_part_def Let_def rbind_Inr_iff nth_arg_Inr wf_part_units split: option.splits if_splits prod.splits dest!: wf_pieces)

lemma wf_timezone: "deparse_timezone V tz ty xs = Inr t \<Longrightarrow> args_wf V \<Longrightarrow> wf_text t"
  unfolding wf_text_def
  by (auto simp: deparse_timezone_def Let_def rbind_Inr_iff nth_arg_Inr split: option.splits if_splits prod.splits dest!: wf_pieces)

lemma wf_regexp: "deparse_regexp_replace V xs = Inr t \<Longrightarrow> args_wf V \<Longrightarrow> wf_text t"
    "deparse_regexp_match V c xs = Inr t \<Longrightarrow> args_wf V \<Longrightarrow> wf_text t"
  unfolding wf_text_def
  by (auto simp: deparse_regexp_replace_def deparse_regexp_match_def Let_def rbind_Inr_iff nth_arg_Inr split: if_splits dest!: wf_pieces)

lemma wf_array_forms: "deparse_array_position V xs = Inr t \<Longrightarrow> args_wf V \<Longrightarrow> wf_text t"
    "deparse_array_sort V xs = Inr t \<Longrightarrow> args_wf V \<Longrightarrow> wf_text t"
  unfolding wf_text_def
  by (auto simp: deparse_array_position_def deparse_array_sort_def Let_def rbind_Inr_iff nth_arg_Inr split: if_splits dest!: wf_pieces)

lemma wf_to_char: "deparse_to_char V tz xs = Inr t \<Longrightarrow> args_wf V \<Longrightarrow> wf_text t"
  unfolding wf_text_def
  by (auto simp: deparse_to_char_def Let_def rbind_Inr_iff nth_arg_Inr split: option.splits prod.splits dest!: wf_pieces)

lemma digest_names_plain: "chfdw_digest_func_name a = Some n \<Longrightarrow> scan_text n (Code st) = Code st"
proof -
  have "list_all (plain \<circ> snd) digest_func_map" by code_simp
  then show "chfdw_digest_func_name a = Some n \<Longrightarrow> scan_text n (Code st) = Code st"
    by (auto simp: chfdw_digest_func_name_def list_all_iff dest!: findD intro!: wf_textD plain_wf)
qed

lemma wf_encode_digest: "deparse_encode V xs = Inr t \<Longrightarrow> args_wf V \<Longrightarrow> wf_text t"
    "deparse_digest V xs = Inr t \<Longrightarrow> args_wf V \<Longrightarrow> wf_text t"
  unfolding wf_text_def
  by (auto simp: deparse_encode_def deparse_digest_def Let_def rbind_Inr_iff nth_arg_Inr wf_base64_tail digest_names_plain
      split: if_splits option.splits dest!: wf_pieces)

text \<open>
  PostgreSQL's \<open>quote_identifier\<close>: an identifier is returned as it is when it consists of lower case
  letters, digits and underscores and is no keyword, and otherwise between double quotes, each
  double quote in it doubled. A backslash is not escaped, and ClickHouse reads one as an escape.
\<close>

definition safe_identifier :: "string \<Rightarrow> bool" where
  "safe_identifier k \<longleftrightarrow> list_all (\<lambda>c. isdigit c \<or> c = CHR ''_'' \<or> c \<in> set ''abcdefghijklmnopqrstuvwxyz'') k"

definition double_quoted :: "string \<Rightarrow> string" where
  "double_quoted k = CHR 0x22 # concat (map (\<lambda>c. if c = CHR 0x22 then [c, c] else [c]) k) @ [CHR 0x22]"

definition quotes_identifiers :: "(string \<Rightarrow> string) \<Rightarrow> bool" where
  "quotes_identifiers q \<longleftrightarrow> (\<forall>k. q k = double_quoted k \<or> safe_identifier k \<and> q k = k)"

lemma safe_identifier_plain: "safe_identifier k \<Longrightarrow> plain k"
  by (auto simp: safe_identifier_def plain_def list_all_iff isdigit_def)

lemma double_quoted_wf: "BSLASH \<notin> set k \<Longrightarrow> wf_text (double_quoted k)"
proof -
  assume "BSLASH \<notin> set k"
  then have "scan_text (concat (map (\<lambda>c. if c = CHR 0x22 then [c, c] else [c]) k)) (Quoted (CHR 0x22) st) = Quoted (CHR 0x22) st" for st
    by (induction k) auto
  then show ?thesis by (simp add: wf_text_def double_quoted_def)
qed

lemma quoted_key_wf: "quotes_identifiers q \<Longrightarrow> BSLASH \<notin> set k \<Longrightarrow> wf_text (q k)"
  unfolding quotes_identifiers_def by (metis double_quoted_wf plain_wf safe_identifier_plain)

text \<open>A key that ends in a backslash escapes the closing quote, and the text after it is read as a part of the key.\<close>

lemma backslash_key_open: "scan_text (double_quoted [CHR ''a'', BSLASH]) (Code st) = Quoted (CHR 0x22) st"
  by (simp add: double_quoted_def)

text \<open>The path keys of the arguments of a call have no backslash.\<close>

definition keys_plain :: "'e expr_view \<Rightarrow> 'e list \<Rightarrow> bool" where
  "keys_plain V xs \<longleftrightarrow> (\<forall>e \<in> set xs. \<forall>k \<in> set (path_keys V e). BSLASH \<notin> set k)"

lemma wf_json_path:
  assumes "args_wf V" and "quotes_identifiers q" and "keys_plain V xs" and "deparseJsonbExtractPath V q xs w = Inr t"
  shows "wf_text t"
proof -
  have keys: "scan_text (concat (map (\<lambda>k. ''.'' @ q k) ks)) (Code st) = Code st" if "\<forall>k \<in> set ks. BSLASH \<notin> set k" for ks st
    using that quoted_key_wf [OF assms(2)] by (induction ks) simp_all
  have "1 < length xs" using assms(4) by (simp add: deparseJsonbExtractPath_def nth_arg_Inr)
  then have "\<forall>k \<in> set (path_keys V (xs ! 1)). BSLASH \<notin> set k" using assms(3) nth_mem unfolding keys_plain_def by blast
  with assms(1,4) keys show ?thesis
    unfolding wf_text_def
    by (auto simp: deparseJsonbExtractPath_def rbind_Inr_iff nth_arg_Inr split: if_splits dest!: wf_pieces)
qed

lemma plain_show_nat: "plain (show_nat n)"
  using show_nat_digits [of n] by (auto simp: plain_def isdigit_def list_all_iff)

lemma wf_literal_or_null [simp]: "scan_text (literal_or_null s) (Code st) = Code st"
  by (cases s) (simp_all add: literal_or_null_def)

lemma wf_sql_value_function: "wf_text (deparseSQLValueFunction N op typmod)"
  unfolding wf_text_def
  by (cases op) (simp_all add: deparseSQLValueFunction_def Let_def wf_textD [OF plain_wf [OF plain_show_nat]])


lemma wf_clock_text: "wf_text (clock_text tz)"
  unfolding wf_text_def by (simp add: clock_text_def)

lemma wf_small_forms:
  "deparse_to_timestamp V xs = Inr t \<Longrightarrow> args_wf V \<Longrightarrow> wf_text t"
  "deparse_swapped V xs b = Inr t \<Longrightarrow> args_wf V \<Longrightarrow> wf_text t"
  "deparse_match V xs = Inr t \<Longrightarrow> args_wf V \<Longrightarrow> wf_text t"
  "deparse_split_regex V xs = Inr t \<Longrightarrow> args_wf V \<Longrightarrow> wf_text t"
  "deparse_array_length V xs = Inr t \<Longrightarrow> args_wf V \<Longrightarrow> wf_text t"
  "deparse_trim_array V xs = Inr t \<Longrightarrow> args_wf V \<Longrightarrow> wf_text t"
  unfolding wf_text_def
  by (auto simp: deparse_to_timestamp_def deparse_swapped_def deparse_match_def deparse_split_regex_def deparse_array_length_def
      deparse_trim_array_def rbind_Inr_iff nth_arg_Inr split: if_splits dest!: wf_pieces)

lemmas wf_forms = wf_date_trunc wf_date_part wf_timezone wf_regexp wf_array_forms wf_to_char wf_encode_digest wf_small_forms

lemma wf_special_form:
  assumes "special_form V G ty node = Some (Inr t)" and "args_wf V" and "quotes_identifiers (call_quote G)"
    and "keys_plain V (fcall_args node)"
  shows "wf_text t"
  using assms(1) wf_json_path [OF assms(2,3,4)] assms(2)
  by (cases ty) (auto simp: special_form_def Let_def wf_sql_value_function wf_clock_text dest: wf_forms)

lemma comma_args_wf: "comma_args (deparse V) xs = Inr t \<Longrightarrow> args_wf V \<Longrightarrow> wf_text t"
proof (induction "deparse V" xs arbitrary: t rule: comma_args.induct)
  case (3 x y zs)
  then obtain a b where "deparse V x = Inr a" "comma_args (deparse V) (y # zs) = Inr b" "t = a @ '', '' @ b"
    by (auto simp: rbind_Inr_iff)
  with 3 have "wf_text a" "wf_text b" by (auto dest: args_wfD)
  then show ?case by (simp add: wf_text_def \<open>t = a @ '', '' @ b\<close>)
qed (auto dest: args_wfD)

text \<open>
  A definition fits its text: its name leaves as many parentheses open as the call closes beyond
  its own, and a call with a special form has a name that is complete.
\<close>

definition shown_name :: "CustomObjectDef \<Rightarrow> string" where
  "shown_name d = (if custom_name d \<noteq> '''' \<and> hd (custom_name d) = CHR 0x01 then '''' else custom_name d)"

definition opens :: "nat \<Rightarrow> string \<Rightarrow> bool" where
  "opens n s \<longleftrightarrow> (\<forall>st. scan_text s (Code st) = Code (replicate n (CHR '')'') @ st))"

definition special_types :: "custom_object_type list" where
  "special_types = [CF_JSON_EXTRACT_PATH_TEXT, CF_JSON_EXTRACT_PATH, CF_CURRENT_DATABASE, CF_CURRENT_SCHEMA, CF_CLOCK_TIMESTAMP,
     CF_TO_TIMESTAMP, CF_DATE_TRUNC, CF_DATE_PART, CF_TIMEZONE, CF_ARRAY_PREPEND, CF_STRING_TO_ARRAY, CF_STRING_TO_ARRAY_PART,
     CF_MATCH, CF_SPLIT_BY_REGEX, CF_REPLACE_REGEX, CF_REGEX_PG_MATCH, CF_ARRAY_LENGTH, CF_ARRAY_POSITION, CF_TRIM_ARRAY,
     CF_ARRAY_SORT_DESC, CF_ARRAY_FILL, CF_TO_CHAR, CF_ENCODE, CF_DIGEST]"

lemma special_form_types: "special_form V G ty node = None \<longleftrightarrow> ty \<notin> set special_types"
  by (cases ty) (simp_all add: special_form_def special_types_def Let_def)

definition def_ok :: "CustomObjectDef \<Rightarrow> bool" where
  "def_ok d \<longleftrightarrow> 0 < paren_count d \<and> opens (paren_count d - 1) (shown_name d)
     \<and> (cf_type d \<in> set special_types \<longrightarrow> paren_count d = 1)
     \<and> (custom_name d = '''' \<longrightarrow> cf_type d \<notin> set special_types)"

lemma plain_opens: "plain s \<Longrightarrow> opens 0 s"
  by (simp add: opens_def plain_wf)

text \<open>The rows of the tables of built-in functions, and the names of the extensions' functions.\<close>

definition count_opens :: "string \<Rightarrow> nat" where
  "count_opens s = length (filter (\<lambda>c. c = CHR ''('') s)"

definition row_ok :: "custom_object_type \<times> string option \<times> nat \<Rightarrow> bool" where
  "row_ok r = (case r of (ty, name, parens) \<Rightarrow>
     0 < parens \<and> (ty \<in> set special_types \<longrightarrow> parens = 1 \<and> name \<noteq> None)
     \<and> (case name of None \<Rightarrow> parens = 1
        | Some n \<Rightarrow> n \<noteq> '''' \<and> length n < NAMEDATALEN
            \<and> (n = MANY_NAMES \<and> parens = 1
               \<or> hd n \<noteq> CHR 0x01 \<and> plain (filter (\<lambda>c. c \<noteq> CHR ''('') n) \<and> count_opens n = parens - 1)))"

lemma builtin_rows_ok: "list_all (row_ok \<circ> snd) (builtin_funcs_scalar @ builtin_funcs_more @ builtin_funcs_same)"
  by code_simp


lemma opens_count: "plain (filter (\<lambda>c. c \<noteq> CHR ''('') n) \<Longrightarrow> opens (count_opens n) n"
  unfolding opens_def
proof (induction n)
  case (Cons c n)
  show ?case
  proof (cases "c = CHR ''(''")
    case True
    with Cons have "scan_text n (Code (CHR '')'' # st)) = Code (replicate (count_opens n) (CHR '')'') @ CHR '')'' # st)" for st
      by simp
    with True show ?thesis by (simp add: count_opens_def replicate_app_Cons_same)
  next
    case False
    with Cons have "scan_text n (Code st) = Code (replicate (count_opens n) (CHR '')'') @ st)" for st by (simp add: plain_def)
    with False Cons.prems show ?thesis by (simp add: count_opens_def plain_def)
  qed
qed (simp add: count_opens_def)

lemma plain_def_ok:
  assumes "plain (custom_name d)" and "paren_count d = 1" and "cf_type d \<in> set special_types \<Longrightarrow> custom_name d \<noteq> ''''"
  shows "def_ok d"
  using assms plain_opens [of "custom_name d"] plain_opens [of "''''"]
  by (auto simp: def_ok_def shown_name_def plain_def)

lemma find_list_all: "find P xs = Some x \<Longrightarrow> list_all Q xs \<Longrightarrow> Q x"
  by (induction xs) (auto split: if_splits)

lemma builtin_def_ok:
  assumes "lookup_builtin_func S f = Some (ty, name, parens)"
  shows "def_ok ((init_custom_entry f)\<lparr>cf_type := ty, paren_count := parens,
      custom_name := (case name of Some n \<Rightarrow> name_field n | None \<Rightarrow> '''')\<rparr>)"
proof -
  obtain ls where "find (\<lambda>(labels, _). f \<in> fmgroids S ` set labels)
       (builtin_funcs_scalar @ builtin_funcs_more @ builtin_funcs_same) = Some (ls, ty, name, parens)"
    using assms by (auto simp: lookup_builtin_func_def)
  from find_list_all [OF this builtin_rows_ok] have ok: "row_ok (ty, name, parens)" by simp
  show ?thesis
  proof (cases name)
    case None
    with ok have "parens = 1" "ty \<notin> set special_types" by (simp_all add: row_ok_def)
    with None show ?thesis by (intro plain_def_ok) (simp_all add: plain_def)
  next
    case (Some n)
    with ok have n: "n \<noteq> ''''" "name_field n = n" "0 < parens" "ty \<in> set special_types \<longrightarrow> parens = 1"
      by (simp_all add: row_ok_def name_field_def)
    from ok Some consider "n = MANY_NAMES" "parens = 1"
      | "hd n \<noteq> CHR 0x01" "plain (filter (\<lambda>c. c \<noteq> CHR ''('') n)" "count_opens n = parens - 1"
      unfolding row_ok_def by auto
    then have "opens (parens - 1) (if hd n = CHR 0x01 then '''' else n)"
    proof cases
      case 1
      then show ?thesis by (simp add: opens_def)
    next
      case 2
      with opens_count [OF 2(2)] show ?thesis by simp
    qed
    with Some n show ?thesis by (simp add: def_ok_def shown_name_def split: if_split_asm)
  qed
qed

lemma map_names_plain: "map_of m k = Some n \<Longrightarrow> list_all (plain \<circ> snd) m \<Longrightarrow> plain n"
  by (auto simp: list_all_iff dest!: map_of_SomeD)

lemma plain_take_drop: "plain s \<Longrightarrow> plain (take n s)" "plain s \<Longrightarrow> plain (drop n s)"
  by (auto simp: plain_def dest: in_set_takeD in_set_dropD)

lemma extension_function_plain:
  assumes "extension_function ext p = Some (ty, name)" and "plain (proname p)"
  shows "plain name \<and> (ty \<in> set special_types \<longrightarrow> name \<noteq> '''')"
proof -
  have maps: "list_all (plain \<circ> snd) re2_func_map" "list_all (plain \<circ> snd) ch_func_map" by code_simp+
  have "plain (re2_func_name (proname p))"
    using assms(2) maps(1) by (auto simp: re2_func_name_def plain_take_drop split: option.splits dest: map_names_plain)
  moreover have "ch_func_name (proname p) = Some n \<Longrightarrow> plain n" for n
    using maps(2) by (auto simp: ch_func_name_def dest: map_names_plain)
  ultimately show ?thesis
    using assms(1) by (auto simp: extension_function_def special_types_def split: if_splits) (simp_all add: plain_def)
qed

lemma pgvector_name_plain: "pgvector_name p = Some (ty, name) \<Longrightarrow> plain name \<and> ty \<notin> set special_types"
  by (auto simp: pgvector_name_def special_types_def plain_def split: if_splits)

lemma function_def_ok:
  assumes "function_def S f = Inr (Some d)" and "\<And>f p. proc_row S f = Some p \<Longrightarrow> plain (proname p)"
  shows "def_ok d"
proof (cases "chfdw_is_builtin f")
  case True
  with assms(1) builtin_def_ok [of S f] show ?thesis by (auto simp: function_def_def)
next
  case False
  have e: "def_ok ((init_custom_entry f)\<lparr>cf_type := ty, custom_name := name_field name\<rparr>)"
    if "plain name" "ty \<in> set special_types \<longrightarrow> name \<noteq> ''''" for ty name
    using that by (intro plain_def_ok) (auto simp: name_field_def plain_take_drop init_custom_entry_def)
  obtain x where x: "extension_of S ProcedureRelationId f = Inr (Some x)"
    using assms(1) False by (cases "extension_of S ProcedureRelationId f") (auto simp: function_def_def split: option.splits)
  from assms(1) False x obtain p ty name where p: "proc_row S f = Some p" and d: "d = (init_custom_entry f)\<lparr>cf_type := ty, custom_name := name_field name\<rparr>"
    and t: "extension_function x p = Some (ty, name) \<or> pgvector_name p = Some (ty, name)"
    by (cases "proc_row S f") (auto simp: function_def_def rbind_Inr_iff entry_def_def split: if_splits)
  from t assms(2) [OF p] show ?thesis unfolding d
    by (intro e) (auto dest: extension_function_plain pgvector_name_plain)
qed

text \<open>The name that is written fits the definition that goes with it.\<close>

definition fits :: "string \<Rightarrow> CustomObjectDef option \<Rightarrow> bool" where
  "fits name c \<longleftrightarrow> (case c of
     None \<Rightarrow> opens 0 name
   | Some d \<Rightarrow> 0 < paren_count d \<and> opens (paren_count d - 1) name \<and> (cf_type d \<in> set special_types \<longrightarrow> paren_count d = 1))"

definition single_paren :: "CustomObjectDef option \<Rightarrow> bool" where
  "single_paren c \<longleftrightarrow> (case c of None \<Rightarrow> True | Some d \<Rightarrow> paren_count d = 1)"

lemma fits_plain: "plain name \<Longrightarrow> single_paren c \<Longrightarrow> fits name c"
  using plain_opens [of name] by (auto simp: fits_def single_paren_def split: option.splits)

lemma opens_Nil [simp]: "opens n '''' \<longleftrightarrow> n = 0"
  by (simp add: opens_def)

lemma unnamed_single_paren: "def_ok d \<Longrightarrow> custom_name d = '''' \<Longrightarrow> paren_count d = 1"
  by (simp add: def_ok_def shown_name_def)

lemma aggregate_name_plain:
  "plain name \<Longrightarrow> single_paren c \<Longrightarrow> f \<noteq> fmgroids S ''string_agg_text_text'' \<Longrightarrow>
    plain (fst (aggregate_name S f (name, c))) \<and> single_paren (snd (aggregate_name S f (name, c)))"
  by (simp add: aggregate_name_def single_paren_def) (simp add: plain_def)

text \<open>An aggregate is written elsewhere.\<close>

definition no_aggregate :: "syscache \<Rightarrow> name_row option \<Rightarrow> Oid \<Rightarrow> bool" where
  "no_aggregate S row f \<longleftrightarrow> (case row of None \<Rightarrow> True | Some r \<Rightarrow> \<not> prokind_aggregate r) \<and> f \<noteq> fmgroids S ''string_agg_text_text''"

lemma function_name_fits:
  assumes n: "appendFunctionName S v w row c f = Inr (name, d)"
    and row: "\<And>r. row = Some r \<Longrightarrow> plain (row_name r)"
    and c: "\<And>e. c = Some e \<Longrightarrow> def_ok e"
    and card: "f = fmgroids S ''cardinality'' \<Longrightarrow> single_paren c"
    and agg: "no_aggregate S row f"
  shows "fits name d"
proof -
  consider "name = ''arrayFlattenedLength''" "d = c" "f = fmgroids S ''cardinality''"
    | e where "c = Some e" "custom_name e \<noteq> ''''" "name = shown_name e" "d = c"
    | r where "row = Some r" "\<And>e. c = Some e \<Longrightarrow> custom_name e = ''''"
        "(name, d) = aggregate_name S f (row_name r, c)"
  proof (cases "c \<noteq> None \<and> custom_name (the c) \<noteq> ''''")
    case True
    with n that(1,2) show ?thesis by (auto simp: appendFunctionName_def shown_name_def split: if_split_asm)
  next
    case unnamed: False
    show ?thesis
    proof (cases "f = fmgroids S ''cardinality'' \<and> v 26 9")
      case True
      with n that(1) show ?thesis by (auto simp: appendFunctionName_def)
    next
      case False
      with n unnamed agg obtain r where "row = Some r" "(name, d) = aggregate_name S f (row_name r, c)"
        unfolding appendFunctionName_def no_aggregate_def by (cases c) (simp_all split: option.split_asm)
      moreover from unnamed have "custom_name e = ''''" if "c = Some e" for e using that by simp
      ultimately show ?thesis by (intro that(3))
    qed
  qed
  then show ?thesis
  proof cases
    case 1
    with card show ?thesis by (intro fits_plain) (simp_all add: plain_def)
  next
    case 2
    with c [OF 2(1)] show ?thesis by (simp add: fits_def def_ok_def)
  next
    case 3
    have "single_paren c"
      using 3(2) c by (auto simp: single_paren_def unnamed_single_paren split: option.splits)
    with row [OF 3(1)] agg have "plain name \<and> single_paren d"
      using aggregate_name_plain [of "row_name r" c f S] by (simp add: 3(3) [symmetric] no_aggregate_def)
    then show ?thesis by (intro fits_plain) simp_all
  qed
qed

lemma emit_two: "emit [Inr a, p] = Inr t \<longleftrightarrow> (\<exists>u. p = Inr u \<and> t = a @ u)"
  by (auto simp: rbind_Inr_iff)

lemma scan_closers: "scan_text (replicate n (CHR '')'')) (Code (replicate n (CHR '')'') @ st)) = Code st"
  by (induction n) simp_all

lemma plain_call_closes:
  assumes "plain_call V c xs = Inr t" and "args_wf V" and "fits name c"
  shows "wf_text (name @ t)"
proof -
  let ?n = "case c of Some d \<Rightarrow> paren_count d | None \<Rightarrow> 1"
  obtain a where a: "comma_args (deparse V) xs = Inr a" and t: "t = ''('' @ a @ replicate ?n (CHR '')'')"
    using assms(1) by (auto simp: plain_call_def rbind_Inr_iff)
  have "opens (?n - 1) name" "0 < ?n" using assms(3) by (auto simp: fits_def split: option.splits)
  then have "scan_text name (Code st) = Code (replicate (?n - 1) (CHR '')'') @ st)" for st by (simp add: opens_def)
  moreover have "scan_text (replicate ?n (CHR '')'')) (Code (CHR '')'' # replicate (?n - 1) (CHR '')'') @ st)) = Code st" for st
    using scan_closers [of ?n st] \<open>0 < ?n\<close> by (cases ?n) simp_all
  ultimately show ?thesis
    using comma_args_wf [OF a assms(2)] by (simp add: wf_text_def t)
qed

text \<open>
  Numbers as arguments, two of which stand for a text constant and one for an array of path keys,
  and a session in which \<open>md5\<close> has the OID 2311 and \<open>jsonb_extract_path_text\<close> the OID 3940.
\<close>

definition ex_view :: "nat expr_view" where
  "ex_view = \<lparr>deparse = (\<lambda>n. Inr (show_nat n)),
     as_arg = (\<lambda>n. if n = 0 then ConstArg (Some (DText ''decade'')) else if n = 1 then ConstArg (Some (DText ''day''))
       else if n = 6 then ConstArg (Some (DText ''[a'')) else OtherArg),
     expr_type = (\<lambda>_. TSTZOID), stripped_type = (\<lambda>_. TSTZOID), timezone_call = (\<lambda>_. None),
     path_keys = (\<lambda>n. if n = 5 then [''k1'', ''A(\"b''] else [])\<rparr>"

definition ex_call_cats :: syscache where
  "ex_call_cats = (ex_syscache False)\<lparr>fmgroids := (\<lambda>n. if n = ''md5_text'' then 2311 else if n = ''jsonb_extract_path_text'' then 3940 else 1)\<rparr>"

definition ex_call_env :: call_env where
  "ex_call_env = \<lparr>call_cats = ex_call_cats,
     call_def = (\<lambda>f. case function_def ex_call_cats f of Inr d \<Rightarrow> d | Inl _ \<Rightarrow> None), call_row = Map.empty,
     call_names = \<lparr>time_zone = ''UTC'', current_user = None, session_user = None, current_database = ''d'', current_schema = None\<rparr>,
     call_version_ge = (\<lambda>_ _. False), call_quote = (\<lambda>k. if safe_identifier k then k else double_quoted k),
     call_captures = (\<lambda>r. if CHR ''['' \<in> set r then Inl (Ereport ERRCODE_INVALID_REGULAR_EXPRESSION ''invalid regular expression'' []) else Inr False),
     call_type_name = (\<lambda>_ _. Inr ''String''), call_collapsing = False\<rparr>"

definition ex_call :: "Oid \<Rightarrow> nat list \<Rightarrow> nat fcall" where
  "ex_call f xs = \<lparr>fcall_id = f, fcall_format = COERCE_EXPLICIT_CALL, fcall_result = 25, fcall_typmod = -1, fcall_args = xs\<rparr>"

lemma ex_view_wf: "args_wf ex_view"
  by (simp add: args_wf_def ex_view_def plain_wf plain_show_nat)

lemma ex_call_rows: "map_option paren_count (call_def ex_call_env 1) = Some 1"
  "call_def ex_call_env 2311
     = Some \<lparr>cf_oid = 2311, cf_type = CF_USUAL, custom_name = ''lower(hex(MD5'', paren_count = 3\<rparr>"
  by code_simp+

lemma ex_view_keys: "keys_plain ex_view xs"
  by (auto simp: keys_plain_def ex_view_def split: if_splits)

lemma ex_quotes: "quotes_identifiers (call_quote ex_call_env)"
  by (simp add: quotes_identifiers_def ex_call_env_def)


section \<open>Calls that are shipped have a text\<close>

text \<open>The number of arguments that a special form reads; every function of its type declares them.\<close>

definition special_args :: "custom_object_type \<Rightarrow> nat" where
  "special_args ty =
     (if ty \<in> {CF_CURRENT_DATABASE, CF_CURRENT_SCHEMA, CF_CLOCK_TIMESTAMP} then 0
      else if ty \<in> {CF_TO_TIMESTAMP, CF_ARRAY_LENGTH} then 1
      else if ty \<in> {CF_REPLACE_REGEX, CF_STRING_TO_ARRAY_PART} then 3
      else 2)"

definition deparses_all :: "'e expr_view \<Rightarrow> bool" where
  "deparses_all V \<longleftrightarrow> (\<forall>e. \<exists>s. deparse V e = Inr s)"

lemma two_args [simp]: "2 \<le> length xs \<Longrightarrow> xs \<noteq> []"
  by (cases xs) simp_all

lemma text_of_const: "text_of (as_arg V x) = Some t \<Longrightarrow> const_text V x = t"
  by (simp add: const_text_def)

lemma list_nth_map: "n < length xs \<Longrightarrow> list_nth (map f xs) n = f (xs ! n)"
  by (simp add: list_nth_def)

lemma deparses_allE:
  assumes "deparses_all V"
  obtains d where "deparse V = (\<lambda>e. Inr (d e))"
proof -
  from assms have "\<forall>e. \<exists>s. deparse V e = Inr s" by (simp add: deparses_all_def)
  then have "\<exists>d. \<forall>e. deparse V e = Inr (d e)" by (rule choice)
  with that show thesis by blast
qed

text \<open>When no argument raises an error, the pieces do not, and the forms only for what they refuse.\<close>

lemma pieces_ok:
  assumes "deparse V = (\<lambda>e. Inr (d e))"
  shows "\<exists>s. appendTimeZoneArg V tz x zone = Inr s" and "\<exists>s. appendWallClock V tz x zone = Inr s"
    and "2 \<le> length xs \<Longrightarrow> \<exists>s. appendRegex V xs n = Inr s"
  by (auto simp: appendTimeZoneArg_def appendWallClock_def appendRegex_def nth_arg_def Let_def assms split: option.split)

lemma piecesE:
  assumes "deparses_all V"
  obtains d z w where "deparse V = (\<lambda>e. Inr (d e))" and "appendTimeZoneArg V tz = (\<lambda>x zone. Inr (z x zone))"
    and "appendWallClock V tz = (\<lambda>x zone. Inr (w x zone))"
proof -
  obtain d where d: "deparse V = (\<lambda>e. Inr (d e))" using assms by (rule deparses_allE)
  have "\<exists>z. \<forall>x zone. appendTimeZoneArg V tz x zone = Inr (z x zone)" "\<exists>w. \<forall>x zone. appendWallClock V tz x zone = Inr (w x zone)"
    using pieces_ok [OF d] by metis+
  with d that show thesis by blast
qed

lemma date_forms_ok:
  assumes "deparses_all V" and "2 \<le> length xs"
  shows "(\<exists>t. deparse_date_trunc V tz xs = Inr t) \<longleftrightarrow> map_of trunc_units (tolower (const_text V (xs ! 0))) \<noteq> None"
    and "(\<exists>t. deparse_date_part V tz xs = Inr t) \<longleftrightarrow> map_of part_units (tolower (const_text V (xs ! 0))) \<noteq> None"
    and "\<exists>t. deparse_timezone V tz r xs = Inr t"
proof -
  obtain d z w where e: "deparse V = (\<lambda>e. Inr (d e))" "appendTimeZoneArg V tz = (\<lambda>x zone. Inr (z x zone))"
      "appendWallClock V tz = (\<lambda>x zone. Inr (w x zone))"
    using assms(1) by (rule piecesE)
  have n: "0 < length xs" "1 < length xs" using assms(2) by simp_all
  show "(\<exists>t. deparse_date_trunc V tz xs = Inr t) \<longleftrightarrow> map_of trunc_units (tolower (const_text V (xs ! 0))) \<noteq> None"
    unfolding deparse_date_trunc_def nth_arg_def Let_def using n by (cases "map_of trunc_units (tolower (const_text V (xs ! 0)))") (simp_all add: e)
  show "(\<exists>t. deparse_date_part V tz xs = Inr t) \<longleftrightarrow> map_of part_units (tolower (const_text V (xs ! 0))) \<noteq> None"
    unfolding deparse_date_part_def nth_arg_def Let_def using n
    by (cases "map_of part_units (tolower (const_text V (xs ! 0)))"; cases "unwrapTimeZone V (xs ! 1)") (simp_all add: e)
  show "\<exists>t. deparse_timezone V tz r xs = Inr t"
    unfolding deparse_timezone_def nth_arg_def Let_def using n by (cases "unwrapTimeZone V (xs ! 1)") (simp_all add: e)
qed

text \<open>The tests of the walker on the arguments are the ones that the special forms need.\<close>

lemma array_forms_ok:
  assumes "deparse V = (\<lambda>e. Inr (d e))" and "2 \<le> length xs"
  shows "\<exists>t. deparse_array_position V xs = Inr t" and "\<exists>t. deparse_array_sort V xs = Inr t"
    and "\<exists>t. deparse_array_length V xs = Inr t" and "\<exists>t. deparse_trim_array V xs = Inr t"
    and "3 \<le> length xs \<or> \<not> b \<Longrightarrow> \<exists>t. deparse_swapped V xs b = Inr t"
    and "\<exists>t. deparseJsonbExtractPath V q xs w = Inr t"
  using assms(2)
  by (auto simp: deparse_array_position_def deparse_array_sort_def deparse_array_length_def deparse_trim_array_def deparse_swapped_def
      deparseJsonbExtractPath_def nth_arg_def assms(1))

lemma regex_forms_ok:
  assumes "deparse V = (\<lambda>e. Inr (d e))" and "2 \<le> length xs"
  shows "\<exists>t. deparse_match V xs = Inr t" and "\<exists>t. deparse_split_regex V xs = Inr t"
    and "(\<exists>t. deparse_regexp_match V captures xs = Inr t) \<longleftrightarrow> (\<exists>b. captures (const_text V (xs ! 1)) = Inr b)"
    and "3 \<le> length xs \<Longrightarrow> \<exists>t. deparse_regexp_replace V xs = Inr t"
proof -
  have r: "\<exists>s. appendRegex V xs n = Inr s" for n using pieces_ok(3) [OF assms(1,2)] .
  obtain r2 where r2: "appendRegex V xs 2 = Inr r2" using r by blast
  obtain r3 where r3: "appendRegex V xs 3 = Inr r3" using r by blast
  have n: "0 < length xs" "1 < length xs" using assms(2) by simp_all
  show "\<exists>t. deparse_match V xs = Inr t" "\<exists>t. deparse_split_regex V xs = Inr t"
    using n by (simp_all add: deparse_match_def deparse_split_regex_def nth_arg_def assms(1) r2)
  show "(\<exists>t. deparse_regexp_match V captures xs = Inr t) \<longleftrightarrow> (\<exists>b. captures (const_text V (xs ! 1)) = Inr b)"
    using n by (cases "captures (const_text V (xs ! 1))") (simp_all add: deparse_regexp_match_def nth_arg_def assms(1) r2)
  show "3 \<le> length xs \<Longrightarrow> \<exists>t. deparse_regexp_replace V xs = Inr t"
    using n by (simp add: deparse_regexp_replace_def nth_arg_def assms(1) r3)
qed

lemma text_forms_ok:
  assumes "deparses_all V" and "2 \<le> length xs" and "text_of (as_arg V (xs ! 1)) = Some s"
  shows "chfdw_translate_to_char_format s \<noteq> None \<Longrightarrow> \<exists>t. deparse_to_char V tz xs = Inr t"
    and "strcaseeq s ''hex'' \<or> strcaseeq s ''base64'' \<or> strcaseeq s ''base64url'' \<Longrightarrow> \<exists>t. deparse_encode V xs = Inr t"
    and "chfdw_digest_func_name s \<noteq> None \<Longrightarrow> \<exists>t. deparse_digest V xs = Inr t"
proof -
  obtain d z w where e: "deparse V = (\<lambda>e. Inr (d e))" "appendTimeZoneArg V tz = (\<lambda>x zone. Inr (z x zone))"
      "appendWallClock V tz = (\<lambda>x zone. Inr (w x zone))"
    using assms(1) by (rule piecesE)
  have n: "0 < length xs" "1 < length xs" using assms(2) by simp_all
  have t: "const_text V (xs ! 1) = s" using assms(3) by (rule text_of_const)
  show "\<exists>t. deparse_to_char V tz xs = Inr t" if "chfdw_translate_to_char_format s \<noteq> None"
    unfolding deparse_to_char_def nth_arg_def Let_def t using n that by (cases "unwrapTimeZone V (xs ! 0)") (auto simp: e)
  show "\<exists>t. deparse_encode V xs = Inr t" if "strcaseeq s ''hex'' \<or> strcaseeq s ''base64'' \<or> strcaseeq s ''base64url''"
    unfolding deparse_encode_def nth_arg_def Let_def t using n that by (auto simp: e)
  show "\<exists>t. deparse_digest V xs = Inr t" if "chfdw_digest_func_name s \<noteq> None"
    unfolding deparse_digest_def nth_arg_def Let_def t using n that by (auto simp: e)
qed



end
